(* ===== verification/Cos_Prelude.thy ===== *)
theory Cos_Prelude
  imports Main "HOL-Library.Word" "HOL-Library.Monad_Syntax"
begin

text \<open>
  Shared ground of the development: the machine types of the 32-bit target, the constants of
  \<^verbatim>\<open>kernel/include/shared/consts.h\<close>, failing computations, bounded loops, and linked lists
  threaded through arrays.

  A C routine becomes a function into \<open>'a option\<close> when its execution can reach a state the C code
  does not survive: a failed \<^verbatim>\<open>assert\<close> or \<^verbatim>\<open>BUG_ON\<close> (\<^verbatim>\<open>debug.h\<close> turns both into \<^verbatim>\<open>BUG()\<close>), a
  dereferenced \<^verbatim>\<open>NULL\<close>, or an access outside an array.  \<open>None\<close> stands for exactly these.  Error
  codes that the C code returns are ordinary results.
\<close>

unbundle bit_operations_syntax

named_theorems kdefs \<open>definitions of kernel operations that proofs unfold together\<close>
named_theorems frame_simps \<open>fields an operation leaves alone\<close>

subsection \<open>Machine types\<close>

type_synonym u8 = "8 word"
type_synonym u16 = "16 word"
type_synonym u32 = "32 word"
type_synonym vaddr = u32
type_synonym paddr = u32

text \<open>Pointers into the kernel's static arrays are array indices; \<^verbatim>\<open>NULL\<close> is \<open>None\<close>.\<close>

type_synonym thdp = nat
type_synonym spdp = nat
type_synonym cspdp = nat

subsection \<open>Failing steps\<close>

definition c_assert :: "bool \<Rightarrow> unit option" where
  "c_assert b = (if b then Some () else None)"

lemma c_assert_simps [simp]:
  "c_assert True = Some ()" "c_assert False = None"
  by (simp_all add: c_assert_def)

lemma c_assert_Some [simp]: "c_assert b = Some u \<longleftrightarrow> b"
  by (simp add: c_assert_def)

lemma c_assert_None [simp]: "c_assert b = None \<longleftrightarrow> \<not> b"
  by (simp add: c_assert_def)

lemma bind_c_assert [simp]: "c_assert b \<bind> f = (if b then f () else None)"
  by simp

lemma bind_SomeE:
  assumes "Option.bind m f = Some y"
  obtains x where "m = Some x" "f x = Some y"
  using assms by (auto simp: bind_eq_Some_conv)

subsection \<open>Bounded loops\<close>

text \<open>A loop over a fixed index list whose body can fail.\<close>

fun fold_opt :: "('i \<Rightarrow> 's \<Rightarrow> 's option) \<Rightarrow> 'i list \<Rightarrow> 's \<Rightarrow> 's option" where
  "fold_opt f [] s = Some s"
| "fold_opt f (x # xs) s = do { s' \<leftarrow> f x s; fold_opt f xs s' }"

lemma fold_opt_append: "fold_opt f (xs @ ys) s = do { s' \<leftarrow> fold_opt f xs s; fold_opt f ys s' }"
  by (induction xs arbitrary: s) (auto split: Option.bind_splits)

lemma fold_opt_cong [fundef_cong]:
  "xs = ys \<Longrightarrow> s = t \<Longrightarrow> (\<And>x u. x \<in> set ys \<Longrightarrow> f x u = g x u) \<Longrightarrow> fold_opt f xs s = fold_opt g ys t"
  by (induction ys arbitrary: xs s t) (auto split: Option.bind_splits)

text \<open>What every round of a loop keeps, the loop keeps.\<close>

lemma fold_opt_invariant:
  assumes "fold_opt f xs s = Some t" "P s"
    and "\<And>x u v. x \<in> set xs \<Longrightarrow> P u \<Longrightarrow> f x u = Some v \<Longrightarrow> P v"
  shows "P t"
  using assms by (induction xs arbitrary: s) (auto simp: bind_eq_Some_conv)

lemma fold_opt_total:
  assumes "P s" "\<And>x u. x \<in> set xs \<Longrightarrow> P u \<Longrightarrow> \<exists>v. f x u = Some v \<and> P v"
  shows "\<exists>t. fold_opt f xs s = Some t \<and> P t"
  using assms
proof (induction xs arbitrary: s)
  case Nil
  then show ?case by simp
next
  case (Cons x xs)
  then obtain v where "f x s = Some v" "P v" by fastforce
  with Cons.IH [of v] Cons.prems(2) show ?case by auto
qed

lemma fold_fun_upd: "fold (\<lambda>j m. m(j := g j)) xs m = (\<lambda>i. if i \<in> set xs then g i else m i)"
  by (induction xs rule: rev_induct) (auto simp: fun_eq_iff)

subsection \<open>Singly linked lists through an array\<close>

text \<open>
  \<open>chain nx h xs\<close>: following the link field \<open>nx\<close> from the pointer \<open>h\<close> visits exactly \<open>xs\<close> and ends
  at \<^verbatim>\<open>NULL\<close>.
\<close>

fun chain :: "('a \<Rightarrow> 'a option) \<Rightarrow> 'a option \<Rightarrow> 'a list \<Rightarrow> bool" where
  "chain nx h [] \<longleftrightarrow> h = None"
| "chain nx h (x # xs) \<longleftrightarrow> h = Some x \<and> chain nx (nx x) xs"

lemma chain_None [simp]: "chain nx None xs \<longleftrightarrow> xs = []"
  by (cases xs) auto

lemma chain_Some: "chain nx (Some x) xs \<longleftrightarrow> (\<exists>ys. xs = x # ys \<and> chain nx (nx x) ys)"
  by (cases xs) auto

lemma chain_upd [simp]: "x \<notin> set xs \<Longrightarrow> chain (nx(x := v)) h xs \<longleftrightarrow> chain nx h xs"
  by (induction xs arbitrary: h) auto

lemma chain_cong: "(\<And>x. x \<in> set xs \<Longrightarrow> nx x = ny x) \<Longrightarrow> chain nx h xs \<longleftrightarrow> chain ny h xs"
  by (induction xs arbitrary: h) auto

lemma chain_unique: "chain nx h xs \<Longrightarrow> chain nx h ys \<Longrightarrow> xs = ys"
  by (induction xs arbitrary: h ys) (auto simp: chain_Some)

lemma chain_append:
  "chain nx h (xs @ x # ys) \<Longrightarrow> chain nx (nx x) ys"
  by (induction xs arbitrary: h) auto

lemma chain_distinct: "chain nx h xs \<Longrightarrow> distinct xs"
proof (induction xs arbitrary: h)
  case Nil
  then show ?case by simp
next
  case (Cons x xs)
  have "x \<notin> set xs"
  proof
    assume "x \<in> set xs"
    then obtain as bs where xs: "xs = as @ x # bs" by (meson split_list)
    from Cons.prems have "chain nx (nx x) xs" by simp
    moreover from this have "chain nx (nx x) bs" unfolding xs by (rule chain_append)
    ultimately have "xs = bs" by (rule chain_unique)
    with xs show False by simp
  qed
  with Cons show ?case by auto
qed

lemma chain_upt:
  assumes "\<And>i. a \<le> i \<Longrightarrow> i < b \<Longrightarrow> nx i = (if Suc i = b then None else Some (Suc i))" "a < b"
  shows "chain nx (Some a) [a..<b]"
  using assms
proof (induction "b - a" arbitrary: a)
  case 0
  then show ?case by simp
next
  case (Suc n)
  show ?case
  proof (cases "Suc a = b")
    case True
    with Suc.prems show ?thesis by (auto simp: upt_rec [of a b])
  next
    case False
    with Suc.prems(2) have "Suc a < b" by simp
    with Suc.hyps(1) [of "Suc a"] Suc.hyps(2) Suc.prems(1) have "chain nx (Some (Suc a)) [Suc a..<b]"
      by auto
    with False Suc.prems show ?thesis by (auto simp: upt_rec [of a b])
  qed
qed

subsection \<open>Circular doubly linked lists\<close>

text \<open>
  \<open>dseg nx pv a xs b\<close>: from node \<open>a\<close> the forward links visit \<open>xs\<close> and then \<open>b\<close>, and the backward
  links undo every step.  A ring is a segment from its first node back to that node.
\<close>

fun dseg :: "('a \<Rightarrow> 'a option) \<Rightarrow> ('a \<Rightarrow> 'a option) \<Rightarrow> 'a \<Rightarrow> 'a list \<Rightarrow> 'a \<Rightarrow> bool" where
  "dseg nx pv a [] b \<longleftrightarrow> nx a = Some b \<and> pv b = Some a"
| "dseg nx pv a (x # xs) b \<longleftrightarrow> nx a = Some x \<and> pv x = Some a \<and> dseg nx pv x xs b"

fun dring :: "('a \<Rightarrow> 'a option) \<Rightarrow> ('a \<Rightarrow> 'a option) \<Rightarrow> 'a list \<Rightarrow> bool" where
  "dring nx pv [] \<longleftrightarrow> False"
| "dring nx pv (x # xs) \<longleftrightarrow> distinct (x # xs) \<and> dseg nx pv x xs x"

lemma dseg_append: "dseg nx pv a (xs @ y # ys) b \<longleftrightarrow> dseg nx pv a xs y \<and> dseg nx pv y ys b"
  by (induction xs arbitrary: a) auto

lemma dseg_cong:
  "(\<And>x. x \<in> insert a (set xs) \<Longrightarrow> nx x = nx' x) \<Longrightarrow> (\<And>x. x \<in> insert b (set xs) \<Longrightarrow> pv x = pv' x) \<Longrightarrow>
   dseg nx pv a xs b \<longleftrightarrow> dseg nx' pv' a xs b"
  by (induction xs arbitrary: a) auto

lemma dseg_last: "dseg nx pv a xs b \<Longrightarrow> pv b = Some (last (a # xs)) \<and> nx (last (a # xs)) = Some b"
  by (induction xs arbitrary: a) auto

lemma dring_rotate1: "dring nx pv (x # xs) \<longleftrightarrow> dring nx pv (xs @ [x])"
proof (cases xs)
  case Nil
  then show ?thesis by simp
next
  case (Cons y ys)
  then show ?thesis by (auto simp: dseg_append)
qed

lemma dring_rotate: "dring nx pv (xs @ ys) \<longleftrightarrow> dring nx pv (ys @ xs)"
proof (induction xs arbitrary: ys)
  case Nil
  then show ?case by simp
next
  case (Cons x xs)
  have "dring nx pv ((x # xs) @ ys) = dring nx pv (xs @ (ys @ [x]))"
    using dring_rotate1 [of nx pv x "xs @ ys"] by simp
  also have "\<dots> = dring nx pv (ys @ x # xs)" using Cons.IH [of "ys @ [x]"] by simp
  finally show ?case .
qed

lemma dring_links:
  assumes "dring nx pv (x # xs)"
  shows "nx x = Some (hd (xs @ [x]))" "pv x = Some (last (x # xs))" "nx (last (x # xs)) = Some x"
    "pv (hd (xs @ [x])) = Some x"
  using assms dseg_last [of nx pv x xs x] by (cases xs; simp)+

text \<open>Insertion before the first node, which makes the new node the first.\<close>

lemma dseg_retarget:
  assumes "dseg nx pv a xs b" "distinct (a # xs)" "new \<notin> set (a # xs)" "c \<notin> set xs"
  shows "dseg (nx(last (a # xs) := Some new)) (pv(new := Some (last (a # xs)), c := v)) a xs new \<longleftrightarrow> c \<noteq> new \<or> v = Some (last (a # xs))"
  using assms
proof (induction xs arbitrary: a)
  case Nil
  then show ?case by auto
next
  case (Cons x xs)
  then have "dseg nx pv x xs b" "distinct (x # xs)" "new \<notin> set (x # xs)" "c \<notin> set xs" by auto
  from Cons.IH [OF this] Cons.prems show ?case by auto
qed

lemma dring_insert:
  assumes "dring nx pv (x # xs)" "new \<notin> set (x # xs)"
  shows "dring (nx(new := Some x, last (x # xs) := Some new)) (pv(new := Some (last (x # xs)), x := Some new)) (new # x # xs)"
proof -
  let ?l = "last (x # xs)"
  have lin: "?l \<in> set (x # xs)" by (rule last_in_set) simp
  have "dseg (nx(?l := Some new)) (pv(new := Some ?l, x := Some new)) x xs new"
    using assms dseg_retarget [of nx pv x xs x new x "Some new"] by auto
  moreover have "new \<noteq> ?l" using lin assms(2) by metis
  ultimately have "dseg (nx(new := Some x, ?l := Some new)) (pv(new := Some ?l, x := Some new)) x xs new"
    using assms(2) by (subst dseg_cong [where nx' = "nx(?l := Some new)" and pv' = "pv(new := Some ?l, x := Some new)"]) auto
  with assms \<open>new \<noteq> ?l\<close> show ?thesis by auto
qed

lemma dring_remove:
  assumes "dring nx pv (x # xs)" "xs \<noteq> []"
  shows "dring (nx(last xs := Some (hd xs), x := Some x)) (pv(hd xs := Some (last xs), x := Some x)) xs"
proof -
  obtain y ys where xs: "xs = y # ys" using assms(2) by (cases xs) auto
  let ?l = "last (y # ys)"
  have d: "distinct (y # ys)" "x \<notin> set (y # ys)" "dseg nx pv y ys x"
    using assms(1) xs by auto
  have "dseg (nx(?l := Some y)) (pv(y := Some ?l, x := Some x)) y ys y"
  proof (cases ys rule: rev_cases)
    case Nil
    with d show ?thesis by auto
  next
    case (snoc zs z)
    have z: "dseg nx pv y zs z" using d(3) snoc by (simp add: dseg_append)
    have "dseg (nx(z := Some y)) (pv(y := Some z, x := Some x)) y zs z"
      using d snoc z by (subst dseg_cong [where nx' = nx and pv' = pv]) auto
    then show ?thesis using snoc d by (auto simp: dseg_append)
  qed
  then have "dseg (nx(?l := Some y, x := Some x)) (pv(y := Some ?l, x := Some x)) y ys y"
    using d(2) by (subst dseg_cong [where nx' = "nx(?l := Some y)" and pv' = "pv(y := Some ?l, x := Some x)"]) auto
  then show ?thesis using d(1) xs by simp
qed

lemma dring_cong:
  "(\<And>x. x \<in> set xs \<Longrightarrow> nx x = nx' x) \<Longrightarrow> (\<And>x. x \<in> set xs \<Longrightarrow> pv x = pv' x) \<Longrightarrow>
   dring nx pv xs \<longleftrightarrow> dring nx' pv' xs"
  using dseg_cong [of "hd xs" "tl xs" nx nx' "hd xs" pv pv'] by (cases xs) auto

subsection \<open>Loops around a ring\<close>

text \<open>
  The kernel walks its rings with \<^verbatim>\<open>do { ... p = p->next; } while (p != head)\<close>.  A loop of this shape, whose
  body leaves the links of the nodes still to come and the head alone, is a fold over the nodes.
\<close>

fun fseg :: "('a \<Rightarrow> 'a option) \<Rightarrow> 'a \<Rightarrow> 'a list \<Rightarrow> 'a \<Rightarrow> bool" where
  "fseg nx a [] b \<longleftrightarrow> nx a = Some b"
| "fseg nx a (x # xs) b \<longleftrightarrow> nx a = Some x \<and> fseg nx x xs b"

lemma dseg_fseg: "dseg nx pv a xs b \<Longrightarrow> fseg nx a xs b"
  by (induction xs arbitrary: a) auto

lemma fseg_cong: "(\<And>x. x \<in> insert a (set xs) \<Longrightarrow> nx x = ny x) \<Longrightarrow> fseg nx a xs b \<longleftrightarrow> fseg ny a xs b"
  by (induction xs arbitrary: a) auto

locale ring_loop =
  fixes step :: "'p \<Rightarrow> 's \<Rightarrow> 's option"
    and next_of :: "'s \<Rightarrow> 'p \<Rightarrow> 'p option"
    and head_of :: "'s \<Rightarrow> 'p option"
    and loop :: "'p \<Rightarrow> 's \<Rightarrow> 's option"
  assumes loop_unfold: "next_of s p \<noteq> None \<Longrightarrow> loop p s = do { s' \<leftarrow> step p s; q \<leftarrow> next_of s p;
      if Some q \<noteq> head_of s then loop q s' else Some s' }"
    and step_next: "step p s = Some s' \<Longrightarrow> q \<noteq> p \<Longrightarrow> next_of s' q = next_of s q"
    and step_head: "step p s = Some s' \<Longrightarrow> head_of s' = head_of s"
begin

lemma loop_fold:
  assumes "fseg (next_of s) p xs h" "head_of s = Some h" "h \<notin> set xs" "distinct (p # xs)"
  shows "loop p s = fold_opt step (p # xs) s"
  using assms
proof (induction xs arbitrary: p s)
  case Nil
  then show ?case by (cases "step p s") (simp_all add: loop_unfold)
next
  case (Cons x xs)
  from Cons.prems have "x \<noteq> h" by auto
  with Cons.prems have u: "loop p s = do { s' \<leftarrow> step p s; loop x s' }"
    by (simp add: loop_unfold)
  show ?case
  proof (cases "step p s")
    case None
    then show ?thesis by (simp add: u)
  next
    case (Some s')
    have "next_of s' q = next_of s q" if "q \<in> insert x (set xs)" for q
      using that Cons.prems(4) by (intro step_next [OF Some]) auto
    then have "fseg (next_of s') x xs h"
      using Cons.prems(1) fseg_cong [of x xs "next_of s'" "next_of s" h] by simp
    with Cons.IH [of s' x] Cons.prems step_head [OF Some] Some u show ?thesis by simp
  qed
qed

lemma loop_ring:
  assumes "dring (next_of s) pv (p # xs)" "head_of s = Some p"
  shows "loop p s = fold_opt step (p # xs) s"
  using assms by (intro loop_fold) (auto intro: dseg_fseg)

end

subsection \<open>Words as integers\<close>

lemma uint_int_less [simp]:
  "uint w \<le> int c \<longleftrightarrow> unat w \<le> c" "int c < uint w \<longleftrightarrow> c < unat w"
  "int c - uint w < uint v \<longleftrightarrow> c < unat w + unat v"
  unfolding uint_nat [of w] uint_nat [of v] by linarith+

lemma nat_int_minus_uint [simp]: "nat (int c - uint w) = c - unat w"
  unfolding uint_nat [of w] by linarith

subsection \<open>Free lists\<close>

text \<open>
  The contract that the page pool, the thread, component and composite descriptor free lists share:
  \<open>pool s xs\<close> says that in state \<open>s\<close> exactly the objects \<open>xs\<close> are free, in this order; taking one
  removes the first, giving one back (allowed when \<open>may_put\<close> holds) adds it at the front.
\<close>

fun get_n :: "('s \<Rightarrow> ('a \<times> 's) option) \<Rightarrow> nat \<Rightarrow> 's \<Rightarrow> ('a list \<times> 's) option" where
  "get_n get 0 s = Some ([], s)"
| "get_n get (Suc n) s = do { (x, s) \<leftarrow> get s; (xs, s) \<leftarrow> get_n get n s; Some (x # xs, s) }"

locale free_stack =
  fixes pool :: "'s \<Rightarrow> 'a list \<Rightarrow> bool"
    and get :: "'s \<Rightarrow> ('a \<times> 's) option"
    and put :: "'a \<Rightarrow> 's \<Rightarrow> 's option"
    and may_put :: "'a \<Rightarrow> 's \<Rightarrow> 'a list \<Rightarrow> bool"
  assumes pool_distinct: "pool s xs \<Longrightarrow> distinct xs"
    and get_top: "pool s (x # xs) \<Longrightarrow> \<exists>s'. get s = Some (x, s') \<and> pool s' xs"
    and put_top: "pool s xs \<Longrightarrow> may_put x s xs \<Longrightarrow> \<exists>s'. put x s = Some s' \<and> pool s' (x # xs)"
begin

lemma put_get:
  assumes "pool s xs" "may_put x s xs"
  shows "\<exists>s' s''. put x s = Some s' \<and> get s' = Some (x, s'') \<and> pool s'' xs"
  using put_top [OF assms] get_top by blast

lemma get_n_drains: "pool s (ys @ xs) \<Longrightarrow> \<exists>s'. get_n get (length ys) s = Some (ys, s') \<and> pool s' xs"
proof (induction ys arbitrary: s)
  case Nil
  then show ?case by simp
next
  case (Cons y ys)
  from Cons.prems have "pool s (y # (ys @ xs))" by simp
  then obtain s1 where s1: "get s = Some (y, s1)" "pool s1 (ys @ xs)" by (blast dest: get_top)
  then obtain s2 where "get_n get (length ys) s1 = Some (ys, s2)" "pool s2 xs" by (blast dest: Cons.IH)
  with s1 show ?case by simp
qed

lemma get_n_fresh:
  assumes "pool s xs" "n \<le> length xs"
  shows "\<exists>ys s'. get_n get n s = Some (ys, s') \<and> length ys = n \<and> distinct ys \<and> pool s' (drop n xs)
           \<and> set ys \<inter> set (drop n xs) = {}"
proof -
  from assms obtain s' where "get_n get n s = Some (take n xs, s')" "pool s' (drop n xs)"
    using get_n_drains [of s "take n xs" "drop n xs"] by (auto simp: min_absorb2)
  moreover have "set (take n xs) \<inter> set (drop n xs) = {}"
    using pool_distinct [OF assms(1)] by (simp add: set_take_disj_set_drop_if_distinct)
  ultimately show ?thesis using assms pool_distinct [OF assms(1)] by (simp add: min_absorb2)
qed

end

end
