(* ===== verification/Kernel_Types.thy ===== *)
theory Kernel_Types
  imports Cos_Prelude
begin

text \<open>
  The data of the kernel: the constants of \<^verbatim>\<open>kernel/include/shared/consts.h\<close>, the structures of
  \<^verbatim>\<open>cos_types.h\<close>, \<^verbatim>\<open>spd.h\<close>, \<^verbatim>\<open>thread.h\<close> and \<^verbatim>\<open>mmap.h\<close>, and one record \<open>kstate\<close> with the kernel's
  static arrays and variables.

  Arrays are functions from indices; every operation that indexes one checks the bound where the
  C code can leave it.  Physical memory that the kernel itself interprets (page directories, page
  tables, the links of the page pool) is \<open>pmem\<close>: the words of the page frame at a physical address.
  Pages that the kernel shares with components (scheduler areas, ring buffers, user capability
  tables) are stored once, under their kernel address or their owner, so the two addresses under
  which the C code reaches the same page denote the same data.

  What Linux answers is part of the environment: \<open>env_page n\<close> is the result of the \<open>n\<close>-th call of
  \<^verbatim>\<open>__get_free_pages\<close>, \<open>env_tsc n\<close> that of the \<open>n\<close>-th \<^verbatim>\<open>rdtsc\<close>.  No assumption is built in.
\<close>

subsection \<open>Constants\<close>

definition PAGE_SHIFT :: nat where "PAGE_SHIFT = 12"
definition PAGE_SIZE :: nat where "PAGE_SIZE = 4096"
definition PAGE_MASK :: u32 where "PAGE_MASK = 0xFFFFF000"
definition MAX_SERVICE_DEPTH :: nat where "MAX_SERVICE_DEPTH = 31"
definition MAX_NUM_THREADS :: nat where "MAX_NUM_THREADS = 30"
definition MAX_SPD_VAS_LOCATIONS :: nat where "MAX_SPD_VAS_LOCATIONS = 8"
definition COS_NUM_FAULTS :: nat where "COS_NUM_FAULTS = 1"
definition MAX_SCHED_HIER_DEPTH :: nat where "MAX_SCHED_HIER_DEPTH = 4"
definition MAX_NUM_SPDS :: nat where "MAX_NUM_SPDS = 64"
definition MAX_STATIC_CAP :: nat where "MAX_STATIC_CAP = 1024"
definition MAX_MPD_DESC :: nat where "MAX_MPD_DESC = 1024"
definition MAX_VAS_NUM :: nat where "MAX_VAS_NUM = 2"
definition PGD_PER_PTBL :: nat where "PGD_PER_PTBL = 1024"
definition HPAGE_SHIFT :: nat where "HPAGE_SHIFT = 22"
definition HPAGE_SIZE :: u32 where "HPAGE_SIZE = 0x400000"
definition COS_NUM_ATOMIC_SECTIONS :: nat where "COS_NUM_ATOMIC_SECTIONS = 10"
definition COS_MAX_MEMORY :: nat where "COS_MAX_MEMORY = 2048"
definition COS_INFO_REGION_ADDR :: u32 where "COS_INFO_REGION_ADDR = 0x40000000"
definition KERN_BASE_ADDR :: u32 where "KERN_BASE_ADDR = 0xC0000000"
definition NUM_SCHED_EVTS :: nat where "NUM_SCHED_EVTS = 128"
definition RB_SIZE :: nat where "RB_SIZE = 512"

lemmas kconsts = PAGE_SHIFT_def PAGE_SIZE_def PAGE_MASK_def MAX_SERVICE_DEPTH_def MAX_NUM_THREADS_def
  MAX_SPD_VAS_LOCATIONS_def COS_NUM_FAULTS_def MAX_SCHED_HIER_DEPTH_def MAX_NUM_SPDS_def
  MAX_STATIC_CAP_def MAX_MPD_DESC_def MAX_VAS_NUM_def PGD_PER_PTBL_def HPAGE_SHIFT_def HPAGE_SIZE_def
  COS_NUM_ATOMIC_SECTIONS_def COS_MAX_MEMORY_def COS_INFO_REGION_ADDR_def KERN_BASE_ADDR_def
  NUM_SCHED_EVTS_def RB_SIZE_def

text \<open>Thread flags (\<^verbatim>\<open>thread.h\<close>), protection-domain flags (\<^verbatim>\<open>spd.h\<close>), isolation levels.\<close>

definition THD_STATE_PREEMPTED :: u16 where "THD_STATE_PREEMPTED = 0x1"
definition THD_STATE_UPCALL :: u16 where "THD_STATE_UPCALL = 0x2"
definition THD_STATE_ACTIVE_UPCALL :: u16 where "THD_STATE_ACTIVE_UPCALL = 0x4"
definition THD_STATE_READY_UPCALL :: u16 where "THD_STATE_READY_UPCALL = 0x8"
definition THD_STATE_BRAND :: u16 where "THD_STATE_BRAND = 0x10"
definition THD_STATE_HW_BRAND :: u16 where "THD_STATE_HW_BRAND = 0x80"
definition THD_STATE_CYC_CNT :: u16 where "THD_STATE_CYC_CNT = 0x100"

lemmas thd_flag_defs = THD_STATE_PREEMPTED_def THD_STATE_UPCALL_def THD_STATE_ACTIVE_UPCALL_def
  THD_STATE_READY_UPCALL_def THD_STATE_BRAND_def THD_STATE_HW_BRAND_def THD_STATE_CYC_CNT_def

definition SPD_COMPOSITE :: u32 where "SPD_COMPOSITE = 0x1"
definition SPD_FREE :: u32 where "SPD_FREE = 0x2"
definition SPD_DEPRICATED :: u32 where "SPD_DEPRICATED = 0x4"
definition SPD_SUBORDINATE :: u32 where "SPD_SUBORDINATE = 0x8"
definition SPD_ACTIVE :: u32 where "SPD_ACTIVE = 0x10"

lemmas spd_flag_defs = SPD_COMPOSITE_def SPD_FREE_def SPD_DEPRICATED_def SPD_SUBORDINATE_def
  SPD_ACTIVE_def

definition IL_ST :: u32 where "IL_ST = 0"
definition IL_AST :: u32 where "IL_AST = 2"
definition IL_SDT :: u32 where "IL_SDT = 3"
definition IL_INV :: u32 where "IL_INV = 0xFFFFFFFF"
definition MAX_ISOLATION_LVL_VAL :: u32 where "MAX_ISOLATION_LVL_VAL = 3"
definition CAP_SAVE_REGS :: u32 where "CAP_SAVE_REGS = 1"

lemmas il_defs = IL_ST_def IL_AST_def IL_SDT_def IL_INV_def MAX_ISOLATION_LVL_VAL_def CAP_SAVE_REGS_def

definition RB_READY :: u16 where "RB_READY = 1"
definition RB_USED :: u16 where "RB_USED = 2"
definition RB_ERR :: u16 where "RB_ERR = 3"

text \<open>A flag word has one of the bits of a mask.\<close>

definition has :: "'a::len word \<Rightarrow> 'a word \<Rightarrow> bool" where
  "has w m \<longleftrightarrow> w AND m \<noteq> 0"

subsection \<open>Structures\<close>

record pt_regs =
  r_bx :: u32
  r_cx :: u32
  r_dx :: u32
  r_si :: u32
  r_di :: u32
  r_bp :: u32
  r_ax :: u32
  r_ip :: u32
  r_sp :: u32
  r_orig_ax :: u32
  r_cs :: u32
  r_ss :: u32

text \<open>
  \<^verbatim>\<open>struct spd_poly *\<close> points at the \<^verbatim>\<open>spd_info\<close> of a component's own protection domain or at that
  of a composite one.
\<close>

datatype spd_poly = PSpd spdp | PCspd cspdp

record thd_invocation_frame =
  current_composite_spd :: "spd_poly option"
  f_spd :: "spdp option"
  f_sp :: vaddr
  f_ip :: vaddr

text \<open>\<^verbatim>\<open>thread_notifications\<close> points at an entry of the event array of a scheduler page.\<close>

record thd_sched_info =
  scheduler :: "spdp option"
  thread_notifications :: "(vaddr \<times> nat) option"
  notification_offset :: u32

record thread =
  stack_ptr :: int
  thread_id :: nat
  cpu_id :: u16
  t_flags :: u16
  regs :: pt_regs
  stack_base :: "nat \<Rightarrow> thd_invocation_frame"
  fault_regs :: pt_regs
  data_region :: vaddr
  ul_data_page :: vaddr
  sched_info :: "nat \<Rightarrow> thd_sched_info"
  thread_brand :: "thdp option"
  interrupted_thread :: "thdp option"
  preempter_thread :: "thdp option"
  upcall_threads :: "thdp option"
  pending_upcall_requests :: u32
  u_rb :: vaddr
  k_rb :: vaddr
  rb_next :: nat
  t_freelist_next :: "thdp option"

datatype cap_owner = CAP_FREE | CAP_ALLOCATED_UNUSED | Owner spdp

record usr_cap_stubs =
  ST_serv_entry :: vaddr
  SD_cli_stub :: vaddr
  SD_serv_stub :: vaddr
  AT_cli_stub :: vaddr
  AT_serv_stub :: vaddr

record invocation_cap =
  owner :: cap_owner
  destination :: "spdp option"
  invocation_cnt :: "30 word"
  il :: "2 word"
  dest_entry_instruction :: vaddr
  usr_stub_info :: usr_cap_stubs

record usr_inv_cap =
  invocation_fn :: vaddr
  service_entry_inst :: vaddr
  invocation_count :: u32
  uc_cap_no :: u32

record spd_location =
  lowest_addr :: u32
  loc_size :: u32

record spd =
  s_flags :: u32
  s_ref_cnt :: u32
  s_pg_tbl :: paddr
  location :: "nat \<Rightarrow> spd_location"
  s_composite_spd :: spd_poly
  cap_base :: u16
  cap_range :: u16
  fault_handler :: "nat \<Rightarrow> u16"
  user_cap_tbl :: vaddr
  user_vaddr_cap_tbl :: vaddr
  sched_depth :: int
  parent_sched :: "spdp option"
  sched_shared_page :: vaddr
  kern_sched_shared_page :: vaddr
  prev_notification :: u16
  cos_net_xmit_headers :: vaddr
  upcall_entry :: vaddr
  atomic_sections :: "nat \<Rightarrow> vaddr"
  s_freelist_next :: "spdp option"
  composite_member_next :: "spdp option"
  composite_member_prev :: "spdp option"
  composite_vas :: "nat option"

record composite_spd =
  c_flags :: u32
  c_ref_cnt :: u32
  c_pg_tbl :: paddr
  members :: "spdp option"
  master_spd :: "cspdp option"
  c_next :: "cspdp option"
  c_prev :: "cspdp option"

record vas =
  virtual_spd_layout :: "nat \<Rightarrow> spdp option"
  start_addr :: u32
  vas_id :: int

record cos_sched_events =
  e_next :: u8
  e_flags :: u8
  e_urgency :: u16
  cpu_consumption :: u32

record cos_sched_data_area =
  next_thd_id :: nat
  next_thd_flags :: u16
  owner_thd :: nat
  queued_thd :: nat
  pending_event :: u32
  pending_cevt :: u32
  cos_events :: "nat \<Rightarrow> cos_sched_events"

record rb_buff =
  rb_ptr :: vaddr
  rb_len :: u16
  rb_stat :: u16

subsection \<open>The kernel state\<close>

record kstate =
  threads :: "thdp \<Rightarrow> thread"
  thread_freelist_head :: "thdp option"
  current_thread :: "thdp option"
  spds :: "spdp \<Rightarrow> spd"
  spd_freelist_head :: "spdp option"
  invocation_capabilities :: "nat \<Rightarrow> invocation_cap"
  user_caps :: "spdp \<Rightarrow> nat \<Rightarrow> usr_inv_cap"
  mpd_descriptors :: "cspdp \<Rightarrow> composite_spd"
  mpd_freelist :: "cspdp option"
  vas_list :: "nat \<Rightarrow> vas"
  cur_num_vases :: int
  cos_pages :: "nat \<Rightarrow> paddr"
  page_list_head :: vaddr
  page_list_len :: u32
  pmem :: "paddr \<Rightarrow> nat \<Rightarrow> u32"
  kern_pgtbl_mapping :: vaddr
  shared_region_page :: "nat \<Rightarrow> u32"
  sched_areas :: "vaddr \<Rightarrow> cos_sched_data_area"
  rings :: "vaddr \<Rightarrow> nat \<Rightarrow> rb_buff"
  cr3 :: paddr
  host_pgd :: paddr
  ud_current_thread :: nat
  ud_argument_region :: vaddr
  cycle_cnt :: u32
  env_page :: "nat \<Rightarrow> vaddr"
  env_page_n :: nat
  env_freed :: "vaddr list"
  env_tsc :: "nat \<Rightarrow> u32"
  env_tsc_n :: nat
  composite_thread :: bool
  env_composite_current :: bool

text \<open>Updates of one array element, in the shape the C assignments have.\<close>

definition upd_thd :: "thdp \<Rightarrow> (thread \<Rightarrow> thread) \<Rightarrow> kstate \<Rightarrow> kstate" where
  "upd_thd i f s = s\<lparr>threads := (threads s)(i := f (threads s i))\<rparr>"

definition upd_spd :: "spdp \<Rightarrow> (spd \<Rightarrow> spd) \<Rightarrow> kstate \<Rightarrow> kstate" where
  "upd_spd i f s = s\<lparr>spds := (spds s)(i := f (spds s i))\<rparr>"

definition upd_cap :: "nat \<Rightarrow> (invocation_cap \<Rightarrow> invocation_cap) \<Rightarrow> kstate \<Rightarrow> kstate" where
  "upd_cap i f s = s\<lparr>invocation_capabilities :=
     (invocation_capabilities s)(i := f (invocation_capabilities s i))\<rparr>"

definition upd_mpd :: "cspdp \<Rightarrow> (composite_spd \<Rightarrow> composite_spd) \<Rightarrow> kstate \<Rightarrow> kstate" where
  "upd_mpd i f s = s\<lparr>mpd_descriptors := (mpd_descriptors s)(i := f (mpd_descriptors s i))\<rparr>"

definition upd_ucap :: "spdp \<Rightarrow> nat \<Rightarrow> (usr_inv_cap \<Rightarrow> usr_inv_cap) \<Rightarrow> kstate \<Rightarrow> kstate" where
  "upd_ucap i n f s = s\<lparr>user_caps := (user_caps s)(i := (user_caps s i)(n := f (user_caps s i n)))\<rparr>"

definition upd_area :: "vaddr \<Rightarrow> (cos_sched_data_area \<Rightarrow> cos_sched_data_area) \<Rightarrow> kstate \<Rightarrow> kstate" where
  "upd_area a f s = s\<lparr>sched_areas := (sched_areas s)(a := f (sched_areas s a))\<rparr>"

lemmas upd_defs = upd_thd_def upd_spd_def upd_cap_def upd_mpd_def upd_ucap_def upd_area_def

text \<open>Reading a field after an update of one element.\<close>

lemma upd_thd_frame [simp]:
  "threads (upd_thd i f s) j = (if j = i then f (threads s i) else threads s j)"
  "thread_freelist_head (upd_thd i f s) = thread_freelist_head s"
  "current_thread (upd_thd i f s) = current_thread s"
  "spds (upd_thd i f s) = spds s"
  "spd_freelist_head (upd_thd i f s) = spd_freelist_head s"
  "invocation_capabilities (upd_thd i f s) = invocation_capabilities s"
  "user_caps (upd_thd i f s) = user_caps s"
  "mpd_descriptors (upd_thd i f s) = mpd_descriptors s"
  "mpd_freelist (upd_thd i f s) = mpd_freelist s"
  "vas_list (upd_thd i f s) = vas_list s"
  "cur_num_vases (upd_thd i f s) = cur_num_vases s"
  "cos_pages (upd_thd i f s) = cos_pages s"
  "page_list_head (upd_thd i f s) = page_list_head s"
  "page_list_len (upd_thd i f s) = page_list_len s"
  "pmem (upd_thd i f s) = pmem s"
  "kern_pgtbl_mapping (upd_thd i f s) = kern_pgtbl_mapping s"
  "shared_region_page (upd_thd i f s) = shared_region_page s"
  "sched_areas (upd_thd i f s) = sched_areas s"
  "rings (upd_thd i f s) = rings s"
  "cr3 (upd_thd i f s) = cr3 s"
  "host_pgd (upd_thd i f s) = host_pgd s"
  "ud_current_thread (upd_thd i f s) = ud_current_thread s"
  "ud_argument_region (upd_thd i f s) = ud_argument_region s"
  "cycle_cnt (upd_thd i f s) = cycle_cnt s"
  "env_page (upd_thd i f s) = env_page s"
  "env_page_n (upd_thd i f s) = env_page_n s"
  "env_freed (upd_thd i f s) = env_freed s"
  "env_tsc (upd_thd i f s) = env_tsc s"
  "env_tsc_n (upd_thd i f s) = env_tsc_n s"
  "composite_thread (upd_thd i f s) = composite_thread s"
  "env_composite_current (upd_thd i f s) = env_composite_current s"
  by (simp_all add: upd_thd_def)

lemma upd_spd_frame [simp]:
  "spds (upd_spd i f s) j = (if j = i then f (spds s i) else spds s j)"
  "threads (upd_spd i f s) = threads s"
  "thread_freelist_head (upd_spd i f s) = thread_freelist_head s"
  "current_thread (upd_spd i f s) = current_thread s"
  "spd_freelist_head (upd_spd i f s) = spd_freelist_head s"
  "invocation_capabilities (upd_spd i f s) = invocation_capabilities s"
  "user_caps (upd_spd i f s) = user_caps s"
  "mpd_descriptors (upd_spd i f s) = mpd_descriptors s"
  "mpd_freelist (upd_spd i f s) = mpd_freelist s"
  "vas_list (upd_spd i f s) = vas_list s"
  "cur_num_vases (upd_spd i f s) = cur_num_vases s"
  "cos_pages (upd_spd i f s) = cos_pages s"
  "page_list_head (upd_spd i f s) = page_list_head s"
  "page_list_len (upd_spd i f s) = page_list_len s"
  "pmem (upd_spd i f s) = pmem s"
  "kern_pgtbl_mapping (upd_spd i f s) = kern_pgtbl_mapping s"
  "shared_region_page (upd_spd i f s) = shared_region_page s"
  "sched_areas (upd_spd i f s) = sched_areas s"
  "rings (upd_spd i f s) = rings s"
  "cr3 (upd_spd i f s) = cr3 s"
  "host_pgd (upd_spd i f s) = host_pgd s"
  "ud_current_thread (upd_spd i f s) = ud_current_thread s"
  "ud_argument_region (upd_spd i f s) = ud_argument_region s"
  "cycle_cnt (upd_spd i f s) = cycle_cnt s"
  "env_page (upd_spd i f s) = env_page s"
  "env_page_n (upd_spd i f s) = env_page_n s"
  "env_freed (upd_spd i f s) = env_freed s"
  "env_tsc (upd_spd i f s) = env_tsc s"
  "env_tsc_n (upd_spd i f s) = env_tsc_n s"
  "composite_thread (upd_spd i f s) = composite_thread s"
  "env_composite_current (upd_spd i f s) = env_composite_current s"
  by (simp_all add: upd_spd_def)

lemma upd_cap_frame [simp]:
  "invocation_capabilities (upd_cap i f s) j = (if j = i then f (invocation_capabilities s i) else invocation_capabilities s j)"
  "threads (upd_cap i f s) = threads s"
  "thread_freelist_head (upd_cap i f s) = thread_freelist_head s"
  "current_thread (upd_cap i f s) = current_thread s"
  "spds (upd_cap i f s) = spds s"
  "spd_freelist_head (upd_cap i f s) = spd_freelist_head s"
  "user_caps (upd_cap i f s) = user_caps s"
  "mpd_descriptors (upd_cap i f s) = mpd_descriptors s"
  "mpd_freelist (upd_cap i f s) = mpd_freelist s"
  "vas_list (upd_cap i f s) = vas_list s"
  "cur_num_vases (upd_cap i f s) = cur_num_vases s"
  "cos_pages (upd_cap i f s) = cos_pages s"
  "page_list_head (upd_cap i f s) = page_list_head s"
  "page_list_len (upd_cap i f s) = page_list_len s"
  "pmem (upd_cap i f s) = pmem s"
  "kern_pgtbl_mapping (upd_cap i f s) = kern_pgtbl_mapping s"
  "shared_region_page (upd_cap i f s) = shared_region_page s"
  "sched_areas (upd_cap i f s) = sched_areas s"
  "rings (upd_cap i f s) = rings s"
  "cr3 (upd_cap i f s) = cr3 s"
  "host_pgd (upd_cap i f s) = host_pgd s"
  "ud_current_thread (upd_cap i f s) = ud_current_thread s"
  "ud_argument_region (upd_cap i f s) = ud_argument_region s"
  "cycle_cnt (upd_cap i f s) = cycle_cnt s"
  "env_page (upd_cap i f s) = env_page s"
  "env_page_n (upd_cap i f s) = env_page_n s"
  "env_freed (upd_cap i f s) = env_freed s"
  "env_tsc (upd_cap i f s) = env_tsc s"
  "env_tsc_n (upd_cap i f s) = env_tsc_n s"
  "composite_thread (upd_cap i f s) = composite_thread s"
  "env_composite_current (upd_cap i f s) = env_composite_current s"
  by (simp_all add: upd_cap_def)

lemma upd_mpd_frame [simp]:
  "mpd_descriptors (upd_mpd i f s) j = (if j = i then f (mpd_descriptors s i) else mpd_descriptors s j)"
  "threads (upd_mpd i f s) = threads s"
  "thread_freelist_head (upd_mpd i f s) = thread_freelist_head s"
  "current_thread (upd_mpd i f s) = current_thread s"
  "spds (upd_mpd i f s) = spds s"
  "spd_freelist_head (upd_mpd i f s) = spd_freelist_head s"
  "invocation_capabilities (upd_mpd i f s) = invocation_capabilities s"
  "user_caps (upd_mpd i f s) = user_caps s"
  "mpd_freelist (upd_mpd i f s) = mpd_freelist s"
  "vas_list (upd_mpd i f s) = vas_list s"
  "cur_num_vases (upd_mpd i f s) = cur_num_vases s"
  "cos_pages (upd_mpd i f s) = cos_pages s"
  "page_list_head (upd_mpd i f s) = page_list_head s"
  "page_list_len (upd_mpd i f s) = page_list_len s"
  "pmem (upd_mpd i f s) = pmem s"
  "kern_pgtbl_mapping (upd_mpd i f s) = kern_pgtbl_mapping s"
  "shared_region_page (upd_mpd i f s) = shared_region_page s"
  "sched_areas (upd_mpd i f s) = sched_areas s"
  "rings (upd_mpd i f s) = rings s"
  "cr3 (upd_mpd i f s) = cr3 s"
  "host_pgd (upd_mpd i f s) = host_pgd s"
  "ud_current_thread (upd_mpd i f s) = ud_current_thread s"
  "ud_argument_region (upd_mpd i f s) = ud_argument_region s"
  "cycle_cnt (upd_mpd i f s) = cycle_cnt s"
  "env_page (upd_mpd i f s) = env_page s"
  "env_page_n (upd_mpd i f s) = env_page_n s"
  "env_freed (upd_mpd i f s) = env_freed s"
  "env_tsc (upd_mpd i f s) = env_tsc s"
  "env_tsc_n (upd_mpd i f s) = env_tsc_n s"
  "composite_thread (upd_mpd i f s) = composite_thread s"
  "env_composite_current (upd_mpd i f s) = env_composite_current s"
  by (simp_all add: upd_mpd_def)

lemma upd_ucap_frame [simp]:
  "user_caps (upd_ucap i n f s) q m = (if q = i \<and> m = n then f (user_caps s i n) else user_caps s q m)"
  "threads (upd_ucap i n f s) = threads s"
  "thread_freelist_head (upd_ucap i n f s) = thread_freelist_head s"
  "current_thread (upd_ucap i n f s) = current_thread s"
  "spds (upd_ucap i n f s) = spds s"
  "spd_freelist_head (upd_ucap i n f s) = spd_freelist_head s"
  "invocation_capabilities (upd_ucap i n f s) = invocation_capabilities s"
  "mpd_descriptors (upd_ucap i n f s) = mpd_descriptors s"
  "mpd_freelist (upd_ucap i n f s) = mpd_freelist s"
  "vas_list (upd_ucap i n f s) = vas_list s"
  "cur_num_vases (upd_ucap i n f s) = cur_num_vases s"
  "cos_pages (upd_ucap i n f s) = cos_pages s"
  "page_list_head (upd_ucap i n f s) = page_list_head s"
  "page_list_len (upd_ucap i n f s) = page_list_len s"
  "pmem (upd_ucap i n f s) = pmem s"
  "kern_pgtbl_mapping (upd_ucap i n f s) = kern_pgtbl_mapping s"
  "shared_region_page (upd_ucap i n f s) = shared_region_page s"
  "sched_areas (upd_ucap i n f s) = sched_areas s"
  "rings (upd_ucap i n f s) = rings s"
  "cr3 (upd_ucap i n f s) = cr3 s"
  "host_pgd (upd_ucap i n f s) = host_pgd s"
  "ud_current_thread (upd_ucap i n f s) = ud_current_thread s"
  "ud_argument_region (upd_ucap i n f s) = ud_argument_region s"
  "cycle_cnt (upd_ucap i n f s) = cycle_cnt s"
  "env_page (upd_ucap i n f s) = env_page s"
  "env_page_n (upd_ucap i n f s) = env_page_n s"
  "env_freed (upd_ucap i n f s) = env_freed s"
  "env_tsc (upd_ucap i n f s) = env_tsc s"
  "env_tsc_n (upd_ucap i n f s) = env_tsc_n s"
  "composite_thread (upd_ucap i n f s) = composite_thread s"
  "env_composite_current (upd_ucap i n f s) = env_composite_current s"
  by (simp_all add: upd_ucap_def)

lemma upd_area_frame [simp]:
  "sched_areas (upd_area i f s) j = (if j = i then f (sched_areas s i) else sched_areas s j)"
  "threads (upd_area i f s) = threads s"
  "thread_freelist_head (upd_area i f s) = thread_freelist_head s"
  "current_thread (upd_area i f s) = current_thread s"
  "spds (upd_area i f s) = spds s"
  "spd_freelist_head (upd_area i f s) = spd_freelist_head s"
  "invocation_capabilities (upd_area i f s) = invocation_capabilities s"
  "user_caps (upd_area i f s) = user_caps s"
  "mpd_descriptors (upd_area i f s) = mpd_descriptors s"
  "mpd_freelist (upd_area i f s) = mpd_freelist s"
  "vas_list (upd_area i f s) = vas_list s"
  "cur_num_vases (upd_area i f s) = cur_num_vases s"
  "cos_pages (upd_area i f s) = cos_pages s"
  "page_list_head (upd_area i f s) = page_list_head s"
  "page_list_len (upd_area i f s) = page_list_len s"
  "pmem (upd_area i f s) = pmem s"
  "kern_pgtbl_mapping (upd_area i f s) = kern_pgtbl_mapping s"
  "shared_region_page (upd_area i f s) = shared_region_page s"
  "rings (upd_area i f s) = rings s"
  "cr3 (upd_area i f s) = cr3 s"
  "host_pgd (upd_area i f s) = host_pgd s"
  "ud_current_thread (upd_area i f s) = ud_current_thread s"
  "ud_argument_region (upd_area i f s) = ud_argument_region s"
  "cycle_cnt (upd_area i f s) = cycle_cnt s"
  "env_page (upd_area i f s) = env_page s"
  "env_page_n (upd_area i f s) = env_page_n s"
  "env_freed (upd_area i f s) = env_freed s"
  "env_tsc (upd_area i f s) = env_tsc s"
  "env_tsc_n (upd_area i f s) = env_tsc_n s"
  "composite_thread (upd_area i f s) = composite_thread s"
  "env_composite_current (upd_area i f s) = env_composite_current s"
  by (simp_all add: upd_area_def)

text \<open>Zeroed structures, as \<^verbatim>\<open>memset(p, 0, sizeof *p)\<close> leaves them.\<close>

definition zero_regs :: pt_regs where
  "zero_regs = \<lparr>r_bx = 0, r_cx = 0, r_dx = 0, r_si = 0, r_di = 0, r_bp = 0, r_ax = 0, r_ip = 0,
     r_sp = 0, r_orig_ax = 0, r_cs = 0, r_ss = 0\<rparr>"

definition zero_frame :: thd_invocation_frame where
  "zero_frame = \<lparr>current_composite_spd = None, f_spd = None, f_sp = 0, f_ip = 0\<rparr>"

definition zero_tsi :: thd_sched_info where
  "zero_tsi = \<lparr>scheduler = None, thread_notifications = None, notification_offset = 0\<rparr>"

definition zero_thread :: thread where
  "zero_thread = \<lparr>stack_ptr = 0, thread_id = 0, cpu_id = 0, t_flags = 0, regs = zero_regs,
     stack_base = (\<lambda>_. zero_frame), fault_regs = zero_regs, data_region = 0, ul_data_page = 0,
     sched_info = (\<lambda>_. zero_tsi), thread_brand = None, interrupted_thread = None,
     preempter_thread = None, upcall_threads = None, pending_upcall_requests = 0, u_rb = 0,
     k_rb = 0, rb_next = 0, t_freelist_next = None\<rparr>"

definition zero_spd :: "spdp \<Rightarrow> spd" where
  "zero_spd i = \<lparr>s_flags = 0, s_ref_cnt = 0, s_pg_tbl = 0,
     location = (\<lambda>_. \<lparr>lowest_addr = 0, loc_size = 0\<rparr>), s_composite_spd = PSpd i, cap_base = 0,
     cap_range = 0, fault_handler = (\<lambda>_. 0), user_cap_tbl = 0, user_vaddr_cap_tbl = 0,
     sched_depth = 0, parent_sched = None, sched_shared_page = 0, kern_sched_shared_page = 0,
     prev_notification = 0, cos_net_xmit_headers = 0, upcall_entry = 0, atomic_sections = (\<lambda>_. 0),
     s_freelist_next = None, composite_member_next = None, composite_member_prev = None,
     composite_vas = None\<rparr>"

definition zero_cap :: invocation_cap where
  "zero_cap = \<lparr>owner = CAP_FREE, destination = None, invocation_cnt = 0, il = 0,
     dest_entry_instruction = 0, usr_stub_info = \<lparr>ST_serv_entry = 0, SD_cli_stub = 0,
     SD_serv_stub = 0, AT_cli_stub = 0, AT_serv_stub = 0\<rparr>\<rparr>"

definition zero_ucap :: usr_inv_cap where
  "zero_ucap = \<lparr>invocation_fn = 0, service_entry_inst = 0, invocation_count = 0, uc_cap_no = 0\<rparr>"

definition zero_mpd :: composite_spd where
  "zero_mpd = \<lparr>c_flags = 0, c_ref_cnt = 0, c_pg_tbl = 0, members = None, master_spd = None,
     c_next = None, c_prev = None\<rparr>"

definition zero_vas :: vas where
  "zero_vas = \<lparr>virtual_spd_layout = (\<lambda>_. None), start_addr = 0, vas_id = 0\<rparr>"

definition zero_area :: cos_sched_data_area where
  "zero_area = \<lparr>next_thd_id = 0, next_thd_flags = 0, owner_thd = 0, queued_thd = 0,
     pending_event = 0, pending_cevt = 0,
     cos_events = (\<lambda>_. \<lparr>e_next = 0, e_flags = 0, e_urgency = 0, cpu_consumption = 0\<rparr>)\<rparr>"

text \<open>
  A concrete start state for the examples: cleared static data, each component being its own
  composite, and a host that hands out consecutive pages from \<^verbatim>\<open>0xC1000000\<close>.
\<close>

definition zero_kstate :: kstate where
  "zero_kstate = \<lparr>threads = (\<lambda>_. zero_thread), thread_freelist_head = None, current_thread = None,
     spds = zero_spd, spd_freelist_head = None, invocation_capabilities = (\<lambda>_. zero_cap),
     user_caps = (\<lambda>_ _. zero_ucap), mpd_descriptors = (\<lambda>_. zero_mpd), mpd_freelist = None,
     vas_list = (\<lambda>_. zero_vas), cur_num_vases = 0, cos_pages = (\<lambda>_. 0), page_list_head = 0,
     page_list_len = 0, pmem = (\<lambda>_ _. 0), kern_pgtbl_mapping = 0, shared_region_page = (\<lambda>_. 0),
     sched_areas = (\<lambda>_. zero_area), rings = (\<lambda>_ _. \<lparr>rb_ptr = 0, rb_len = 0, rb_stat = 0\<rparr>),
     cr3 = 0, host_pgd = 0, ud_current_thread = 0, ud_argument_region = 0, cycle_cnt = 0,
     env_page = (\<lambda>n. 0xC1000000 + of_nat n * 0x1000), env_page_n = 0, env_freed = [],
     env_tsc = of_nat, env_tsc_n = 0, composite_thread = True, env_composite_current = True\<rparr>"

lemmas zero_defs = zero_regs_def zero_frame_def zero_tsi_def zero_thread_def zero_spd_def zero_cap_def
  zero_ucap_def zero_mpd_def zero_vas_def zero_area_def

end
