(* ===== verification/Kernel_Memory.thy ===== *)
theory Kernel_Memory
  imports Kernel_Types
begin

text \<open>
  Physical pages and page tables: the page pool of \<^verbatim>\<open>kernel/page_pool.c\<close>, the memory capabilities of
  \<^verbatim>\<open>kernel/mmap.c\<close>, and the page-table routines of \<^verbatim>\<open>platform/linux/module/hijack.c\<close> that the kernel
  calls (two-level x86 paging: a page frame of 1024 words is a page directory or a page table).
\<close>

subsection \<open>Pages from the host\<close>

definition va_to_pa :: "vaddr \<Rightarrow> paddr" where
  "va_to_pa va = va - KERN_BASE_ADDR"

definition pa_to_va :: "paddr \<Rightarrow> vaddr" where
  "pa_to_va pa = pa + KERN_BASE_ADDR"

text \<open>The page is cleared before anyone looks whether there is one.\<close>

definition cos_alloc_page :: "kstate \<Rightarrow> (vaddr \<times> kstate) option" where
  "cos_alloc_page s = do {
     let page = env_page s (env_page_n s);
     let s = s\<lparr>env_page_n := Suc (env_page_n s)\<rparr>;
     c_assert (page \<noteq> 0);
     Some (page, s\<lparr>pmem := (pmem s)(va_to_pa page := (\<lambda>_. 0))\<rparr>) }"

definition cos_free_page :: "vaddr \<Rightarrow> kstate \<Rightarrow> kstate" where
  "cos_free_page page s = s\<lparr>env_freed := page # env_freed s\<rparr>"

subsection \<open>The page pool\<close>

text \<open>\<^verbatim>\<open>page->next\<close> is the first word of the page.\<close>

definition page_next :: "kstate \<Rightarrow> vaddr \<Rightarrow> vaddr" where
  "page_next s page = pmem s (va_to_pa page) 0"

definition set_page_next :: "vaddr \<Rightarrow> vaddr \<Rightarrow> kstate \<Rightarrow> kstate" where
  "set_page_next page v s = s\<lparr>pmem := (pmem s)(va_to_pa page := (pmem s (va_to_pa page))(0 := v))\<rparr>"

definition cos_get_pg_pool :: "kstate \<Rightarrow> (vaddr \<times> kstate) option" where
  "cos_get_pg_pool s =
     (if page_list_head s = 0
      then do { (page, s) \<leftarrow> cos_alloc_page s; if page = 0 then Some (0, s) else Some (page, s) }
      else do {
        let page = page_list_head s;
        let s = s\<lparr>page_list_head := page_next s page\<rparr>;
        let s = s\<lparr>page_list_len := page_list_len s - 1\<rparr>;
        Some (page, set_page_next page 0 s) })"

definition cos_put_pg_pool :: "vaddr \<Rightarrow> kstate \<Rightarrow> kstate option" where
  "cos_put_pg_pool page s = do {
     c_assert (page \<noteq> 0);
     let s = set_page_next page (page_list_head s) s;
     let s = s\<lparr>page_list_head := page\<rparr>;
     let s = s\<lparr>page_list_len := page_list_len s + 1\<rparr>;
     c_assert (page_list_len s < 1024);
     Some s }"

partial_function (option) clear_pg_pool_loop :: "vaddr \<Rightarrow> kstate \<Rightarrow> kstate option" where
  "clear_pg_pool_loop pg s =
     (if pg = 0 then Some s
      else let next = page_next s pg in clear_pg_pool_loop next (cos_free_page pg s))"

definition clear_pg_pool :: "kstate \<Rightarrow> kstate option" where
  "clear_pg_pool s = clear_pg_pool_loop (page_list_head s) s"

subsection \<open>Memory capabilities\<close>

definition cos_init_memory :: "kstate \<Rightarrow> kstate" where
  "cos_init_memory s = s\<lparr>cos_pages := fold (\<lambda>i m. m(i := 0)) [0..<COS_MAX_MEMORY] (cos_pages s)\<rparr>"

definition cos_shutdown_memory :: "kstate \<Rightarrow> kstate" where
  "cos_shutdown_memory s =
     fold (\<lambda>i s. let addr = cos_pages s i in if addr \<noteq> 0 then cos_free_page (pa_to_va addr) s else s)
       [0..<COS_MAX_MEMORY] s"

definition cos_paddr_to_cap :: "paddr \<Rightarrow> kstate \<Rightarrow> nat" where
  "cos_paddr_to_cap pa s =
     (case find (\<lambda>i. cos_pages s i = pa) [0..<COS_MAX_MEMORY] of Some i \<Rightarrow> i | None \<Rightarrow> 0)"

definition cos_access_page :: "nat \<Rightarrow> kstate \<Rightarrow> (paddr \<times> kstate) option" where
  "cos_access_page cap_no s =
     (if cap_no > COS_MAX_MEMORY then Some (0, s)
      else do {
        c_assert (cap_no < COS_MAX_MEMORY);
        let addr = cos_pages s cap_no;
        if addr = 0 then do {
          (r, s) \<leftarrow> cos_alloc_page s;
          if r = 0 then Some (0, s)
          else let addr = va_to_pa r in Some (addr, s\<lparr>cos_pages := (cos_pages s)(cap_no := addr)\<rparr>) }
        else Some (addr, s) })"

subsection \<open>Page tables\<close>

definition PG_PRESENT :: u32 where "PG_PRESENT = 0x1"
definition PG_LARGE :: u32 where "PG_LARGE = 0x81"
definition PG_USER_FLAGS :: u32 where "PG_USER_FLAGS = 0x27"
definition PTE_MASK :: u32 where "PTE_MASK = 0xFFFFF000"

definition pgd_index :: "vaddr \<Rightarrow> nat" where
  "pgd_index addr = unat (drop_bit HPAGE_SHIFT addr)"

definition pte_index :: "vaddr \<Rightarrow> nat" where
  "pte_index addr = unat (drop_bit PAGE_SHIFT addr AND 0x3FF)"

definition set_pmem :: "paddr \<Rightarrow> nat \<Rightarrow> u32 \<Rightarrow> kstate \<Rightarrow> kstate" where
  "set_pmem f i v s = s\<lparr>pmem := (pmem s)(f := (pmem s f)(i := v))\<rparr>"

text \<open>The frame and index of the entry that maps an address; \<open>None\<close> is the null pointer.\<close>

definition pgtbl_lookup_address :: "kstate \<Rightarrow> paddr \<Rightarrow> vaddr \<Rightarrow> (paddr \<times> nat) option" where
  "pgtbl_lookup_address s pgtbl addr =
     (let pmd = pmem s pgtbl (pgd_index addr)
      in if pmd = 0 then None
         else if pmd AND PG_LARGE = PG_LARGE then Some (pgtbl, pgd_index addr)
         else Some (pmd AND PTE_MASK, pte_index addr))"

definition pgtbl_add_entry :: "paddr \<Rightarrow> vaddr \<Rightarrow> paddr \<Rightarrow> kstate \<Rightarrow> int \<times> kstate" where
  "pgtbl_add_entry pgtbl va pa s =
     (case pgtbl_lookup_address s pgtbl va of
        None \<Rightarrow> (-1, s)
      | Some (f, i) \<Rightarrow>
          if has (pmem s f i) PG_PRESENT then (-1, s)
          else (0, set_pmem f i (pa OR PG_USER_FLAGS) s))"

definition pgtbl_add_middledir :: "paddr \<Rightarrow> vaddr \<Rightarrow> kstate \<Rightarrow> (int \<times> kstate) option" where
  "pgtbl_add_middledir pt va s = do {
     (page, s) \<leftarrow> cos_alloc_page s;
     if page = 0 then Some (-1, s)
     else Some (0, set_pmem pt (pgd_index va) (va_to_pa page OR PG_USER_FLAGS) s) }"

definition pgtbl_rem_middledir :: "paddr \<Rightarrow> vaddr \<Rightarrow> kstate \<Rightarrow> int \<times> kstate" where
  "pgtbl_rem_middledir pt va s =
     (let page = pa_to_va (pmem s pt (pgd_index va) AND PTE_MASK);
          s = set_pmem pt (pgd_index va) 0 s
      in (0, cos_free_page page s))"

partial_function (option) pgtbl_rem_middledir_range_loop ::
  "paddr \<Rightarrow> vaddr \<Rightarrow> vaddr \<Rightarrow> kstate \<Rightarrow> kstate option" where
  "pgtbl_rem_middledir_range_loop pt a end s =
     (if a < end
      then let (r, s) = pgtbl_rem_middledir pt a s
           in if r \<noteq> 0 then None else pgtbl_rem_middledir_range_loop pt (a + HPAGE_SIZE) end s
      else Some s)"

definition pgtbl_rem_middledir_range :: "paddr \<Rightarrow> vaddr \<Rightarrow> u32 \<Rightarrow> kstate \<Rightarrow> (int \<times> kstate) option" where
  "pgtbl_rem_middledir_range pt va sz s = do {
     s \<leftarrow> pgtbl_rem_middledir_range_loop pt va (va + sz) s;
     Some (0, s) }"

partial_function (option) pgtbl_add_middledir_range_loop ::
  "paddr \<Rightarrow> vaddr \<Rightarrow> vaddr \<Rightarrow> vaddr \<Rightarrow> kstate \<Rightarrow> (int \<times> kstate) option" where
  "pgtbl_add_middledir_range_loop pt va a end s =
     (if a < end
      then do {
        (r, s) \<leftarrow> pgtbl_add_middledir pt a s;
        if r \<noteq> 0 then do {
          (_, s) \<leftarrow> pgtbl_rem_middledir_range pt va (a - va) s;
          Some (-1, s) }
        else pgtbl_add_middledir_range_loop pt va (a + HPAGE_SIZE) end s }
      else Some (0, s))"

definition pgtbl_add_middledir_range :: "paddr \<Rightarrow> vaddr \<Rightarrow> u32 \<Rightarrow> kstate \<Rightarrow> (int \<times> kstate) option" where
  "pgtbl_add_middledir_range pt va sz s = pgtbl_add_middledir_range_loop pt va va (va + sz) s"

definition pgtbl_rem_ret :: "paddr \<Rightarrow> vaddr \<Rightarrow> kstate \<Rightarrow> paddr \<times> kstate" where
  "pgtbl_rem_ret pgtbl va s =
     (case pgtbl_lookup_address s pgtbl va of
        None \<Rightarrow> (0, s)
      | Some (f, i) \<Rightarrow>
          if \<not> has (pmem s f i) PG_PRESENT then (0, s)
          else (pmem s f i AND PTE_MASK, set_pmem f i 0 s))"

definition pgtbl_vaddr_to_kaddr :: "kstate \<Rightarrow> paddr \<Rightarrow> vaddr \<Rightarrow> vaddr" where
  "pgtbl_vaddr_to_kaddr s pgtbl addr =
     (case pgtbl_lookup_address s pgtbl addr of
        None \<Rightarrow> 0
      | Some (f, i) \<Rightarrow>
          if \<not> has (pmem s f i) PG_PRESENT then 0
          else pa_to_va (pmem s f i AND PTE_MASK) + (NOT PAGE_MASK AND addr))"

definition pgtbl_entry_absent :: "kstate \<Rightarrow> paddr \<Rightarrow> vaddr \<Rightarrow> bool" where
  "pgtbl_entry_absent s pt addr \<longleftrightarrow> \<not> has (pmem s pt (pgd_index addr)) PG_PRESENT"

text \<open>Find the n-th present directory entry above the first.\<close>

fun get_valid_pgtbl_entry_loop :: "kstate \<Rightarrow> paddr \<Rightarrow> int \<Rightarrow> nat list \<Rightarrow> u32" where
  "get_valid_pgtbl_entry_loop s pt n [] = 0"
| "get_valid_pgtbl_entry_loop s pt n (i # is) =
     (if \<not> pgtbl_entry_absent s pt (of_nat i * HPAGE_SIZE)
      then if n - 1 = 0 then of_nat i * HPAGE_SIZE else get_valid_pgtbl_entry_loop s pt (n - 1) is
      else get_valid_pgtbl_entry_loop s pt n is)"

definition get_valid_pgtbl_entry :: "kstate \<Rightarrow> paddr \<Rightarrow> int \<Rightarrow> u32" where
  "get_valid_pgtbl_entry s pt n = get_valid_pgtbl_entry_loop s pt n [1..<PGD_PER_PTBL]"

definition zero_pgtbl_range :: "paddr \<Rightarrow> vaddr \<Rightarrow> u32 \<Rightarrow> kstate \<Rightarrow> kstate option" where
  "zero_pgtbl_range pt lower_addr sz s = do {
     let pgd = pgd_index lower_addr;
     let span = unat (drop_bit HPAGE_SHIFT sz);
     c_assert (pgd + span \<le> PGD_PER_PTBL);
     Some (s\<lparr>pmem := (pmem s)(pt := (\<lambda>i. if pgd \<le> i \<and> i < pgd + span then 0 else pmem s pt i))\<rparr>) }"

definition copy_pgtbl_range_nocheck :: "paddr \<Rightarrow> paddr \<Rightarrow> vaddr \<Rightarrow> u32 \<Rightarrow> kstate \<Rightarrow> kstate option" where
  "copy_pgtbl_range_nocheck pt_to pt_from lower_addr sz s = do {
     let pgd = pgd_index lower_addr;
     let span = unat (drop_bit HPAGE_SHIFT sz);
     c_assert (pgd + span \<le> PGD_PER_PTBL);
     Some (s\<lparr>pmem := (pmem s)(pt_to :=
       (\<lambda>i. if pgd \<le> i \<and> i < pgd + span then pmem s pt_from i else pmem s pt_to i))\<rparr>) }"

text \<open>The checked variant only prints more.\<close>

definition copy_pgtbl_range :: "paddr \<Rightarrow> paddr \<Rightarrow> vaddr \<Rightarrow> u32 \<Rightarrow> kstate \<Rightarrow> kstate option" where
  "copy_pgtbl_range pt_to pt_from lower_addr sz s =
     copy_pgtbl_range_nocheck pt_to pt_from lower_addr sz s"

definition copy_pgtbl_range_nonzero :: "paddr \<Rightarrow> paddr \<Rightarrow> vaddr \<Rightarrow> u32 \<Rightarrow> kstate \<Rightarrow> kstate option" where
  "copy_pgtbl_range_nonzero pt_to pt_from lower_addr sz s = do {
     let pgd = pgd_index lower_addr;
     let span = unat (drop_bit HPAGE_SHIFT sz);
     c_assert (pgd + span \<le> PGD_PER_PTBL);
     Some (fold (\<lambda>i s. if \<not> has (pmem s pt_to (pgd + i)) PG_PRESENT
                        then set_pmem pt_to (pgd + i) (pmem s pt_from (pgd + i)) s else s)
             [0..<span] s) }"

definition copy_pgtbl :: "paddr \<Rightarrow> paddr \<Rightarrow> kstate \<Rightarrow> kstate option" where
  "copy_pgtbl pt_to pt_from s = copy_pgtbl_range_nocheck pt_to pt_from 0 0xFFFFFFFF s"

definition switch_host_pg_tbls :: "paddr \<Rightarrow> kstate \<Rightarrow> kstate option" where
  "switch_host_pg_tbls pt s = do { c_assert (composite_thread s); Some (s\<lparr>host_pgd := pt\<rparr>) }"

subsection \<open>Abstractions\<close>

definition ptr :: "u32 \<Rightarrow> u32 option" where
  "ptr a = (if a = 0 then None else Some a)"

definition pool_next :: "kstate \<Rightarrow> vaddr \<Rightarrow> vaddr option" where
  "pool_next s = (\<lambda>p. ptr (page_next s p))"

text \<open>The pool holds exactly the pages \<open>xs\<close>, the first one being handed out next.\<close>

definition page_pool :: "kstate \<Rightarrow> vaddr list \<Rightarrow> bool" where
  "page_pool s xs \<longleftrightarrow> chain (pool_next s) (ptr (page_list_head s)) xs
     \<and> 0 \<notin> set xs \<and> page_list_len s = of_nat (length xs) \<and> length xs < 1024"

text \<open>No two memory capabilities name the same frame, and frame 0 is never handed out.\<close>

definition pages_inv :: "kstate \<Rightarrow> bool" where
  "pages_inv s \<longleftrightarrow> (\<forall>i < COS_MAX_MEMORY. \<forall>j < COS_MAX_MEMORY.
     cos_pages s i \<noteq> 0 \<longrightarrow> cos_pages s i = cos_pages s j \<longrightarrow> i = j)"

subsection \<open>The page pool is a stack of pages\<close>

lemma va_to_pa_inj [simp]: "va_to_pa a = va_to_pa b \<longleftrightarrow> a = b"
  by (simp add: va_to_pa_def)

lemma pa_va_inverse [simp]: "va_to_pa (pa_to_va a) = a" "pa_to_va (va_to_pa b) = b"
  by (simp_all add: va_to_pa_def pa_to_va_def)

lemma ptr_simps [simp]: "ptr 0 = None" "a \<noteq> 0 \<Longrightarrow> ptr a = Some a" "ptr a = None \<longleftrightarrow> a = 0"
  "ptr a = Some b \<longleftrightarrow> a = b \<and> b \<noteq> 0"
  by (auto simp: ptr_def)

lemma pool_next_frame [simp]:
  "pool_next (s\<lparr>page_list_head := h\<rparr>) = pool_next s"
  "pool_next (s\<lparr>page_list_len := l\<rparr>) = pool_next s"
  "pool_next (s\<lparr>env_freed := e\<rparr>) = pool_next s"
  "pool_next (set_page_next q v s) = (pool_next s)(q := ptr v)"
  by (auto simp: pool_next_def page_next_def set_page_next_def)

lemma set_page_next_frame [simp]:
  "page_list_head (set_page_next q v s) = page_list_head s"
  "page_list_len (set_page_next q v s) = page_list_len s"
  by (simp_all add: set_page_next_def)

lemma page_pool_distinct: "page_pool s xs \<Longrightarrow> distinct xs"
  by (auto simp: page_pool_def intro: chain_distinct)

lemma pool_next_apply: "pool_next s p = ptr (page_next s p)"
  by (simp add: pool_next_def)

lemma page_pool_len:
  assumes "page_pool s xs" "length xs < 1023"
  shows "page_list_len s + 1 < 1024"
proof -
  from assms(1) have "of_nat (Suc (length xs)) = page_list_len s + 1"
    by (simp add: page_pool_def)
  then have "unat (page_list_len s + 1) = Suc (length xs)"
    by (rule of_nat_inverse) (use assms(2) in simp)
  with assms(2) show ?thesis by (simp only: word_less_nat_alt) simp
qed

lemma cos_put_pg_pool_push:
  assumes "page_pool s xs" "p \<noteq> 0 \<and> p \<notin> set xs \<and> length xs < 1023"
  shows "\<exists>s'. cos_put_pg_pool p s = Some s' \<and> page_pool s' (p # xs)"
proof -
  let ?s = "set_page_next p (page_list_head s) s\<lparr>page_list_head := p, page_list_len := page_list_len s + 1\<rparr>"
  from assms have "cos_put_pg_pool p s = Some ?s"
    by (simp add: cos_put_pg_pool_def Let_def page_pool_len)
  moreover from assms have "page_pool ?s (p # xs)" by (simp add: page_pool_def)
  ultimately show ?thesis by blast
qed

lemma cos_get_pg_pool_pop:
  assumes "page_pool s (p # xs)"
  shows "\<exists>s'. cos_get_pg_pool s = Some (p, s') \<and> page_pool s' xs"
proof -
  from assms have h: "page_list_head s = p" "p \<noteq> 0" "p \<notin> set xs"
    using page_pool_distinct [OF assms] by (auto simp: page_pool_def)
  with assms show ?thesis
    by (auto simp: page_pool_def cos_get_pg_pool_def Let_def pool_next_apply [of s p])
qed

interpretation pgpool: free_stack page_pool cos_get_pg_pool cos_put_pg_pool
  "\<lambda>p s xs. p \<noteq> 0 \<and> p \<notin> set xs \<and> length xs < 1023"
  by unfold_locales (fact page_pool_distinct cos_get_pg_pool_pop cos_put_pg_pool_push)+

lemma clear_pg_pool_loop_frees:
  "chain (pool_next s) (ptr h) xs \<Longrightarrow>
   clear_pg_pool_loop h s = Some (s\<lparr>env_freed := rev xs @ env_freed s\<rparr>)"
proof (induction xs arbitrary: h s)
  case Nil
  then show ?case by (simp add: clear_pg_pool_loop.simps)
next
  case (Cons x xs)
  from Cons.prems have h: "h = x" "x \<noteq> 0" by auto
  from Cons.prems h have "chain (pool_next (cos_free_page x s)) (ptr (page_next s x)) xs"
    by (simp add: cos_free_page_def pool_next_apply [of s x])
  from Cons.IH [OF this] h show ?case
    by (subst clear_pg_pool_loop.simps) (simp add: cos_free_page_def)
qed

subsection \<open>Memory capabilities\<close>

lemma cos_paddr_to_cap_unique:
  assumes "pages_inv s" "c < COS_MAX_MEMORY" "cos_pages s c = pa" "pa \<noteq> 0"
  shows "cos_paddr_to_cap pa s = c"
proof -
  have uniq: "j = c" if "j < COS_MAX_MEMORY" "cos_pages s j = pa" for j
    using assms that by (simp add: pages_inv_def)
  have lt: "cos_pages s j \<noteq> pa" if "j < c" for j
    using uniq [of j] that assms(2) by auto
  have "find (\<lambda>i. cos_pages s i = pa) [0..<COS_MAX_MEMORY] = Some c"
    unfolding find_Some_iff using assms(2,3) lt by (intro exI [of _ c]) simp
  then show ?thesis by (simp add: cos_paddr_to_cap_def)
qed

lemma cos_alloc_page_frame:
  "cos_alloc_page s = Some (p, s') \<Longrightarrow> cos_pages s' = cos_pages s \<and> p \<noteq> 0 \<and> p = env_page s (env_page_n s)
     \<and> pmem s' = (pmem s)(va_to_pa p := (\<lambda>_. 0)) \<and> env_page s' = env_page s"
  by (auto simp: cos_alloc_page_def Let_def split: if_splits)

subsection \<open>Translating an address through a page table\<close>

lemma set_pmem_apply [simp]:
  "pmem (set_pmem f i v s) g j = (if f = g \<and> i = j then v else pmem s g j)"
  by (simp add: set_pmem_def)

lemma PG_bits: "has (pa OR PG_USER_FLAGS) PG_PRESENT" "pa OR PG_USER_FLAGS \<noteq> 0"
  by (simp_all add: has_def PG_USER_FLAGS_def PG_PRESENT_def bit.conj_disj_distrib2 or_eq_0_iff)

lemma PG_addr: "pa AND PTE_MASK = pa \<Longrightarrow> (pa OR PG_USER_FLAGS) AND PTE_MASK = pa"
  by (simp add: bit.conj_disj_distrib2 PG_USER_FLAGS_def PTE_MASK_def)

lemma pgtbl_lookup_set_pmem:
  assumes "pgtbl_lookup_address s pgtbl va = Some (f, i)" "f \<noteq> pgtbl"
  shows "pgtbl_lookup_address (set_pmem f i v s) pgtbl va' = pgtbl_lookup_address s pgtbl va'"
  using assms by (simp add: pgtbl_lookup_address_def Let_def)

lemma pgtbl_add_entry_cases:
  "pgtbl_add_entry pgtbl va pa s = (0, s') \<longleftrightarrow>
     (\<exists>f i. pgtbl_lookup_address s pgtbl va = Some (f, i) \<and> \<not> has (pmem s f i) PG_PRESENT \<and>
            s' = set_pmem f i (pa OR PG_USER_FLAGS) s)"
  by (auto simp: pgtbl_add_entry_def split: option.splits)

subsection \<open>Properties\<close>

text \<open>
  The page pool never hands out the same page twice: from a pool of pages \<open>xs\<close>, \<open>n\<close> consecutive
  calls of \<^verbatim>\<open>cos_get_pg_pool\<close> (\<open>n\<close> not more than the pages pooled) return \<open>n\<close> different pages, none of
  which is still in the pool afterwards.
\<close>

theorem cos_get_pg_pool_fresh:
  assumes "page_pool s xs" "n \<le> length xs"
  shows "\<exists>ys s'. get_n cos_get_pg_pool n s = Some (ys, s') \<and> length ys = n \<and> distinct ys
           \<and> page_pool s' (drop n xs) \<and> set ys \<inter> set (drop n xs) = {}"
  using assms by (rule pgpool.get_n_fresh)

definition pool_example :: kstate where
  "pool_example = zero_kstate\<lparr>page_list_head := 0xC1002000, page_list_len := 2,
     pmem := (\<lambda>_ _. 0)(0x01002000 := (\<lambda>_. 0)(0 := 0xC1005000))\<rparr>"

theorem cos_get_pg_pool_fresh_witness:
  "page_pool pool_example [0xC1002000, 0xC1005000] \<and>
   (\<exists>ys s'. get_n cos_get_pg_pool 2 pool_example = Some (ys, s') \<and> length ys = 2 \<and> distinct ys)"
proof -
  have "page_pool pool_example [0xC1002000, 0xC1005000]"
    by (simp add: page_pool_def pool_example_def pool_next_def page_next_def va_to_pa_def kconsts
        zero_kstate_def)
  with cos_get_pg_pool_fresh [of pool_example "[0xC1002000, 0xC1005000]" 2] show ?thesis by auto
qed

text \<open>
  C22.  \<^verbatim>\<open>cos_access_page\<close> gives every memory capability below the limit a frame of its own: when the
  page that Linux would return is not in use yet, the call succeeds, a second call returns the same
  frame and changes nothing, \<^verbatim>\<open>cos_paddr_to_cap\<close> maps the frame back to the capability, and no two
  capabilities share a frame.
\<close>

theorem cos_access_page_round_trip:
  assumes inv: "pages_inv s" and c: "c < COS_MAX_MEMORY"
    and fresh: "env_page s (env_page_n s) \<noteq> 0" "va_to_pa (env_page s (env_page_n s)) \<noteq> 0"
      "\<forall>i < COS_MAX_MEMORY. cos_pages s i \<noteq> va_to_pa (env_page s (env_page_n s))"
  shows "\<exists>pa s'. cos_access_page c s = Some (pa, s') \<and> pa \<noteq> 0 \<and> pages_inv s'
           \<and> cos_access_page c s' = Some (pa, s') \<and> cos_paddr_to_cap pa s' = c"
proof (cases "cos_pages s c = 0")
  case False
  with c inv show ?thesis
    by (auto simp: cos_access_page_def Let_def cos_paddr_to_cap_unique)
next
  case True
  define r where "r = env_page s (env_page_n s)"
  define s' where "s' = s\<lparr>env_page_n := Suc (env_page_n s), pmem := (pmem s)(va_to_pa r := (\<lambda>_. 0)),
    cos_pages := (cos_pages s)(c := va_to_pa r)\<rparr>"
  have acc: "cos_access_page c s = Some (va_to_pa r, s')"
    using True c fresh(1) by (simp add: cos_access_page_def cos_alloc_page_def Let_def s'_def r_def)
  have pages: "cos_pages s' = (cos_pages s)(c := va_to_pa r)" by (simp add: s'_def)
  have "pages_inv s'"
    using inv fresh(3) unfolding pages_inv_def pages r_def by (metis fun_upd_apply)
  moreover have "cos_paddr_to_cap (va_to_pa r) s' = c"
    using \<open>pages_inv s'\<close> c fresh(2) by (intro cos_paddr_to_cap_unique) (auto simp: pages r_def)
  moreover have "cos_access_page c s' = Some (va_to_pa r, s')"
    using c fresh(2) by (simp add: cos_access_page_def Let_def pages r_def)
  ultimately show ?thesis using acc fresh(2) by (auto simp: r_def)
qed

theorem cos_access_page_round_trip_witness:
  "\<exists>pa s'. cos_access_page 7 zero_kstate = Some (pa, s') \<and> pa \<noteq> 0 \<and> cos_paddr_to_cap pa s' = 7"
  using cos_access_page_round_trip [of zero_kstate 7]
  by (auto simp: pages_inv_def zero_kstate_def va_to_pa_def kconsts)

text \<open>
  The bound check of \<^verbatim>\<open>cos_access_page\<close> lets the capability \<open>COS_MAX_MEMORY\<close> pass, one past the end
  of the table, so the call reads outside \<^verbatim>\<open>cos_pages\<close>; the capabilities above it are refused.
\<close>

theorem cos_access_page_limit:
  "cos_access_page COS_MAX_MEMORY s = None \<and> cos_access_page (COS_MAX_MEMORY + Suc k) s = Some (0, s)"
  by (simp add: cos_access_page_def)

text \<open>
  C23.  Mapping a page and reading it back: after a successful \<^verbatim>\<open>pgtbl_add_entry\<close> of a page-aligned
  frame, \<^verbatim>\<open>pgtbl_vaddr_to_kaddr\<close> translates every address of the page to the frame plus the offset,
  a second \<^verbatim>\<open>pgtbl_add_entry\<close> there fails and changes nothing, \<^verbatim>\<open>pgtbl_rem_ret\<close> returns the frame, and
  after it the address does not translate any more.  (The page table is not the directory itself.)
\<close>

theorem pgtbl_add_rem_round_trip:
  assumes add: "pgtbl_add_entry pgtbl va pa s = (0, s')"
    and al: "pa AND PTE_MASK = pa"
    and dir: "fst (the (pgtbl_lookup_address s pgtbl va)) \<noteq> pgtbl"
  shows "pgtbl_vaddr_to_kaddr s' pgtbl va = pa_to_va pa + (NOT PAGE_MASK AND va)
    \<and> pgtbl_add_entry pgtbl va pa' s' = (-1, s')
    \<and> (\<exists>s''. pgtbl_rem_ret pgtbl va s' = (pa, s'') \<and> pgtbl_vaddr_to_kaddr s'' pgtbl va = 0
         \<and> pgtbl_rem_ret pgtbl va s'' = (0, s''))"
proof -
  from add obtain f i where l: "pgtbl_lookup_address s pgtbl va = Some (f, i)"
    and s': "s' = set_pmem f i (pa OR PG_USER_FLAGS) s"
    by (auto simp: pgtbl_add_entry_cases)
  with dir have f: "f \<noteq> pgtbl" by simp
  have l': "pgtbl_lookup_address (set_pmem f i v t) pgtbl va = Some (f, i)"
    if "pgtbl_lookup_address t pgtbl va = Some (f, i)" for v t
    using pgtbl_lookup_set_pmem [OF that f] that by simp
  have [simp]: "pgtbl_lookup_address s' pgtbl va = Some (f, i)" using l l' s' by simp
  have "pgtbl_lookup_address (set_pmem f i 0 s') pgtbl va = Some (f, i)" by (rule l') simp
  moreover have "\<not> has (0 :: u32) PG_PRESENT" by (simp add: has_def)
  moreover have "pmem s' f i = pa OR PG_USER_FLAGS" by (simp add: s')
  ultimately show ?thesis
    using PG_bits PG_addr [OF al]
    by (simp add: pgtbl_vaddr_to_kaddr_def pgtbl_add_entry_def pgtbl_rem_ret_def)
qed

definition pgtbl_example :: kstate where
  "pgtbl_example = zero_kstate\<lparr>pmem := (\<lambda>_ _. 0)(0x01000000 := (\<lambda>_. 0)(0x101 := 0x01001027))\<rparr>"

theorem pgtbl_add_rem_round_trip_witness:
  "\<exists>s'. pgtbl_add_entry 0x01000000 0x40403123 0x02000000 pgtbl_example = (0, s')
      \<and> pgtbl_vaddr_to_kaddr s' 0x01000000 0x40403123 = 0xC2000123"
proof -
  have l: "pgtbl_lookup_address pgtbl_example 0x01000000 0x40403123 = Some (0x01001000, 3)"
    by (simp add: pgtbl_lookup_address_def pgtbl_example_def pgd_index_def pte_index_def
        PG_LARGE_def PTE_MASK_def kconsts zero_kstate_def)
  moreover have "\<not> has (pmem pgtbl_example 0x01001000 3) PG_PRESENT"
    by (simp add: pgtbl_example_def zero_kstate_def has_def)
  ultimately have "pgtbl_add_entry 0x01000000 0x40403123 0x02000000 pgtbl_example =
      (0, set_pmem 0x01001000 3 (0x02000000 OR PG_USER_FLAGS) pgtbl_example)"
    by (simp add: pgtbl_add_entry_def)
  from pgtbl_add_rem_round_trip [OF this] this l show ?thesis
    by (simp add: PTE_MASK_def pa_to_va_def kconsts)
qed

text \<open>
  \<^verbatim>\<open>copy_pgtbl\<close> is meant to copy a whole page directory, but its span \<^verbatim>\<open>0xFFFFFFFF >> 22\<close> is 1023: it
  copies exactly the entries below 1023 and leaves the last entry of the destination as it was.
\<close>

theorem copy_pgtbl_all_but_last:
  "\<exists>s'. copy_pgtbl pt_to pt_from s = Some s'
      \<and> pmem s' pt_to = (\<lambda>i. if i < 1023 then pmem s pt_from i else pmem s pt_to i)
      \<and> (\<forall>f. f = pt_to \<or> pmem s' f = pmem s f)"
  by (auto simp: copy_pgtbl_def copy_pgtbl_range_nocheck_def Let_def pgd_index_def kconsts)

end
