(* ===== verification/Capabilities.thy ===== *)
theory Capabilities
  imports Kernel_Memory
begin

text \<open>
  Invocation capabilities (\<^verbatim>\<open>kernel/spd.c\<close>): the table \<^verbatim>\<open>invocation_capabilities\<close> of the kernel, the
  allocation of contiguous ranges of it to components, the static capabilities inside such a range,
  and the copy of every capability in the user-level table of its owner, which must agree with the
  kernel's entry about the isolation level.
\<close>

subsection \<open>The capability table\<close>

text \<open>\<^verbatim>\<open>&invocation_capabilities[i]\<close>; an index outside the array has no element.\<close>

definition cap_ref :: "int \<Rightarrow> nat option" where
  "cap_ref i = (if 0 \<le> i \<and> i < int MAX_STATIC_CAP then Some (nat i) else None)"

definition inv_cap_get :: "kstate \<Rightarrow> int \<Rightarrow> nat option option" where
  "inv_cap_get s c_num = do {
     c_assert (c_num < int MAX_STATIC_CAP);
     cap \<leftarrow> cap_ref c_num;
     if owner (invocation_capabilities s cap) = CAP_FREE then Some None else Some (Some cap) }"

definition cap_is_free :: "kstate \<Rightarrow> int \<Rightarrow> bool option" where
  "cap_is_free s cap_num =
     (if cap_num < int MAX_STATIC_CAP
      then do { cap \<leftarrow> cap_ref cap_num; Some (owner (invocation_capabilities s cap) = CAP_FREE) }
      else Some False)"

definition cap_set_free :: "int \<Rightarrow> kstate \<Rightarrow> kstate option" where
  "cap_set_free cap_num s = do {
     cap \<leftarrow> cap_ref cap_num;
     Some (upd_cap cap (\<lambda>c. c\<lparr>owner := CAP_FREE\<rparr>) s) }"

definition spd_init_capabilities :: "kstate \<Rightarrow> kstate" where
  "spd_init_capabilities s =
     fold (\<lambda>i. upd_cap i (\<lambda>c. c\<lparr>owner := CAP_FREE, destination := None\<rparr>)) [0..<MAX_STATIC_CAP] s"

definition mark_caps :: "nat list \<Rightarrow> kstate \<Rightarrow> kstate" where
  "mark_caps js s = fold (\<lambda>j. upd_cap j (\<lambda>c. c\<lparr>owner := CAP_ALLOCATED_UNUSED\<rparr>)) js s"

text \<open>The loop over \<^verbatim>\<open>i\<close> with the counter \<^verbatim>\<open>range_free\<close> of consecutive free entries that end at \<^verbatim>\<open>i\<close>.\<close>

fun spd_alloc_capability_range_loop :: "int \<Rightarrow> nat list \<Rightarrow> nat \<Rightarrow> kstate \<Rightarrow> (int \<times> kstate) option" where
  "spd_alloc_capability_range_loop rng [] range_free s = Some (-1, s)"
| "spd_alloc_capability_range_loop rng (i # is) range_free s = do {
     free \<leftarrow> cap_is_free s (int i);
     if free then do {
       let range_free = range_free + 1;
       if int range_free \<ge> rng
       then Some (int i - int range_free + 1, mark_caps [i + 1 - range_free..<i + 1] s)
       else spd_alloc_capability_range_loop rng is range_free s }
     else spd_alloc_capability_range_loop rng is 0 s }"

definition spd_alloc_capability_range :: "int \<Rightarrow> kstate \<Rightarrow> (int \<times> kstate) option" where
  "spd_alloc_capability_range rng s = spd_alloc_capability_range_loop rng [0..<MAX_STATIC_CAP] 0 s"

definition spd_release_cap_range :: "spdp \<Rightarrow> kstate \<Rightarrow> (int \<times> kstate) option" where
  "spd_release_cap_range p s = do {
     let base = unat (cap_base (spds s p));
     s \<leftarrow> fold_opt (\<lambda>i. cap_set_free (int i)) [base..<base + unat (cap_range (spds s p))] s;
     Some (0, s) }"

definition spd_reserve_cap_range :: "spdp \<Rightarrow> int \<Rightarrow> kstate \<Rightarrow> (int \<times> kstate) option" where
  "spd_reserve_cap_range p amnt s =
     (if cap_range (spds s p) \<noteq> 0 then Some (-1, s)
      else do {
        (ret, s) \<leftarrow> spd_alloc_capability_range (amnt + 1) s;
        if ret = -1 then Some (-1, s)
        else Some (ret, upd_spd p (\<lambda>x. x\<lparr>cap_base := word_of_int ret, cap_range := word_of_int (amnt + 1)\<rparr>) s) })"

subsection \<open>User-level capabilities\<close>

text \<open>\<^verbatim>\<open>cap->owner\<close> as a pointer that can be dereferenced.\<close>

definition cap_owner_spd :: "kstate \<Rightarrow> nat \<Rightarrow> spdp option" where
  "cap_owner_spd s c = (case owner (invocation_capabilities s c) of Owner p \<Rightarrow> Some p | _ \<Rightarrow> None)"

definition cap_set_usr_cap :: "spdp \<times> nat \<Rightarrow> vaddr \<Rightarrow> u32 \<Rightarrow> u32 \<Rightarrow> kstate \<Rightarrow> kstate" where
  "cap_set_usr_cap uptr inv_fn inv_cnt capno s =
     upd_ucap (fst uptr) (snd uptr) (\<lambda>u. u\<lparr>invocation_fn := inv_fn, service_entry_inst := inv_fn,
       invocation_count := inv_cnt, uc_cap_no := capno\<rparr>) s"

text \<open>
  An entry of the user-level table is named by its owner and its slot.  Without a kernel mapping of
  the table, slot 0 is the null pointer and any other slot an invalid address.
\<close>

definition cap_get_usr_cap :: "kstate \<Rightarrow> int \<Rightarrow> (spdp \<times> nat) option option" where
  "cap_get_usr_cap s cap_num = do {
     free \<leftarrow> cap_is_free s cap_num;
     if free then Some None
     else do {
       cap \<leftarrow> cap_ref cap_num;
       p \<leftarrow> cap_owner_spd s cap;
       let ucap = cap_num - int (unat (cap_base (spds s p)));
       c_assert (ucap < int (unat (cap_range (spds s p))));
       c_assert (0 \<le> ucap);
       if user_cap_tbl (spds s p) = 0
       then do { c_assert (ucap = 0); Some None }
       else Some (Some (p, nat ucap)) } }"

definition reset_counts :: "spdp \<times> nat \<Rightarrow> nat \<Rightarrow> kstate \<Rightarrow> kstate" where
  "reset_counts u cap s =
     upd_ucap (fst u) (snd u) (\<lambda>u. u\<lparr>invocation_count := 0\<rparr>) (upd_cap cap (\<lambda>c. c\<lparr>invocation_cnt := 0\<rparr>) s)"

text \<open>Returns the status, the value left in \<^verbatim>\<open>*inv_cnt\<close> and the state.\<close>

definition cap_reset_cap_inv_cnt :: "int \<Rightarrow> u32 \<Rightarrow> kstate \<Rightarrow> (int \<times> u32 \<times> kstate) option" where
  "cap_reset_cap_inv_cnt cap_num inv_cnt s = do {
     ucap \<leftarrow> cap_get_usr_cap s cap_num;
     case ucap of None \<Rightarrow> Some (-1, inv_cnt, s)
     | Some u \<Rightarrow> do {
         cap \<leftarrow> cap_ref cap_num;
         let lvl = (ucast (il (invocation_capabilities s cap)) :: u32);
         if lvl = IL_SDT then Some (0, ucast (invocation_cnt (invocation_capabilities s cap)), reset_counts u cap s)
         else if lvl = IL_ST then Some (0, invocation_count (user_caps s (fst u) (snd u)), reset_counts u cap s)
         else if lvl = IL_AST then Some (-1, inv_cnt, reset_counts u cap s)
         else Some (0, inv_cnt, reset_counts u cap s) } }"

definition cap_change_isolation :: "int \<Rightarrow> u32 \<Rightarrow> u32 \<Rightarrow> kstate \<Rightarrow> (u32 \<times> kstate) option" where
  "cap_change_isolation cap_num lvl flags s =
     (if cap_num \<ge> int MAX_STATIC_CAP then Some (IL_INV, s)
      else do {
        cap \<leftarrow> cap_ref cap_num;
        let prev = (ucast (il (invocation_capabilities s cap)) :: u32);
        let s = upd_cap cap (\<lambda>c. c\<lparr>il := ucast lvl\<rparr>) s;
        p \<leftarrow> cap_owner_spd s cap;
        c_assert (user_cap_tbl (spds s p) \<noteq> 0 \<or> user_vaddr_cap_tbl (spds s p) \<noteq> 0);
        c_assert (int (unat (cap_base (spds s p))) \<le> cap_num);
        let ucap = (p, nat (cap_num - int (unat (cap_base (spds s p)))));
        let capno = (if has flags CAP_SAVE_REGS then push_bit 20 (word_of_int cap_num) OR 0x80000000
                     else push_bit 20 (word_of_int cap_num));
        let stubs = usr_stub_info (invocation_capabilities s cap);
        if lvl = IL_SDT then
          Some (prev, cap_set_usr_cap ucap (SD_cli_stub stubs) 0 capno
            (upd_cap cap (\<lambda>c. c\<lparr>dest_entry_instruction := SD_serv_stub stubs\<rparr>) s))
        else if lvl = IL_AST then
          Some (prev, cap_set_usr_cap ucap (AT_cli_stub stubs) 0 capno
            (upd_cap cap (\<lambda>c. c\<lparr>dest_entry_instruction := AT_serv_stub stubs\<rparr>) s))
        else if lvl = IL_ST then
          Some (prev, cap_set_usr_cap ucap (ST_serv_entry stubs) 0 capno
            (upd_cap cap (\<lambda>c. c\<lparr>dest_entry_instruction := ST_serv_entry stubs\<rparr>) s))
        else Some (IL_INV, s) })"

subsection \<open>Static capabilities\<close>

definition spd_get_cap_off :: "kstate \<Rightarrow> spdp \<Rightarrow> int \<Rightarrow> int" where
  "spd_get_cap_off s p cap =
     (let cap = cap + 1
      in if cap \<ge> int (unat (cap_range (spds s p))) then -1 else int (unat (cap_base (spds s p))) + cap)"

definition spd_get_cap :: "kstate \<Rightarrow> spdp \<Rightarrow> int \<Rightarrow> nat option option" where
  "spd_get_cap s p cap =
     (let abs_cap = spd_get_cap_off s p cap
      in if abs_cap = -1 then Some None else do { c \<leftarrow> cap_ref abs_cap; Some (Some c) })"

definition spd_cap_set_dest :: "spdp \<Rightarrow> int \<Rightarrow> spdp option \<Rightarrow> kstate \<Rightarrow> (int \<times> kstate) option" where
  "spd_cap_set_dest p cap dspd s = do {
     c \<leftarrow> spd_get_cap s p cap;
     case c of None \<Rightarrow> Some (-1, s) | Some c \<Rightarrow> Some (0, upd_cap c (\<lambda>x. x\<lparr>destination := dspd\<rparr>) s) }"

definition spd_cap_set_fault_handler :: "spdp \<Rightarrow> int \<Rightarrow> int \<Rightarrow> kstate \<Rightarrow> (int \<times> kstate) option" where
  "spd_cap_set_fault_handler p cap handler_num s =
     (if handler_num \<ge> int COS_NUM_FAULTS then Some (-1, s)
      else let a = spd_get_cap_off s p cap
           in if a = -1 then Some (-1, s)
              else do {
                c_assert (0 \<le> handler_num);
                Some (0, upd_spd p (\<lambda>x. x\<lparr>fault_handler := (fault_handler x)(nat handler_num := word_of_int a)\<rparr>) s) })"

definition upd_stub :: "nat \<Rightarrow> (usr_cap_stubs \<Rightarrow> usr_cap_stubs) \<Rightarrow> kstate \<Rightarrow> kstate" where
  "upd_stub c f s = upd_cap c (\<lambda>x. x\<lparr>usr_stub_info := f (usr_stub_info x)\<rparr>) s"

definition spd_cap_set_cstub :: "spdp \<Rightarrow> int \<Rightarrow> vaddr \<Rightarrow> kstate \<Rightarrow> (int \<times> kstate) option" where
  "spd_cap_set_cstub p cap fn s = do {
     c \<leftarrow> spd_get_cap s p cap;
     case c of None \<Rightarrow> Some (-1, s) | Some c \<Rightarrow> Some (0, upd_stub c (\<lambda>x. x\<lparr>SD_cli_stub := fn\<rparr>) s) }"

definition spd_cap_set_sstub :: "spdp \<Rightarrow> int \<Rightarrow> vaddr \<Rightarrow> kstate \<Rightarrow> (int \<times> kstate) option" where
  "spd_cap_set_sstub p cap fn s = do {
     c \<leftarrow> spd_get_cap s p cap;
     case c of None \<Rightarrow> Some (-1, s) | Some c \<Rightarrow> Some (0, upd_stub c (\<lambda>x. x\<lparr>SD_serv_stub := fn\<rparr>) s) }"

definition spd_cap_set_sfn :: "spdp \<Rightarrow> int \<Rightarrow> vaddr \<Rightarrow> kstate \<Rightarrow> (int \<times> kstate) option" where
  "spd_cap_set_sfn p cap fn s = do {
     c \<leftarrow> spd_get_cap s p cap;
     case c of None \<Rightarrow> Some (-1, s) | Some c \<Rightarrow> Some (0, upd_stub c (\<lambda>x. x\<lparr>ST_serv_entry := fn\<rparr>) s) }"

definition spd_cap_activate :: "spdp \<Rightarrow> int \<Rightarrow> kstate \<Rightarrow> (int \<times> kstate) option" where
  "spd_cap_activate p cap s = do {
     c \<leftarrow> spd_get_cap s p cap;
     case c of None \<Rightarrow> Some (-1, s)
     | Some c \<Rightarrow> do {
         let s = upd_cap c (\<lambda>x. x\<lparr>owner := Owner p, invocation_cnt := 0\<rparr>) s;
         (r, s) \<leftarrow> cap_change_isolation (int (unat (cap_base (spds s p))) + cap + 1) IL_SDT 0 s;
         c_assert (r \<noteq> IL_INV);
         Some (0, s) } }"

definition spd_add_static_cap_extended ::
  "spdp option \<Rightarrow> spdp option \<Rightarrow> int \<Rightarrow> vaddr \<Rightarrow> vaddr \<Rightarrow> vaddr \<Rightarrow> vaddr \<Rightarrow> vaddr \<Rightarrow> u32 \<Rightarrow> u32 \<Rightarrow>
   kstate \<Rightarrow> (int \<times> kstate) option" where
  "spd_add_static_cap_extended owner_spd trusted_spd cap_offset st_entry at_cli at_serv sd_cli sd_serv lvl flags s =
     (case (owner_spd, trusted_spd) of
        (Some p, Some t) \<Rightarrow>
          if user_vaddr_cap_tbl (spds s p) = 0 then Some (0, s)
          else let cap_offset = cap_offset + 1
          in if cap_offset \<ge> int (unat (cap_range (spds s p))) \<or> lvl > MAX_ISOLATION_LVL_VAL then Some (0, s)
          else do {
            let cap_num = int (unat (cap_base (spds s p))) + cap_offset;
            new_cap \<leftarrow> cap_ref cap_num;
            if owner (invocation_capabilities s new_cap) \<noteq> CAP_ALLOCATED_UNUSED then Some (0, s)
            else do {
              let s = upd_cap new_cap (\<lambda>c. c\<lparr>owner := Owner p, destination := Some t, invocation_cnt := 0,
                il := ucast lvl, dest_entry_instruction := st_entry,
                usr_stub_info := \<lparr>ST_serv_entry = st_entry, SD_cli_stub = sd_cli, SD_serv_stub = sd_serv,
                  AT_cli_stub = at_cli, AT_serv_stub = at_serv\<rparr>\<rparr>) s;
              (r, s) \<leftarrow> cap_change_isolation cap_num lvl flags s;
              if r = IL_INV then Some (0, s) else Some (cap_num, s) } }
      | _ \<Rightarrow> Some (0, s))"

definition spd_add_static_cap :: "spdp option \<Rightarrow> vaddr \<Rightarrow> spdp option \<Rightarrow> u32 \<Rightarrow> kstate \<Rightarrow> (int \<times> kstate) option" where
  "spd_add_static_cap owner_spd st_entry trusted_spd lvl s =
     spd_add_static_cap_extended owner_spd trusted_spd (-1) st_entry 0 0 0 0 lvl 0 s"

subsection \<open>Reading the invocation counts\<close>

text \<open>The loop variables are the capability, \<^verbatim>\<open>tot\<close> and the last value of \<^verbatim>\<open>cnt\<close>.\<close>

fun spd_read_reset_loop :: "spdp \<Rightarrow> spdp \<Rightarrow> nat list \<Rightarrow> u32 \<Rightarrow> u32 \<Rightarrow> kstate \<Rightarrow> (u32 \<times> kstate) option" where
  "spd_read_reset_loop cspd sspd [] tot cnt s = Some (tot, s)"
| "spd_read_reset_loop cspd sspd (i # is) tot cnt s = do {
     cap \<leftarrow> cap_ref (int i);
     c_assert (owner (invocation_capabilities s cap) = Owner cspd);
     if destination (invocation_capabilities s cap) \<noteq> Some sspd then spd_read_reset_loop cspd sspd is tot cnt s
     else do {
       (r, cnt, s) \<leftarrow> cap_reset_cap_inv_cnt (int i) cnt s;
       if r \<noteq> 0 then spd_read_reset_loop cspd sspd is tot cnt s
       else spd_read_reset_loop cspd sspd is (if tot + cnt < tot then 0xFFFFFFFF else tot + cnt) cnt s } }"

definition spd_read_reset_invocation_cnt :: "spdp \<Rightarrow> spdp \<Rightarrow> kstate \<Rightarrow> (u32 \<times> kstate) option" where
  "spd_read_reset_invocation_cnt cspd sspd s = do {
     let cap_lo = unat (cap_base (spds s cspd)) + 1;
     c_assert (cap_range (spds s cspd) > 0);
     let cap_hi = unat (cap_range (spds s cspd)) + cap_lo - 1;
     spd_read_reset_loop cspd sspd [cap_lo..<cap_hi] 0 0 s }"

subsection \<open>Specifications\<close>

definition cap_free :: "kstate \<Rightarrow> nat \<Rightarrow> bool" where
  "cap_free s i \<longleftrightarrow> owner (invocation_capabilities s i) = CAP_FREE"

text \<open>First fit: the lowest position at which a range of \<open>r\<close> free entries starts.\<close>

definition fits :: "kstate \<Rightarrow> nat \<Rightarrow> nat \<Rightarrow> bool" where
  "fits s r st \<longleftrightarrow> st + r \<le> MAX_STATIC_CAP \<and> list_all (cap_free s) [st..<st + r]"

definition first_fit :: "kstate \<Rightarrow> nat \<Rightarrow> nat option" where
  "first_fit s r = find (fits s r) [0..<MAX_STATIC_CAP]"

text \<open>The entries of a component's range, and the invariant of the allocation of ranges.\<close>

definition spd_owns :: "kstate \<Rightarrow> spdp \<Rightarrow> nat \<Rightarrow> bool" where
  "spd_owns s p i \<longleftrightarrow> unat (cap_base (spds s p)) \<le> i \<and> i < unat (cap_base (spds s p)) + unat (cap_range (spds s p))"

definition cap_ranges_inv :: "kstate \<Rightarrow> bool" where
  "cap_ranges_inv s \<longleftrightarrow> (\<forall>p i. spd_owns s p i \<longrightarrow> i < MAX_STATIC_CAP \<and> \<not> cap_free s i)
     \<and> (\<forall>p q i. spd_owns s p i \<longrightarrow> spd_owns s q i \<longrightarrow> p = q)"

text \<open>The stubs that belong to an isolation level, and agreement of the two copies of a capability.\<close>

definition serv_stub :: "u32 \<Rightarrow> usr_cap_stubs \<Rightarrow> vaddr" where
  "serv_stub lvl st = (if lvl = IL_SDT then SD_serv_stub st else if lvl = IL_AST then AT_serv_stub st
                       else ST_serv_entry st)"

definition cli_stub :: "u32 \<Rightarrow> usr_cap_stubs \<Rightarrow> vaddr" where
  "cli_stub lvl st = (if lvl = IL_SDT then SD_cli_stub st else if lvl = IL_AST then AT_cli_stub st
                      else ST_serv_entry st)"

definition cap_agrees :: "kstate \<Rightarrow> nat \<Rightarrow> bool" where
  "cap_agrees s c =
     (case owner (invocation_capabilities s c) of
        Owner p \<Rightarrow>
          let k = invocation_capabilities s c; lvl = ucast (il k);
              u = user_caps s p (c - unat (cap_base (spds s p)))
          in dest_entry_instruction k = serv_stub lvl (usr_stub_info k)
             \<and> invocation_fn u = cli_stub lvl (usr_stub_info k)
             \<and> service_entry_inst u = cli_stub lvl (usr_stub_info k)
             \<and> take_bit 11 (drop_bit 20 (uc_cap_no u)) = of_nat c
      | _ \<Rightarrow> False)"

definition valid_lvl :: "u32 \<Rightarrow> bool" where
  "valid_lvl lvl \<longleftrightarrow> lvl = IL_ST \<or> lvl = IL_AST \<or> lvl = IL_SDT"

text \<open>The capability can be invoked by its owner: it lies in the owner's range and the table exists.\<close>

definition cap_usable :: "kstate \<Rightarrow> spdp \<Rightarrow> nat \<Rightarrow> bool" where
  "cap_usable s p c \<longleftrightarrow> c < MAX_STATIC_CAP \<and> owner (invocation_capabilities s c) = Owner p
     \<and> spd_owns s p c \<and> user_cap_tbl (spds s p) \<noteq> 0"

text \<open>The number of invocations of a capability since the last reset, wherever its level counts them.\<close>

definition inv_count :: "kstate \<Rightarrow> spdp \<Rightarrow> nat \<Rightarrow> nat" where
  "inv_count s p c =
     (if ucast (il (invocation_capabilities s c)) = IL_SDT then unat (invocation_cnt (invocation_capabilities s c))
      else unat (invocation_count (user_caps s p (c - unat (cap_base (spds s p))))))"

subsection \<open>Allocation of ranges\<close>

lemma cap_ref_nat [simp]: "i < MAX_STATIC_CAP \<Longrightarrow> cap_ref (int i) = Some i"
  by (simp add: cap_ref_def)

lemma cap_is_free_nat [simp]: "i < MAX_STATIC_CAP \<Longrightarrow> cap_is_free s (int i) = Some (cap_free s i)"
  by (simp add: cap_is_free_def cap_free_def)

lemma first_fit_Some: "first_fit s r = Some st \<longleftrightarrow> st < MAX_STATIC_CAP \<and> fits s r st \<and> (\<forall>k < st. \<not> fits s r k)"
  by (auto simp: first_fit_def find_Some_iff intro: exI [of _ st])

lemma first_fit_None: "first_fit s r = None \<longleftrightarrow> (\<forall>st < MAX_STATIC_CAP. \<not> fits s r st)"
  by (auto simp: first_fit_def find_None_iff)

lemma fits_blocked: "\<not> cap_free s i \<Longrightarrow> st \<le> i \<Longrightarrow> i < st + r \<Longrightarrow> \<not> fits s r st"
  by (auto simp: fits_def list_all_iff)

definition alloc_spec :: "nat \<Rightarrow> kstate \<Rightarrow> int \<times> kstate" where
  "alloc_spec r s = (case first_fit s r of None \<Rightarrow> (-1, s) | Some st \<Rightarrow> (int st, mark_caps [st..<st + r] s))"

lemma spd_alloc_capability_range_loop_spec:
  assumes "i \<le> MAX_STATIC_CAP" "rf \<le> i" "rf < r" "list_all (cap_free s) [i - rf..<i]"
    "\<forall>st < i - rf. \<not> fits s r st"
  shows "spd_alloc_capability_range_loop (int r) [i..<MAX_STATIC_CAP] rf s = Some (alloc_spec r s)"
  using assms
proof (induction "MAX_STATIC_CAP - i" arbitrary: i rf)
  case 0
  then have "first_fit s r = None" by (auto simp: first_fit_None fits_def not_less)
  with 0 show ?case by (simp add: alloc_spec_def)
next
  case (Suc n)
  then have i: "i < MAX_STATIC_CAP" by simp
  have IH: "spd_alloc_capability_range_loop (int r) [Suc i..<MAX_STATIC_CAP] rf' s = Some (alloc_spec r s)"
    if "rf' \<le> Suc i" "rf' < r" "list_all (cap_free s) [Suc i - rf'..<Suc i]" "\<forall>st < Suc i - rf'. \<not> fits s r st" for rf'
    using Suc.hyps that i by auto
  show ?case
  proof (cases "cap_free s i")
    case False
    have "\<not> fits s r st" if "st < Suc i" for st
      using Suc.prems(5) fits_blocked [OF False] that Suc.prems(2,3) by (cases "st < i - rf") auto
    with IH [of 0] Suc.prems(3) i False show ?thesis by (simp add: upt_conv_Cons)
  next
    case free: True
    have all: "list_all (cap_free s) [i - rf..<Suc i]" using Suc.prems free by (simp add: list_all_iff)
    show ?thesis
    proof (cases "rf + 1 < r")
      case True
      with IH [of "rf + 1"] i free Suc.prems all show ?thesis by (simp add: upt_conv_Cons)
    next
      case False
      with Suc.prems have r: "r = rf + 1" by simp
      then have "first_fit s r = Some (i - rf)"
        using i Suc.prems all by (auto simp: first_fit_Some fits_def)
      with i free r Suc.prems show ?thesis
        by (simp add: upt_conv_Cons alloc_spec_def Let_def of_nat_diff)
    qed
  qed
qed

lemma mark_caps_apply:
  "invocation_capabilities (mark_caps js s) = (\<lambda>i. if i \<in> set js
     then (invocation_capabilities s i)\<lparr>owner := CAP_ALLOCATED_UNUSED\<rparr> else invocation_capabilities s i)
   \<and> spds (mark_caps js s) = spds s \<and> user_caps (mark_caps js s) = user_caps s"
  by (induction js arbitrary: s) (auto simp: mark_caps_def upd_cap_def)

lemma mark_caps_simps [simp]:
  "spds (mark_caps js s) = spds s"
  "cap_free (mark_caps js s) i \<longleftrightarrow> i \<notin> set js \<and> cap_free s i"
  by (auto simp: mark_caps_apply cap_free_def)

lemma spd_alloc_capability_range_eq:
  "0 < r \<Longrightarrow> spd_alloc_capability_range (int r) s = Some (alloc_spec r s)"
  by (simp add: spd_alloc_capability_range_def spd_alloc_capability_range_loop_spec)

lemma alloc_spec_bounds:
  assumes "alloc_spec r s = (ret, s')" "ret \<noteq> -1" "0 < r"
  obtains st where "ret = int st" "fits s r st" "s' = mark_caps [st..<st + r] s" "st + r \<le> MAX_STATIC_CAP"
    "st < MAX_STATIC_CAP"
  using assms by (auto simp: alloc_spec_def first_fit_Some fits_def split: option.splits)

lemma unat_u16_small: "0 \<le> i \<Longrightarrow> i \<le> int MAX_STATIC_CAP \<Longrightarrow> unat (word_of_int i :: u16) = nat i"
  by (simp add: unat_eq_nat_uint uint_word_of_int kconsts)

lemma cap_free_upd_spd [simp]: "cap_free (upd_spd p f s) i \<longleftrightarrow> cap_free s i"
  by (simp add: cap_free_def)

lemma spd_reserve_cap_range_cases:
  assumes "0 \<le> amnt"
  obtains (fail) "spd_reserve_cap_range p amnt s = Some (-1, s)"
  | (ok) st s' where "spd_reserve_cap_range p amnt s = Some (int st, s')"
      "cap_range (spds s p) = 0" "fits s (nat amnt + 1) st"
      "spd_owns s' p = (\<lambda>i. st \<le> i \<and> i < st + (nat amnt + 1))"
      "\<And>q. q \<noteq> p \<Longrightarrow> spd_owns s' q = spd_owns s q"
      "\<And>i. cap_free s' i \<longleftrightarrow> cap_free s i \<and> \<not> spd_owns s' p i"
proof (cases "cap_range (spds s p) = 0")
  case False
  then show ?thesis by (intro fail) (simp add: spd_reserve_cap_range_def)
next
  case True
  let ?r = "nat amnt + 1"
  have al: "spd_alloc_capability_range (amnt + 1) s = Some (alloc_spec ?r s)"
    using spd_alloc_capability_range_eq [of ?r s] assms by (simp add: add.commute)
  obtain ret s1 where sp: "alloc_spec ?r s = (ret, s1)" by force
  show ?thesis
  proof (cases "ret = -1")
    case True
    with sp have "s1 = s" by (auto simp: alloc_spec_def split: option.splits)
    with True al sp \<open>cap_range (spds s p) = 0\<close> show ?thesis
      by (intro fail) (simp add: spd_reserve_cap_range_def)
  next
    case False
    then obtain st where st: "ret = int st" "fits s ?r st" "s1 = mark_caps [st..<st + ?r] s"
      "st + ?r \<le> MAX_STATIC_CAP" "st < MAX_STATIC_CAP"
      using alloc_spec_bounds [OF sp] by auto
    define s' where "s' = upd_spd p (\<lambda>x. x\<lparr>cap_base := word_of_int ret, cap_range := word_of_int (amnt + 1)\<rparr>) s1"
    have "unat (word_of_int ret :: u16) = st" "unat (word_of_int (amnt + 1) :: u16) = ?r"
      using st assms by (auto simp: unat_u16_small simp del: of_int_of_nat_eq of_int_add)
    then have own: "spd_owns s' p = (\<lambda>i. st \<le> i \<and> i < st + ?r)" by (auto simp: spd_owns_def s'_def)
    show ?thesis
    proof (rule ok)
      show "spd_reserve_cap_range p amnt s = Some (int st, s')"
        using \<open>cap_range (spds s p) = 0\<close> al sp False st(1) by (simp add: spd_reserve_cap_range_def s'_def)
    qed (use own st True in \<open>auto simp: s'_def spd_owns_def\<close>)
  qed
qed

lemma spd_owns_empty: "cap_range (spds s p) = 0 \<Longrightarrow> \<not> spd_owns s p i"
  by (simp add: spd_owns_def)

lemma cap_ranges_inv_reserve:
  assumes "cap_ranges_inv s" "0 \<le> amnt" "spd_reserve_cap_range p amnt s = Some (ret, s')"
  shows "cap_ranges_inv s'"
proof (rule spd_reserve_cap_range_cases [OF assms(2), of p s])
  assume "spd_reserve_cap_range p amnt s = Some (-1, s)"
  with assms show ?thesis by simp
next
  fix st s1
  assume r: "spd_reserve_cap_range p amnt s = Some (int st, s1)" "cap_range (spds s p) = 0"
    and f: "fits s (nat amnt + 1) st" and o1: "spd_owns s1 p = (\<lambda>i. st \<le> i \<and> i < st + (nat amnt + 1))"
    and o2: "\<And>q. q \<noteq> p \<Longrightarrow> spd_owns s1 q = spd_owns s q"
    and fr: "\<And>i. cap_free s1 i \<longleftrightarrow> cap_free s i \<and> \<not> spd_owns s1 p i"
  have s': "s' = s1" using r assms(3) by simp
  have new: "i < MAX_STATIC_CAP \<and> cap_free s i" if "spd_owns s1 p i" for i
    using f that by (auto simp: o1 fits_def list_all_iff simp del: upt_Suc)
  have old: "i < MAX_STATIC_CAP \<and> \<not> cap_free s i" if "q \<noteq> p" "spd_owns s1 q i" for q i
    using assms(1) that by (auto simp: o2 cap_ranges_inv_def)
  have "i < MAX_STATIC_CAP \<and> \<not> cap_free s1 i" if "spd_owns s1 q i" for q i
    using new [of i] old [of q i] that fr [of i] by (cases "q = p") auto
  moreover have "q = q'" if "spd_owns s1 q i" "spd_owns s1 q' i" for q q' i
  proof (cases "q = p \<or> q' = p")
    case True
    then show ?thesis using new [of i] old [of q i] old [of q' i] that by auto
  next
    case False
    then show ?thesis using assms(1) that o2 by (auto simp: cap_ranges_inv_def)
  qed
  ultimately show ?thesis unfolding s' cap_ranges_inv_def by blast
qed

lemma release_past_end:
  assumes "MAX_STATIC_CAP < n"
  shows "fold_opt (\<lambda>i. cap_set_free (int i)) [0..<n] s = None"
proof -
  have "[0..<n] = [0..<MAX_STATIC_CAP] @ MAX_STATIC_CAP # [Suc MAX_STATIC_CAP..<n]"
    using assms upt_add_eq_append [of 0 MAX_STATIC_CAP "n - MAX_STATIC_CAP"] by (simp add: upt_conv_Cons)
  moreover have "cap_set_free (int MAX_STATIC_CAP) t = None" for t
    by (simp add: cap_set_free_def cap_ref_def)
  ultimately show ?thesis by (simp add: fold_opt_append Option.bind_eq_None_conv)
qed

subsection \<open>Isolation levels\<close>

lemma il_2bit: "valid_lvl lvl \<Longrightarrow> ucast (ucast lvl :: 2 word) = lvl"
  by (auto simp: valid_lvl_def il_defs)

lemma cap_change_isolation_eq:
  assumes "cap_usable s p c" "valid_lvl lvl"
  shows "\<exists>fl. (fl = 0 \<or> fl = push_bit 31 1) \<and>
    cap_change_isolation (int c) lvl flags s = Some (ucast (il (invocation_capabilities s c)),
      cap_set_usr_cap (p, c - unat (cap_base (spds s p)))
        (cli_stub lvl (usr_stub_info (invocation_capabilities s c))) 0 (push_bit 20 (of_nat c) OR fl)
        (upd_cap c (\<lambda>k. k\<lparr>dest_entry_instruction := serv_stub lvl (usr_stub_info (invocation_capabilities s c))\<rparr>)
          (upd_cap c (\<lambda>k. k\<lparr>il := ucast lvl\<rparr>) s)))"
proof -
  have c: "c < MAX_STATIC_CAP" "cap_owner_spd (upd_cap c (\<lambda>k. k\<lparr>il := ucast lvl\<rparr>) s) c = Some p"
    "unat (cap_base (spds s p)) \<le> c" "user_cap_tbl (spds s p) \<noteq> 0"
    using assms(1) by (auto simp: cap_usable_def cap_owner_spd_def spd_owns_def)
  moreover have "(0x80000000 :: u32) = push_bit 31 1" by simp
  ultimately show ?thesis
    using assms(2) by (cases "has flags CAP_SAVE_REGS")
      (auto simp: cap_change_isolation_def Let_def valid_lvl_def serv_stub_def cli_stub_def il_defs)
qed

lemma cap_no_decode:
  assumes "c < 2048" "fl = 0 \<or> fl = push_bit 31 (1 :: u32)"
  shows "take_bit 11 (drop_bit 20 (push_bit 20 (of_nat c) OR fl)) = (of_nat c :: u32)"
proof -
  have "take_bit 11 (drop_bit 20 (push_bit 20 w :: u32)) = take_bit 11 w" for w :: u32
    by (rule bit_word_eqI) (auto simp: bit_simps)
  moreover have "take_bit 11 (drop_bit 20 fl) = 0" using assms(2) by auto
  moreover have "take_bit 11 (of_nat c :: u32) = of_nat c"
    using assms(1) by (simp flip: of_nat_take_bit add: take_bit_nat_eq_self)
  ultimately show ?thesis by (simp add: drop_bit_or take_bit_or)
qed

lemma cap_usable_slot:
  "cap_usable s p c \<Longrightarrow> cap_usable s p d \<Longrightarrow>
   c - unat (cap_base (spds s p)) = d - unat (cap_base (spds s p)) \<longleftrightarrow> c = d"
  by (auto simp: cap_usable_def spd_owns_def)

lemma cap_set_usr_cap_simps [simp]:
  "user_caps (cap_set_usr_cap u fn n k s) q m =
     (if (q, m) = u then \<lparr>invocation_fn = fn, service_entry_inst = fn, invocation_count = n, uc_cap_no = k\<rparr>
      else user_caps s q m)"
  "spds (cap_set_usr_cap u fn n k s) = spds s"
  "invocation_capabilities (cap_set_usr_cap u fn n k s) = invocation_capabilities s"
  by (auto simp: cap_set_usr_cap_def)

subsection \<open>Invocation counts\<close>

definition counted :: "kstate \<Rightarrow> spdp \<Rightarrow> nat \<Rightarrow> bool" where
  "counted s p c \<longleftrightarrow> cap_usable s p c \<and> ucast (il (invocation_capabilities s c)) \<in> {IL_ST, IL_SDT}"

lemma cap_reset_counted:
  assumes "counted s p c"
  shows "cap_reset_cap_inv_cnt (int c) n s =
    Some (0, of_nat (inv_count s p c), reset_counts (p, c - unat (cap_base (spds s p))) c s)"
proof -
  have c: "c < MAX_STATIC_CAP" "owner (invocation_capabilities s c) = Owner p" "\<not> cap_free s c"
    "unat (cap_base (spds s p)) \<le> c" "c < unat (cap_base (spds s p)) + unat (cap_range (spds s p))"
    "user_cap_tbl (spds s p) \<noteq> 0"
    using assms by (auto simp: counted_def cap_usable_def spd_owns_def cap_free_def)
  then have "cap_get_usr_cap s (int c) = Some (Some (p, c - unat (cap_base (spds s p))))"
    by (simp add: cap_get_usr_cap_def cap_owner_spd_def Let_def)
  with c assms show ?thesis
    by (auto simp: cap_reset_cap_inv_cnt_def Let_def counted_def inv_count_def il_defs
        simp flip: unsigned_of_nat)
qed

lemma reset_counts_simps [simp]:
  "invocation_capabilities (reset_counts u c s) d =
     (if d = c then (invocation_capabilities s c)\<lparr>invocation_cnt := 0\<rparr> else invocation_capabilities s d)"
  "spds (reset_counts u c s) = spds s"
  "user_caps (reset_counts u c s) q m =
     (if (q, m) = u then (user_caps s q m)\<lparr>invocation_count := 0\<rparr> else user_caps s q m)"
  by (auto simp: reset_counts_def)

lemma counted_reset [simp]: "counted (reset_counts u c s) p d \<longleftrightarrow> counted s p d"
  by (auto simp: counted_def cap_usable_def spd_owns_def)

lemma inv_count_reset:
  assumes "counted s p c" "counted s p d"
  shows "inv_count (reset_counts (p, c - unat (cap_base (spds s p))) c s) p d = (if d = c then 0 else inv_count s p d)"
proof -
  from assms have "d - unat (cap_base (spds s p)) = c - unat (cap_base (spds s p)) \<longleftrightarrow> d = c"
    by (auto simp: counted_def cap_usable_slot)
  then show ?thesis by (auto simp: inv_count_def)
qed

definition sat32 :: "nat \<Rightarrow> nat" where
  "sat32 n = min n 0xFFFFFFFF"

lemma sat32_step:
  assumes "k < 2 ^ 32"
  shows "unat (if tot + of_nat k < tot then 0xFFFFFFFF else tot + of_nat k :: u32) = sat32 (unat tot + k)"
proof -
  have k: "unat (of_nat k :: u32) = k" using assms by (simp add: unat_of_nat)
  have t: "unat tot < 2 ^ 32" using unsigned_less [of tot] by simp
  show ?thesis
  proof (cases "unat tot + k < 2 ^ 32")
    case True
    then have "unat (tot + of_nat k) = unat tot + k" using k by (simp add: unat_word_ariths)
    with True show ?thesis by (simp add: word_less_nat_alt sat32_def)
  next
    case False
    then have "unat (tot + of_nat k) = unat tot + k - 2 ^ 32"
      using k t assms by (simp add: unat_word_ariths mod_if)
    with False t assms show ?thesis by (simp add: word_less_nat_alt sat32_def)
  qed
qed

lemma sat32_add [simp]: "sat32 (sat32 a + b) = sat32 (a + b)"
  by (simp add: sat32_def)

lemma inv_count_bound: "inv_count s p c < 2 ^ 32"
proof -
  have "unat (invocation_cnt (invocation_capabilities s c)) < 2 ^ 30"
    using unsigned_less [of "invocation_cnt (invocation_capabilities s c)"] by simp
  moreover have "unat (invocation_count (user_caps s p i)) < 2 ^ 32" for i
    using unsigned_less [of "invocation_count (user_caps s p i)"] by simp
  ultimately show ?thesis by (simp add: inv_count_def)
qed

definition calls_to :: "kstate \<Rightarrow> spdp \<Rightarrow> nat list \<Rightarrow> nat list" where
  "calls_to s q is = filter (\<lambda>c. destination (invocation_capabilities s c) = Some q) is"

text \<open>What a pass of the loop over the capabilities \<open>is\<close> leaves.\<close>

definition counts_reset :: "spdp \<Rightarrow> spdp \<Rightarrow> nat list \<Rightarrow> kstate \<Rightarrow> kstate \<Rightarrow> bool" where
  "counts_reset p q is s s' \<longleftrightarrow> spds s' = spds s \<and> (\<forall>d. counted s' p d = counted s p d)
     \<and> (\<forall>d. destination (invocation_capabilities s' d) = destination (invocation_capabilities s d))
     \<and> (\<forall>d. counted s p d \<longrightarrow> inv_count s' p d = (if d \<in> set (calls_to s q is) then 0 else inv_count s p d))"

lemma spd_read_reset_loop_sum:
  assumes "\<forall>c \<in> set is. counted s p c" "distinct is"
  shows "\<exists>s' r. spd_read_reset_loop p q is tot cnt s = Some (r, s') \<and> counts_reset p q is s s'
    \<and> unat r = sat32 (unat tot + sum_list (map (inv_count s p) (calls_to s q is)))"
  using assms
proof (induction "is" arbitrary: tot cnt s)
  case Nil
  have "unat tot < 2 ^ 32" using unsigned_less [of tot] by simp
  then show ?case by (simp add: counts_reset_def calls_to_def sat32_def)
next
  case (Cons c cs)
  from Cons.prems have c: "counted s p c" "c < MAX_STATIC_CAP" "owner (invocation_capabilities s c) = Owner p"
    by (auto simp: counted_def cap_usable_def)
  show ?case
  proof (cases "destination (invocation_capabilities s c) = Some q")
    case False
    with Cons.IH [of s tot cnt] Cons.prems c show ?thesis by (auto simp: calls_to_def counts_reset_def)
  next
    case True
    let ?s = "reset_counts (p, c - unat (cap_base (spds s p))) c s"
    let ?n = "inv_count s p c"
    let ?tot = "if tot + of_nat ?n < tot then 0xFFFFFFFF else tot + of_nat ?n :: u32"
    have calls: "calls_to ?s q cs = calls_to s q cs" by (auto simp: calls_to_def intro!: filter_cong)
    have cnts: "map (inv_count ?s p) (calls_to s q cs) = map (inv_count s p) (calls_to s q cs)"
      using Cons.prems by (auto simp: calls_to_def inv_count_reset [OF c(1)])
    from Cons.IH [of ?s ?tot "of_nat ?n"] Cons.prems obtain s' r
      where r: "spd_read_reset_loop p q cs ?tot (of_nat ?n) ?s = Some (r, s')" "counts_reset p q cs ?s s'"
        "unat r = sat32 (unat ?tot + sum_list (map (inv_count s p) (calls_to s q cs)))"
      by (auto simp only: calls cnts counted_reset list.set distinct.simps ball_simps)
    have "spd_read_reset_loop p q (c # cs) tot cnt s = Some (r, s')"
      using r(1) c True by (simp add: cap_reset_counted)
    moreover have "counts_reset p q (c # cs) s s'"
      using r(2) True Cons.prems
      by (auto simp: counts_reset_def calls calls_to_def inv_count_reset [OF c(1)])
    moreover have "unat r = sat32 (unat tot + sum_list (map (inv_count s p) (calls_to s q (c # cs))))"
      unfolding r(3) sat32_step [OF inv_count_bound] using True by (simp add: calls_to_def add.assoc)
    ultimately show ?thesis by blast
  qed
qed

subsection \<open>Properties\<close>

text \<open>
  C24.  \<^verbatim>\<open>spd_alloc_capability_range\<close> is first fit: for a positive size it returns the lowest position at
  which that many consecutive entries are free and marks exactly those as allocated, and it returns
  -1, changing nothing, exactly when there is no such position.
\<close>

theorem spd_alloc_capability_range_first_fit:
  assumes "0 < r"
  shows "spd_alloc_capability_range (int r) s =
    Some (case first_fit s r of None \<Rightarrow> (-1, s) | Some st \<Rightarrow> (int st, mark_caps [st..<st + r] s))"
  using spd_alloc_capability_range_eq [OF assms] by (simp add: alloc_spec_def)

theorem spd_alloc_capability_range_first_fit_witness:
  "spd_alloc_capability_range (int 3) (upd_cap 1 (\<lambda>c. c\<lparr>owner := Owner 5\<rparr>) zero_kstate) =
   Some (int 2, mark_caps [2..<2 + 3] (upd_cap 1 (\<lambda>c. c\<lparr>owner := Owner 5\<rparr>) zero_kstate))"
proof -
  have "\<not> fits (upd_cap 1 (\<lambda>c. c\<lparr>owner := Owner 5\<rparr>) zero_kstate) 3 k" if "k < 2" for k
    using that by (intro fits_blocked [of _ 1]) (auto simp: cap_free_def)
  then have "first_fit (upd_cap 1 (\<lambda>c. c\<lparr>owner := Owner 5\<rparr>) zero_kstate) 3 = Some 2"
    by (auto simp: first_fit_Some fits_def kconsts list_all_iff cap_free_def zero_kstate_def zero_cap_def)
  with spd_alloc_capability_range_first_fit [of 3 "upd_cap 1 (\<lambda>c. c\<lparr>owner := Owner 5\<rparr>) zero_kstate"]
  show ?thesis by simp
qed



text \<open>
  A negative amount is accepted by \<^verbatim>\<open>spd_reserve_cap_range\<close>: when the first entry is free, one entry
  is allocated while the component's range becomes \<open>(u16)(amnt + 1)\<close>, a number near 65536, and
  releasing the range then runs past the end of the capability table.
\<close>

theorem spd_reserve_cap_range_negative:
  assumes "cap_free s 0" "cap_range (spds s p) = 0" "-60000 \<le> amnt" "amnt \<le> -2"
  shows "\<exists>s'. spd_reserve_cap_range p amnt s = Some (0, s')
    \<and> unat (cap_range (spds s' p)) = nat (65537 + amnt)
    \<and> (\<forall>i. cap_free s' i \<longleftrightarrow> i \<noteq> 0 \<and> cap_free s i)
    \<and> spd_release_cap_range p s' = None"
proof -
  let ?s = "upd_spd p (\<lambda>x. x\<lparr>cap_base := 0, cap_range := word_of_int (amnt + 1)\<rparr>) (mark_caps [0..<1] s)"
  have m: "0 < MAX_STATIC_CAP" by (simp add: kconsts)
  have "[0..<MAX_STATIC_CAP] = 0 # [1..<MAX_STATIC_CAP]" using m by (simp add: upt_conv_Cons)
  then have "spd_reserve_cap_range p amnt s = Some (0, ?s)"
    using assms m cap_is_free_nat [OF m, of s]
    by (simp add: spd_reserve_cap_range_def spd_alloc_capability_range_def del: cap_is_free_nat)
  moreover have rng: "unat (word_of_int (amnt + 1) :: u16) = nat (65537 + amnt)"
  proof -
    have "(amnt + 1) mod 65536 = (amnt + 1 + 65536) mod 65536" by (simp only: mod_add_self2)
    also have "\<dots> = 65537 + amnt" using assms(3,4) by (simp add: mod_pos_pos_trivial)
    finally show ?thesis by (simp add: unat_eq_nat_uint uint_word_of_int del: of_int_add)
  qed
  moreover have "spd_release_cap_range p ?s = None"
    using rng assms(3,4) release_past_end [of "nat (65537 + amnt)"]
    by (simp add: spd_release_cap_range_def kconsts)
  ultimately show ?thesis by (intro exI [of _ ?s]) auto
qed

theorem spd_reserve_cap_range_negative_witness:
  "\<exists>s'. spd_reserve_cap_range 2 (-5) zero_kstate = Some (0, s') \<and> unat (cap_range (spds s' 2)) = 65532
    \<and> spd_release_cap_range 2 s' = None"
  using spd_reserve_cap_range_negative [of zero_kstate 2 "-5"]
  by (auto simp: cap_free_def zero_kstate_def zero_cap_def zero_spd_def)

text \<open>
  C26.  \<^verbatim>\<open>cap_change_isolation\<close> keeps the kernel's entry and the user-level entry of a capability in step:
  for a usable capability and one of the three levels it returns the previous level, after it the
  server entry point, the client stub, the counter and the encoded capability number all belong to the
  new level, and every other capability that agreed with its user-level entry still does.
\<close>

theorem cap_change_isolation_agrees:
  assumes "cap_usable s p c" "valid_lvl lvl"
  shows "\<exists>s'. cap_change_isolation (int c) lvl flags s = Some (ucast (il (invocation_capabilities s c)), s')
    \<and> ucast (il (invocation_capabilities s' c)) = lvl \<and> cap_agrees s' c
    \<and> (\<forall>q d. d \<noteq> c \<longrightarrow> cap_usable s q d \<longrightarrow> cap_agrees s d \<longrightarrow> cap_usable s' q d \<and> cap_agrees s' d)"
proof -
  obtain fl where fl: "fl = 0 \<or> fl = push_bit 31 (1 :: u32)" and eq:
    "cap_change_isolation (int c) lvl flags s = Some (ucast (il (invocation_capabilities s c)),
      cap_set_usr_cap (p, c - unat (cap_base (spds s p)))
        (cli_stub lvl (usr_stub_info (invocation_capabilities s c))) 0 (push_bit 20 (of_nat c) OR fl)
        (upd_cap c (\<lambda>k. k\<lparr>dest_entry_instruction := serv_stub lvl (usr_stub_info (invocation_capabilities s c))\<rparr>)
          (upd_cap c (\<lambda>k. k\<lparr>il := ucast lvl\<rparr>) s)))" (is "_ = Some (_, ?s)")
    using cap_change_isolation_eq [OF assms] by blast
  have own: "owner (invocation_capabilities s c) = Owner p" "c < 2048"
    using assms(1) by (auto simp: cap_usable_def kconsts)
  have "cap_agrees ?s c"
    using own il_2bit [OF assms(2)] cap_no_decode [OF own(2) fl] by (simp add: cap_agrees_def Let_def)
  moreover have "cap_usable ?s q d \<and> cap_agrees ?s d"
    if d: "d \<noteq> c" "cap_usable s q d" "cap_agrees s d" for q d
  proof -
    have oq: "owner (invocation_capabilities s d) = Owner q" using d(2) by (simp add: cap_usable_def)
    have "(q, d - unat (cap_base (spds s q))) \<noteq> (p, c - unat (cap_base (spds s p)))"
      using cap_usable_slot [OF assms(1), of d] d by auto
    with d oq show ?thesis by (auto simp: cap_agrees_def Let_def cap_usable_def spd_owns_def)
  qed
  ultimately show ?thesis using eq il_2bit [OF assms(2)] by auto
qed

definition cap_example :: kstate where
  "cap_example = upd_spd 1 (\<lambda>x. x\<lparr>cap_base := 8, cap_range := 4, user_cap_tbl := 0xC1000000\<rparr>)
     (upd_cap 10 (\<lambda>c. c\<lparr>owner := Owner 1, destination := Some 2, il := 3, invocation_cnt := 6\<rparr>)
     (upd_cap 9 (\<lambda>c. c\<lparr>owner := Owner 1, destination := Some 2\<rparr>)
     (upd_cap 11 (\<lambda>c. c\<lparr>owner := Owner 1, destination := Some 3\<rparr>)
     (upd_ucap 1 1 (\<lambda>u. u\<lparr>invocation_count := 0xFFFFFFFD\<rparr>) zero_kstate))))"

lemma cap_example_usable: "c \<in> {9, 10, 11} \<Longrightarrow> counted cap_example 1 c"
  by (auto simp: counted_def cap_usable_def cap_example_def spd_owns_def kconsts zero_kstate_def
      zero_spd_def zero_cap_def il_defs)

theorem cap_change_isolation_agrees_witness:
  "\<exists>s'. cap_change_isolation (int 10) IL_ST 0 cap_example = Some (IL_SDT, s') \<and> cap_agrees s' 10"
proof -
  have "cap_usable cap_example 1 10" using cap_example_usable [of 10] by (simp add: counted_def)
  moreover have "valid_lvl IL_ST" by (simp add: valid_lvl_def)
  moreover have "ucast (il (invocation_capabilities cap_example 10)) = IL_SDT"
    by (simp add: cap_example_def il_defs)
  ultimately show ?thesis using cap_change_isolation_agrees [of cap_example 1 10 IL_ST 0] by auto
qed

text \<open>
  \<^verbatim>\<open>spd_read_reset_invocation_cnt\<close> adds up the invocations of all capabilities that lead from one
  component to another, in the kernel's or the user-level counter, whichever the isolation level
  uses, saturating at the largest unsigned value instead of wrapping; afterwards those counters are
  zero, so that a second read returns zero.
\<close>

theorem spd_read_reset_invocation_cnt_sum:
  assumes "cap_range (spds s p) > 0"
    and "\<forall>c \<in> set caps. counted s p c"
    and "caps = [unat (cap_base (spds s p)) + 1..<unat (cap_range (spds s p)) + unat (cap_base (spds s p))]"
  shows "\<exists>r s' s''. spd_read_reset_invocation_cnt p q s = Some (r, s')
    \<and> unat r = min (\<Sum>c\<leftarrow>calls_to s q caps. inv_count s p c) (2 ^ 32 - 1)
    \<and> spd_read_reset_invocation_cnt p q s' = Some (0, s'')"
proof -
  have d: "distinct caps" by (simp add: assms(3))
  have eq: "spd_read_reset_invocation_cnt p q t = spd_read_reset_loop p q caps 0 0 t" if "spds t = spds s" for t
    using assms(1,3) that by (simp add: spd_read_reset_invocation_cnt_def)
  from spd_read_reset_loop_sum [OF assms(2) d, of q 0 0] obtain s' r where
    r: "spd_read_reset_loop p q caps 0 0 s = Some (r, s')" "counts_reset p q caps s s'"
      "unat r = sat32 (sum_list (map (inv_count s p) (calls_to s q caps)))"
    by auto
  from r(2) have cn: "\<forall>c \<in> set caps. counted s' p c" and sp: "spds s' = spds s"
    and calls: "calls_to s' q caps = calls_to s q caps"
    using assms(2) by (auto simp: counts_reset_def calls_to_def)
  have "inv_count s' p c = 0" if "c \<in> set (calls_to s q caps)" for c
    using r(2) that assms(2) by (auto simp: counts_reset_def calls_to_def)
  then have "map (inv_count s' p) (calls_to s' q caps) = map (\<lambda>_. 0) (calls_to s q caps)"
    unfolding calls by (intro map_cong) simp_all
  with spd_read_reset_loop_sum [OF cn d, of q 0 0] obtain s'' r' where
    "spd_read_reset_loop p q caps 0 0 s' = Some (r', s'')" "r' = 0"
    by (auto simp: sat32_def unsigned_eq_0_iff)
  with r sp show ?thesis by (auto simp: eq sat32_def)
qed

theorem spd_read_reset_invocation_cnt_sum_witness:
  "\<exists>r s'. spd_read_reset_invocation_cnt 1 2 cap_example = Some (r, s') \<and> unat r = 2 ^ 32 - 1"
proof -
  have caps: "[unat (cap_base (spds cap_example 1)) + 1..<unat (cap_range (spds cap_example 1)) + unat (cap_base (spds cap_example 1))] = [9, 10, 11]"
    by (simp add: cap_example_def upt_rec)
  have "(\<Sum>c\<leftarrow>calls_to cap_example 2 [9, 10, 11]. inv_count cap_example 1 c) = 0x100000003"
    by (simp add: calls_to_def cap_example_def inv_count_def zero_kstate_def zero_cap_def il_defs)
  moreover have "cap_range (spds cap_example 1) > 0" by (simp add: cap_example_def)
  moreover have "\<forall>c \<in> set [9, 10, 11]. counted cap_example 1 c" using cap_example_usable by auto
  ultimately show ?thesis
    using spd_read_reset_invocation_cnt_sum [OF _ _ caps [symmetric], of 2] by auto
qed

end
