(* ===== verification/Vas.thy ===== *)
theory Vas
  imports Capabilities
begin

text \<open>
  Virtual address spaces (\<^verbatim>\<open>kernel/spd.c\<close>): the table of address spaces, the layout of each (which
  component owns which 4 MB slot), and the placement of components in it.
\<close>

subsection \<open>The layout of an address space\<close>

definition upd_vas :: "nat \<Rightarrow> (vas \<Rightarrow> vas) \<Rightarrow> kstate \<Rightarrow> kstate" where
  "upd_vas v f s = s\<lparr>vas_list := (vas_list s)(v := f (vas_list s v))\<rparr>"

text \<open>\<^verbatim>\<open>spd->composite_vas->virtual_spd_layout[i]\<close>: a null address space or a bad index is a fault.\<close>

definition layout_get :: "kstate \<Rightarrow> spdp \<Rightarrow> nat \<Rightarrow> spdp option option" where
  "layout_get s p i = do {
     v \<leftarrow> composite_vas (spds s p);
     c_assert (v < MAX_VAS_NUM \<and> i < PGD_PER_PTBL);
     Some (virtual_spd_layout (vas_list s v) i) }"

definition layout_set :: "spdp \<Rightarrow> spdp option \<Rightarrow> nat \<Rightarrow> kstate \<Rightarrow> kstate option" where
  "layout_set p x i s = do {
     v \<leftarrow> composite_vas (spds s p);
     c_assert (v < MAX_VAS_NUM \<and> i < PGD_PER_PTBL);
     Some (upd_vas v (\<lambda>a. a\<lparr>virtual_spd_layout := (virtual_spd_layout a)(i := x)\<rparr>) s) }"

fun layout_all_null :: "kstate \<Rightarrow> spdp \<Rightarrow> nat list \<Rightarrow> bool option" where
  "layout_all_null s p [] = Some True"
| "layout_all_null s p (i # is) = do {
     x \<leftarrow> layout_get s p i;
     if x \<noteq> None then Some False else layout_all_null s p is }"

definition hslots :: "u32 \<Rightarrow> u32 \<Rightarrow> nat list" where
  "hslots addr sz = [pgd_index addr..<pgd_index addr + unat (drop_bit HPAGE_SHIFT sz)]"

definition virtual_namespace_alloc :: "spdp \<Rightarrow> u32 \<Rightarrow> u32 \<Rightarrow> kstate \<Rightarrow> (int \<times> kstate) option" where
  "virtual_namespace_alloc p addr sz s = do {
     ok \<leftarrow> layout_all_null s p (hslots addr sz);
     if \<not> ok then Some (0, s)
     else do {
       s \<leftarrow> fold_opt (layout_set p (Some p)) (hslots addr sz) s;
       Some (1, s) } }"

definition virtual_namespace_query :: "kstate \<Rightarrow> u32 \<Rightarrow> nat \<Rightarrow> spdp option" where
  "virtual_namespace_query s addr v = virtual_spd_layout (vas_list s v) (pgd_index addr)"

text \<open>The ownership check; its bound adds the number of slots, not the size, to the address.\<close>

partial_function (option) virtual_namespace_free_loop :: "kstate \<Rightarrow> spdp \<Rightarrow> u32 \<Rightarrow> u32 \<Rightarrow> bool option" where
  "virtual_namespace_free_loop s p a end =
     (if a < end
      then do {
        v \<leftarrow> composite_vas (spds s p);
        c_assert (v < MAX_VAS_NUM);
        if virtual_namespace_query s a v \<noteq> Some p then Some False
        else virtual_namespace_free_loop s p (a + HPAGE_SIZE) end }
      else Some True)"

definition virtual_namespace_free :: "spdp \<Rightarrow> u32 \<Rightarrow> u32 \<Rightarrow> kstate \<Rightarrow> (int \<times> kstate) option" where
  "virtual_namespace_free p addr sz s = do {
     ok \<leftarrow> virtual_namespace_free_loop s p addr (addr + drop_bit HPAGE_SHIFT sz);
     if \<not> ok then Some (0, s)
     else do {
       s \<leftarrow> fold_opt (layout_set p None) (hslots addr sz) s;
       Some (1, s) } }"

subsection \<open>Creating and deleting address spaces\<close>

definition vas_ref :: "int \<Rightarrow> nat option" where
  "vas_ref i = (if 0 \<le> i \<and> i < int MAX_VAS_NUM then Some (nat i) else None)"

text \<open>The table is read at \<^verbatim>\<open>cur_num_vases\<close> before the limit is checked.\<close>

definition vas_new :: "kstate \<Rightarrow> (int \<times> kstate) option" where
  "vas_new s = do {
     v \<leftarrow> vas_ref (cur_num_vases s);
     let new_vas = vas_list s v;
     if cur_num_vases s \<ge> int MAX_VAS_NUM then Some (-1, s)
     else do {
       let new_vas = fold (\<lambda>i a. a\<lparr>virtual_spd_layout := (virtual_spd_layout a)(i := None)\<rparr>) [0..<PGD_PER_PTBL] new_vas;
       let new_vas = new_vas\<lparr>start_addr := 0\<rparr>;
       let new_vas = new_vas\<lparr>vas_id := cur_num_vases s\<rparr>;
       let s = upd_vas v (\<lambda>_. new_vas) s;
       let s = s\<lparr>cur_num_vases := cur_num_vases s + 1\<rparr>;
       c_assert (cur_num_vases s > vas_id new_vas);
       Some (vas_id new_vas, s) } }"

text \<open>The assertion of the loop assigns: its value is the index itself, so it fails for index 0.\<close>

definition vas_delete :: "int \<Rightarrow> kstate \<Rightarrow> (int \<times> kstate) option" where
  "vas_delete vid s = do {
     s \<leftarrow> fold_opt (\<lambda>i s. do {
            v \<leftarrow> vas_ref i;
            let s = upd_vas v (\<lambda>_. vas_list s (v + 1)) s;
            let s = upd_vas v (\<lambda>a. a\<lparr>vas_id := i\<rparr>) s;
            let s = upd_vas v (\<lambda>a. a\<lparr>vas_id := i\<rparr>) s;
            c_assert (i \<noteq> 0);
            Some s }) [vid..min (cur_num_vases s) (int MAX_VAS_NUM - 1) - 1] s;
     Some (1, s\<lparr>cur_num_vases := cur_num_vases s - 1\<rparr>) }"

text \<open>
  \<^verbatim>\<open>the_vas\<close> is a copy of the table entry: the slots written in the loops are lost when the functions
  return.  (The index \<^verbatim>\<open>vaddr\<close> of \<^verbatim>\<open>vas_spd_add\<close> is undeclared in the source; it is \<^verbatim>\<open>adj\<close>, computed in
  the line before, as in \<^verbatim>\<open>vas_spd_remove\<close>.)
\<close>

definition set_slots :: "spd \<Rightarrow> spdp option \<Rightarrow> vas \<Rightarrow> vas option" where
  "set_slots x q the_vas = fold_opt (\<lambda>i a. do {
     let slot = pgd_index (lowest_addr (location x i));
     let a = a\<lparr>virtual_spd_layout := (virtual_spd_layout a)(slot := q)\<rparr>;
     c_assert (virtual_spd_layout a slot = q);
     Some a }) [0..<MAX_SPD_VAS_LOCATIONS] the_vas"

definition vas_spd_add :: "int \<Rightarrow> spdp \<Rightarrow> kstate \<Rightarrow> (int \<times> kstate) option" where
  "vas_spd_add vid p s = do {
     v \<leftarrow> vas_ref vid;
     let the_vas = vas_list s v;
     c_assert (vas_id the_vas = vid);
     the_vas \<leftarrow> set_slots (spds s p) (Some p) the_vas;
     Some (1, upd_spd p (\<lambda>x. x\<lparr>composite_vas := Some v\<rparr>) s) }"

definition vas_spd_remove :: "int \<Rightarrow> spdp \<Rightarrow> kstate \<Rightarrow> (int \<times> kstate) option" where
  "vas_spd_remove vid p s = do {
     v \<leftarrow> vas_ref vid;
     let the_vas = vas_list s v;
     the_vas \<leftarrow> set_slots (spds s p) None the_vas;
     Some (1, upd_spd p (\<lambda>x. x\<lparr>composite_vas := None\<rparr>) s) }"

definition vas_expand :: "int \<Rightarrow> spdp \<Rightarrow> kstate \<Rightarrow> (int \<times> kstate) option" where
  "vas_expand vid p s = vas_spd_add vid p s"

definition vas_retract :: "int \<Rightarrow> spdp \<Rightarrow> kstate \<Rightarrow> (int \<times> kstate) option" where
  "vas_retract vid p s = do {
     (r, s) \<leftarrow> vas_spd_remove vid p s;
     (r', s) \<leftarrow> vas_spd_add vid p s;
     Some (if r' \<noteq> 0 \<and> r \<noteq> 0 then 1 else 0, s) }"

subsection \<open>Layout lemmas\<close>

definition layout_of :: "kstate \<Rightarrow> nat \<Rightarrow> nat \<Rightarrow> spdp option" where
  "layout_of s v = virtual_spd_layout (vas_list s v)"

definition fill :: "nat list \<Rightarrow> 'a \<Rightarrow> (nat \<Rightarrow> 'a) \<Rightarrow> nat \<Rightarrow> 'a" where
  "fill js x f = (\<lambda>i. if i \<in> set js then x else f i)"

lemma fill_Nil [simp]: "fill [] x f = f"
  by (simp add: fill_def)

lemma fill_upd: "fill js x (f(i := x)) = fill (i # js) x f"
  by (auto simp: fill_def)

lemma upd_vas_simps [simp]:
  "vas_list (upd_vas v f s) w = (if w = v then f (vas_list s v) else vas_list s w)"
  "spds (upd_vas v f s) = spds s" "cur_num_vases (upd_vas v f s) = cur_num_vases s"
  by (simp_all add: upd_vas_def)

lemma layout_all_null_iff:
  assumes "composite_vas (spds s p) = Some v" "v < MAX_VAS_NUM" "\<forall>i \<in> set is. i < PGD_PER_PTBL"
  shows "layout_all_null s p is = Some (\<forall>i \<in> set is. layout_of s v i = None)"
  using assms(3) by (induction "is") (auto simp: layout_get_def assms(1,2) layout_of_def)

lemma layout_set_fold:
  assumes "composite_vas (spds s p) = Some v" "v < MAX_VAS_NUM" "\<forall>i \<in> set is. i < PGD_PER_PTBL"
  shows "fold_opt (layout_set p x) is s =
    Some (upd_vas v (\<lambda>a. a\<lparr>virtual_spd_layout := fill is x (virtual_spd_layout a)\<rparr>) s)"
  using assms
proof (induction "is" arbitrary: s)
  case Nil
  show ?case by (simp add: upd_vas_def)
next
  case (Cons i "is")
  let ?s = "upd_vas v (\<lambda>a. a\<lparr>virtual_spd_layout := (virtual_spd_layout a)(i := x)\<rparr>) s"
  from Cons.IH [of ?s] Cons.prems show ?case
    by (simp add: layout_set_def) (simp add: upd_vas_def fill_upd)
qed

lemma hslots_bound: "unat (drop_bit HPAGE_SHIFT addr) + unat (drop_bit HPAGE_SHIFT sz) \<le> PGD_PER_PTBL \<Longrightarrow>
    \<forall>i \<in> set (hslots addr sz). i < PGD_PER_PTBL"
  by (auto simp: hslots_def pgd_index_def)

lemma virtual_namespace_alloc_eq:
  assumes "composite_vas (spds s p) = Some v" "v < MAX_VAS_NUM"
    "unat (drop_bit HPAGE_SHIFT addr) + unat (drop_bit HPAGE_SHIFT sz) \<le> PGD_PER_PTBL"
  shows "virtual_namespace_alloc p addr sz s =
    Some (if \<forall>i \<in> set (hslots addr sz). layout_of s v i = None
          then (1, upd_vas v (\<lambda>a. a\<lparr>virtual_spd_layout := fill (hslots addr sz) (Some p) (virtual_spd_layout a)\<rparr>) s)
          else (0, s))"
  using assms hslots_bound [OF assms(3)]
  by (simp add: virtual_namespace_alloc_def layout_all_null_iff layout_set_fold)

lemma drop_bit_small: "unat (drop_bit HPAGE_SHIFT (sz :: u32)) < 1024"
proof -
  have "unat (drop_bit 22 sz) = unat sz div 2 ^ 22" by (rule trans [OF unat_drop_bit_eq]) (simp only: drop_bit_eq_div)
  moreover have "unat sz < 2 ^ 32" using unsigned_less [of sz] by simp
  ultimately show ?thesis by (simp add: kconsts)
qed

lemma virtual_namespace_free_loop_eq:
  assumes "composite_vas (spds s p) = Some v" "v < MAX_VAS_NUM" "addr < 0xFFC00000"
  shows "virtual_namespace_free_loop s p addr (addr + drop_bit HPAGE_SHIFT sz) =
    Some (drop_bit HPAGE_SHIFT sz = 0 \<or> layout_of s v (pgd_index addr) = Some p)"
proof -
  let ?k = "drop_bit HPAGE_SHIFT sz"
  have a: "unat addr < 0xFFC00000" using assms(3) by (simp add: word_less_nat_alt)
  then have e: "unat (addr + ?k) = unat addr + unat ?k"
    using drop_bit_small [of sz] by (simp add: unat_word_ariths)
  have h: "unat (addr + HPAGE_SIZE) = unat addr + 0x400000"
    using a by (simp add: unat_word_ariths HPAGE_SIZE_def)
  have "\<not> addr + HPAGE_SIZE < addr + ?k"
    using e h drop_bit_small [of sz] by (simp add: word_less_nat_alt)
  then have stop: "virtual_namespace_free_loop s p (addr + HPAGE_SIZE) (addr + ?k) = Some True"
    by (subst virtual_namespace_free_loop.simps) simp
  have "addr < addr + ?k \<longleftrightarrow> ?k \<noteq> 0"
    using e by (simp add: word_less_nat_alt flip: unat_eq_0)
  then show ?thesis
    using assms(1,2) stop
    by (subst virtual_namespace_free_loop.simps) (simp add: virtual_namespace_query_def layout_of_def)
qed

lemma virtual_namespace_free_eq:
  assumes "composite_vas (spds s p) = Some v" "v < MAX_VAS_NUM" "addr < 0xFFC00000"
    "unat (drop_bit HPAGE_SHIFT addr) + unat (drop_bit HPAGE_SHIFT sz) \<le> PGD_PER_PTBL"
    "drop_bit HPAGE_SHIFT sz = 0 \<or> layout_of s v (pgd_index addr) = Some p"
  shows "virtual_namespace_free p addr sz s =
    Some (1, upd_vas v (\<lambda>a. a\<lparr>virtual_spd_layout := fill (hslots addr sz) None (virtual_spd_layout a)\<rparr>) s)"
  using assms hslots_bound [OF assms(4)]
  by (simp add: virtual_namespace_free_def virtual_namespace_free_loop_eq layout_set_fold)

lemma fill_apply [simp]: "fill js x f i = (if i \<in> set js then x else f i)"
  by (simp add: fill_def)

lemma set_slots_total: "\<exists>a. set_slots x q v = Some a"
  using fold_opt_total [where P = "\<lambda>_. True" and s = v] unfolding set_slots_def by fastforce

subsection \<open>Properties\<close>


definition vas_example :: kstate where
  "vas_example = upd_spd 4 (\<lambda>x. x\<lparr>composite_vas := Some 0\<rparr>) (upd_vas 0 (\<lambda>a. a\<lparr>virtual_spd_layout :=
     (virtual_spd_layout a)(0x103 := Some 7)\<rparr>) (zero_kstate\<lparr>cur_num_vases := 1\<rparr>))"


text \<open>
  \<^verbatim>\<open>virtual_namespace_free\<close> undoes \<^verbatim>\<open>virtual_namespace_alloc\<close>: after a successful allocation below the
  last 4 MB, freeing the same stretch succeeds and restores every layout.
\<close>

theorem virtual_namespace_alloc_free:
  assumes "composite_vas (spds s p) = Some v" "v < MAX_VAS_NUM" "addr < 0xFFC00000"
    "unat (drop_bit HPAGE_SHIFT addr) + unat (drop_bit HPAGE_SHIFT sz) \<le> PGD_PER_PTBL"
    and alloc: "virtual_namespace_alloc p addr sz s = Some (1, s')"
  shows "\<exists>s''. virtual_namespace_free p addr sz s' = Some (1, s'') \<and> layout_of s'' = layout_of s"
proof -
  from alloc virtual_namespace_alloc_eq [OF assms(1,2,4)]
  have free: "\<forall>i \<in> set (hslots addr sz). layout_of s v i = None"
    and s': "s' = upd_vas v (\<lambda>a. a\<lparr>virtual_spd_layout := fill (hslots addr sz) (Some p) (virtual_spd_layout a)\<rparr>) s"
    by (auto split: if_splits)
  have "drop_bit HPAGE_SHIFT sz = 0 \<or> pgd_index addr \<in> set (hslots addr sz)"
    by (auto simp: hslots_def simp flip: unat_eq_0)
  then have own: "drop_bit HPAGE_SHIFT sz = 0 \<or> layout_of s' v (pgd_index addr) = Some p"
    by (auto simp: s' layout_of_def)
  have "composite_vas (spds s' p) = Some v" by (simp add: s' assms(1))
  from virtual_namespace_free_eq [OF this assms(2-4) own]
  show ?thesis using free by (auto simp: s' layout_of_def fun_eq_iff)
qed

theorem virtual_namespace_alloc_free_witness:
  "\<exists>s' s''. virtual_namespace_alloc 4 0x40000000 0x800000 vas_example = Some (1, s')
      \<and> virtual_namespace_free 4 0x40000000 0x800000 s' = Some (1, s'') \<and> layout_of s'' = layout_of vas_example"
proof -
  have v: "composite_vas (spds vas_example 4) = Some 0" "0 < MAX_VAS_NUM"
    by (simp_all add: vas_example_def kconsts)
  have b: "unat (drop_bit HPAGE_SHIFT (0x40000000 :: u32)) + unat (drop_bit HPAGE_SHIFT (0x800000 :: u32)) \<le> PGD_PER_PTBL"
    by (simp add: kconsts)
  have h: "hslots 0x40000000 0x800000 = [0x100, 0x101]"
    by (simp add: hslots_def pgd_index_def kconsts upt_rec)
  have l: "layout_of vas_example 0 i = (if i = 0x103 then Some 7 else None)" for i
    by (simp add: layout_of_def vas_example_def zero_kstate_def zero_vas_def upd_spd_def upd_vas_def)
  obtain s' where "virtual_namespace_alloc 4 0x40000000 0x800000 vas_example = Some (1, s')"
    using virtual_namespace_alloc_eq [OF v b] by (auto simp: h l)
  with virtual_namespace_alloc_free [OF v _ b this] show ?thesis by auto
qed

text \<open>
  \<^verbatim>\<open>virtual_namespace_free\<close> is meant to check that the component owns the whole stretch, but its loop
  stops after the first slot: whoever owns the first slot can free any stretch that starts there, and
  all slots of it become empty, also those of other components.
\<close>

theorem virtual_namespace_free_checks_first_slot:
  assumes "composite_vas (spds s p) = Some v" "v < MAX_VAS_NUM" "addr < 0xFFC00000"
    "unat (drop_bit HPAGE_SHIFT addr) + unat (drop_bit HPAGE_SHIFT sz) \<le> PGD_PER_PTBL"
    "layout_of s v (pgd_index addr) = Some p"
  shows "\<exists>s'. virtual_namespace_free p addr sz s = Some (1, s')
    \<and> (\<forall>i. layout_of s' v i = (if i \<in> set (hslots addr sz) then None else layout_of s v i))"
  using virtual_namespace_free_eq [OF assms(1-4)] assms(5) by (auto simp: layout_of_def)

theorem virtual_namespace_free_checks_first_slot_witness:
  "\<exists>s s'. layout_of s 0 0x103 = Some 7 \<and> virtual_namespace_free 4 0x40800000 0x800000 s = Some (1, s')
      \<and> layout_of s' 0 0x103 = None"
proof -
  define s where "s = upd_vas 0 (\<lambda>a. a\<lparr>virtual_spd_layout := (virtual_spd_layout a)(0x102 := Some 4)\<rparr>) vas_example"
  have v: "composite_vas (spds s 4) = Some 0" "0 < MAX_VAS_NUM"
    by (simp_all add: s_def vas_example_def kconsts)
  have h: "hslots 0x40800000 0x800000 = [0x102, 0x103]"
    by (simp add: hslots_def pgd_index_def kconsts upt_rec)
  have l: "layout_of s 0 0x103 = Some 7" "layout_of s 0 (pgd_index 0x40800000) = Some 4"
    by (simp_all add: s_def layout_of_def vas_example_def upd_spd_def upd_vas_def pgd_index_def kconsts)
  from virtual_namespace_free_checks_first_slot [OF v, where addr = "0x40800000" and sz = "0x800000"] l
  show ?thesis by (auto simp: h kconsts)
qed

text \<open>
  Address space 0 can never be deleted while one exists: the assertion in the loop of
  \<^verbatim>\<open>vas_delete\<close> assigns instead of comparing and fails for index 0; and \<^verbatim>\<open>vas_new\<close> on a full table reads
  past its end before it checks the limit.
\<close>

theorem vas_delete_zero_fails:
  assumes "0 < cur_num_vases s"
  shows "vas_delete 0 s = None \<and> (cur_num_vases s = int MAX_VAS_NUM \<longrightarrow> vas_new s = None)"
proof -
  have "[0..min (cur_num_vases s) (int MAX_VAS_NUM - 1) - 1] = [0]"
    using assms by (simp add: kconsts min_def upto_rec1)
  then show ?thesis by (simp add: vas_delete_def vas_new_def vas_ref_def kconsts)
qed

theorem vas_delete_zero_fails_witness:
  "vas_delete 0 (zero_kstate\<lparr>cur_num_vases := 2\<rparr>) = None \<and> vas_new (zero_kstate\<lparr>cur_num_vases := 2\<rparr>) = None"
  using vas_delete_zero_fails [of "zero_kstate\<lparr>cur_num_vases := 2\<rparr>"] by (simp add: kconsts)

text \<open>
  \<^verbatim>\<open>vas_spd_add\<close> writes the slots of the component into a copy of the address space and drops the
  copy: the call succeeds and records the address space in the component, but no layout changes, so
  \<^verbatim>\<open>virtual_namespace_query\<close> still answers as before for every address.
\<close>

theorem vas_spd_add_layout_lost:
  assumes "0 \<le> vid" "vid < int MAX_VAS_NUM" "vas_id (vas_list s (nat vid)) = vid"
  shows "\<exists>s'. vas_spd_add vid p s = Some (1, s') \<and> composite_vas (spds s' p) = Some (nat vid)
    \<and> (\<forall>addr w. virtual_namespace_query s' addr w = virtual_namespace_query s addr w)"
proof -
  obtain a where "set_slots (spds s p) (Some p) (vas_list s (nat vid)) = Some a"
    using set_slots_total by blast
  with assms show ?thesis
    by (simp add: vas_spd_add_def vas_ref_def virtual_namespace_query_def)
qed

theorem vas_spd_add_layout_lost_witness:
  "\<exists>s'. vas_spd_add 0 4 zero_kstate = Some (1, s') \<and> virtual_namespace_query s' 0x40000000 0 = None"
  using vas_spd_add_layout_lost [of 0 zero_kstate 4]
  by (auto simp: kconsts zero_kstate_def zero_vas_def virtual_namespace_query_def)

end
