(* ===== verification/Composite_Spd.thy ===== *)
theory Composite_Spd
  imports Vas
begin

text \<open>
  Composite protection domains (\<^verbatim>\<open>kernel/spd.c\<close>, \<^verbatim>\<open>kernel/include/spd.h\<close>): the reference-counted
  descriptors \<^verbatim>\<open>mpd_descriptors\<close> with their free list, the ring of member components of each, the change
  of the isolation level of the capabilities between members, and the subordination of one composite
  to another that took over its members.
\<close>

subsection \<open>Flags and reference counts\<close>

definition poly_flags :: "kstate \<Rightarrow> spd_poly \<Rightarrow> u32" where
  "poly_flags s q = (case q of PSpd p \<Rightarrow> s_flags (spds s p) | PCspd c \<Rightarrow> c_flags (mpd_descriptors s c))"

definition poly_pg_tbl :: "kstate \<Rightarrow> spd_poly \<Rightarrow> paddr" where
  "poly_pg_tbl s q = (case q of PSpd p \<Rightarrow> s_pg_tbl (spds s p) | PCspd c \<Rightarrow> c_pg_tbl (mpd_descriptors s c))"

definition spd_is_scheduler :: "kstate \<Rightarrow> spdp \<Rightarrow> bool" where
  "spd_is_scheduler s p \<longleftrightarrow> sched_depth (spds s p) \<ge> 0"

definition spd_is_root_sched :: "kstate \<Rightarrow> spdp \<Rightarrow> bool" where
  "spd_is_root_sched s p \<longleftrightarrow> sched_depth (spds s p) = 0"

definition spd_is_member :: "kstate \<Rightarrow> spdp \<Rightarrow> cspdp \<Rightarrow> bool" where
  "spd_is_member s p c \<longleftrightarrow> s_composite_spd (spds s p) = PCspd c"

definition spd_is_composite :: "kstate \<Rightarrow> spd_poly \<Rightarrow> bool" where
  "spd_is_composite s q \<longleftrightarrow> has (poly_flags s q) SPD_COMPOSITE"

definition spd_is_active :: "kstate \<Rightarrow> spdp \<Rightarrow> bool" where
  "spd_is_active s p \<longleftrightarrow> s_flags (spds s p) OR SPD_ACTIVE \<noteq> 0"

definition spd_make_active :: "spdp \<Rightarrow> kstate \<Rightarrow> kstate" where
  "spd_make_active p s = upd_spd p (\<lambda>x. x\<lparr>s_flags := s_flags x OR SPD_ACTIVE\<rparr>) s"

definition spd_mpd_is_depricated :: "kstate \<Rightarrow> cspdp \<Rightarrow> bool" where
  "spd_mpd_is_depricated s c \<longleftrightarrow> has (c_flags (mpd_descriptors s c)) SPD_DEPRICATED"

definition spd_mpd_is_subordinate :: "kstate \<Rightarrow> cspdp \<Rightarrow> bool" where
  "spd_mpd_is_subordinate s c \<longleftrightarrow> has (c_flags (mpd_descriptors s c)) SPD_SUBORDINATE"

definition spd_mpd_reset_flags :: "cspdp \<Rightarrow> kstate \<Rightarrow> kstate" where
  "spd_mpd_reset_flags c s = upd_mpd c (\<lambda>x. x\<lparr>c_flags := 0\<rparr>) s"

definition spd_mpd_set_flags :: "cspdp \<Rightarrow> u32 \<Rightarrow> kstate \<Rightarrow> kstate" where
  "spd_mpd_set_flags c fl s = upd_mpd c (\<lambda>x. x\<lparr>c_flags := c_flags x OR fl\<rparr>) s"

definition spd_mpd_remove_flags :: "cspdp \<Rightarrow> u32 \<Rightarrow> kstate \<Rightarrow> kstate" where
  "spd_mpd_remove_flags c fl s = upd_mpd c (\<lambda>x. x\<lparr>c_flags := c_flags x AND NOT fl\<rparr>) s"

definition spd_mpd_take :: "cspdp \<Rightarrow> kstate \<Rightarrow> kstate" where
  "spd_mpd_take c s = upd_mpd c (\<lambda>x. x\<lparr>c_ref_cnt := c_ref_cnt x + 1\<rparr>) s"

definition spd_mpd_ipc_take :: "cspdp \<Rightarrow> kstate \<Rightarrow> kstate" where
  "spd_mpd_ipc_take c s = spd_mpd_take c s"

subsection \<open>Descriptors\<close>

definition spd_init_mpd_descriptors :: "kstate \<Rightarrow> kstate" where
  "spd_init_mpd_descriptors s =
     (let s = s\<lparr>mpd_freelist := Some 0\<rparr>;
          s = fold (\<lambda>i s. let s = spd_mpd_reset_flags i s;
                               s = spd_mpd_set_flags i (SPD_COMPOSITE OR SPD_FREE) s
                           in upd_mpd i (\<lambda>x. x\<lparr>c_ref_cnt := 0, c_next := Some (i + 1), members := None,
                                master_spd := None, c_prev := None\<rparr>) s) [0..<MAX_MPD_DESC] s
      in upd_mpd (MAX_MPD_DESC - 1) (\<lambda>x. x\<lparr>c_next := None\<rparr>) s)"

text \<open>Only the upper limit is checked; a negative index is not a valid pointer.\<close>

definition spd_mpd_by_idx :: "int \<Rightarrow> cspdp option option" where
  "spd_mpd_by_idx idx =
     (if idx \<ge> int MAX_MPD_DESC then Some None else if idx < 0 then None else Some (Some (nat idx)))"

definition spd_mpd_index :: "cspdp \<Rightarrow> int" where
  "spd_mpd_index c = (if c \<ge> MAX_MPD_DESC then -1 else int c)"

definition spd_alloc_pgtbl :: "kstate \<Rightarrow> (paddr \<times> kstate) option" where
  "spd_alloc_pgtbl s = do {
     (page, s) \<leftarrow> cos_get_pg_pool s;
     if page = 0 then Some (0, s)
     else do {
       let pp = va_to_pa page;
       s \<leftarrow> copy_pgtbl_range_nocheck pp (va_to_pa (kern_pgtbl_mapping s)) 0 0xFFFFFFFF s;
       c_assert (\<not> pgtbl_entry_absent s pp COS_INFO_REGION_ADDR);
       Some (pp, s) } }"

definition spd_free_pgtbl :: "paddr \<Rightarrow> kstate \<Rightarrow> kstate option" where
  "spd_free_pgtbl pa s = cos_put_pg_pool (pa_to_va pa) s"

definition spd_alloc_mpd_desc :: "kstate \<Rightarrow> (int \<times> kstate) option" where
  "spd_alloc_mpd_desc s =
     (case mpd_freelist s of None \<Rightarrow> Some (-1, s)
      | Some new \<Rightarrow> do {
          let fc = SPD_FREE OR SPD_COMPOSITE;
          c_assert (c_flags (mpd_descriptors s new) AND fc = fc);
          c_assert (c_ref_cnt (mpd_descriptors s new) = 0);
          c_assert (members (mpd_descriptors s new) = None);
          let s = s\<lparr>mpd_freelist := c_next (mpd_descriptors s new)\<rparr>;
          let s = upd_mpd new (\<lambda>x. x\<lparr>c_next := Some new, c_prev := Some new, master_spd := None, members := None\<rparr>) s;
          let s = spd_mpd_remove_flags new SPD_FREE s;
          (pgtbl, s) \<leftarrow> spd_alloc_pgtbl s;
          if pgtbl = 0
          then let s = spd_mpd_set_flags new SPD_FREE s;
                   s = upd_mpd new (\<lambda>x. x\<lparr>c_next := mpd_freelist s, c_prev := None\<rparr>) s
               in Some (-1, s\<lparr>mpd_freelist := Some new\<rparr>)
          else let s = spd_mpd_take new s;
                   s = upd_mpd new (\<lambda>x. x\<lparr>c_pg_tbl := pgtbl\<rparr>) s
               in Some (spd_mpd_index new, s) })"

definition spd_alloc_mpd :: "kstate \<Rightarrow> (cspdp option \<times> kstate) option" where
  "spd_alloc_mpd s = do {
     (d, s) \<leftarrow> spd_alloc_mpd_desc s;
     c \<leftarrow> spd_mpd_by_idx d;
     Some (c, s) }"

text \<open>Freeing a descriptor: it leaves the ring of subordinates and enters the free list.\<close>

definition mpd_unlink :: "cspdp \<Rightarrow> kstate \<Rightarrow> kstate option" where
  "mpd_unlink c s = do {
     n \<leftarrow> c_next (mpd_descriptors s c);
     let s = upd_mpd n (\<lambda>x. x\<lparr>c_prev := c_prev (mpd_descriptors s c)\<rparr>) s;
     p \<leftarrow> c_prev (mpd_descriptors s c);
     let s = upd_mpd p (\<lambda>x. x\<lparr>c_next := c_next (mpd_descriptors s c)\<rparr>) s;
     let s = upd_mpd c (\<lambda>x. x\<lparr>c_next := mpd_freelist s, c_prev := None\<rparr>) s;
     Some (s\<lparr>mpd_freelist := Some c\<rparr>) }"

partial_function (option) spd_mpd_release :: "cspdp \<Rightarrow> kstate \<Rightarrow> kstate option" where
  "spd_mpd_release c s = do {
     let s = upd_mpd c (\<lambda>x. x\<lparr>c_ref_cnt := c_ref_cnt x - 1\<rparr>) s;
     if c_ref_cnt (mpd_descriptors s c) = 0 then do {
       c_assert (members (mpd_descriptors s c) = None);
       c_assert (spd_mpd_is_depricated s c \<or> spd_mpd_is_subordinate s c);
       s \<leftarrow> mpd_unlink c s;
       s \<leftarrow> (case master_spd (mpd_descriptors s c) of
               Some m \<Rightarrow> do {
                 c_assert (spd_mpd_is_subordinate s c);
                 s \<leftarrow> spd_mpd_release m s;
                 Some (upd_mpd c (\<lambda>x. x\<lparr>master_spd := None\<rparr>) s) }
             | None \<Rightarrow> do {
                 s \<leftarrow> cos_put_pg_pool (pa_to_va (c_pg_tbl (mpd_descriptors s c))) s;
                 Some (upd_mpd c (\<lambda>x. x\<lparr>c_pg_tbl := 0\<rparr>) s) });
       let s = spd_mpd_reset_flags c s;
       Some (spd_mpd_set_flags c (SPD_FREE OR SPD_COMPOSITE) s) }
     else Some s }"

definition spd_mpd_ipc_release :: "cspdp \<Rightarrow> kstate \<Rightarrow> kstate option" where
  "spd_mpd_ipc_release c s = spd_mpd_release c s"

definition spd_mpd_depricate :: "cspdp \<Rightarrow> kstate \<Rightarrow> kstate option" where
  "spd_mpd_depricate c s = spd_mpd_release c (spd_mpd_set_flags c SPD_DEPRICATED s)"

definition spd_mpd_release_desc :: "int \<Rightarrow> kstate \<Rightarrow> kstate option" where
  "spd_mpd_release_desc desc s = do {
     c_assert (desc < int MAX_MPD_DESC);
     c_assert (0 \<le> desc);
     spd_mpd_release (nat desc) s }"

subsection \<open>Subordinate composites\<close>

text \<open>One turn of the loop for \<^verbatim>\<open>n\<close>, and the loop until \<^verbatim>\<open>n\<close> is back at \<^verbatim>\<open>s\<close> (here \<open>sub\<close>).\<close>

partial_function (option) spd_mpd_subordinate_loop :: "cspdp \<Rightarrow> cspdp \<Rightarrow> paddr \<Rightarrow> cspdp \<Rightarrow> kstate \<Rightarrow> kstate option" where
  "spd_mpd_subordinate_loop sub m pt n s = do {
     c_assert (spd_mpd_is_subordinate s n);
     let old_m = master_spd (mpd_descriptors s n);
     c_assert (old_m \<noteq> Some m);
     c_assert (old_m = None \<or> old_m = Some sub);
     let s = upd_mpd n (\<lambda>x. x\<lparr>master_spd := Some m, c_pg_tbl := pt\<rparr>) s;
     let s = spd_mpd_take m s;
     n \<leftarrow> c_next (mpd_descriptors s n);
     s \<leftarrow> (case old_m of None \<Rightarrow> Some s | Some om \<Rightarrow> spd_mpd_release om s);
     if n \<noteq> sub then spd_mpd_subordinate_loop sub m pt n s else Some s }"

definition spd_mpd_subordinate :: "cspdp \<Rightarrow> cspdp \<Rightarrow> kstate \<Rightarrow> kstate option" where
  "spd_mpd_subordinate sub m s = do {
     c_assert (\<not> spd_mpd_is_subordinate s m);
     c_assert (\<not> spd_mpd_is_depricated s sub \<and> \<not> spd_mpd_is_depricated s m);
     let pt = c_pg_tbl (mpd_descriptors s m);
     s \<leftarrow> spd_mpd_subordinate_loop sub m pt sub s;
     c_assert (members (mpd_descriptors s sub) = None);
     p \<leftarrow> c_prev (mpd_descriptors s m);
     e \<leftarrow> c_prev (mpd_descriptors s sub);
     let s = upd_mpd m (\<lambda>x. x\<lparr>c_prev := Some e\<rparr>) s;
     let s = upd_mpd e (\<lambda>x. x\<lparr>c_next := Some m\<rparr>) s;
     let s = upd_mpd sub (\<lambda>x. x\<lparr>c_prev := Some p\<rparr>) s;
     Some (upd_mpd p (\<lambda>x. x\<lparr>c_next := Some sub\<rparr>) s) }"

partial_function (option) num_members_loop :: "kstate \<Rightarrow> cspdp \<Rightarrow> nat \<Rightarrow> spdp \<Rightarrow> nat option" where
  "num_members_loop s c n iter = do {
     let n = n + 1;
     let nxt = composite_member_next (spds s iter);
     if nxt = members (mpd_descriptors s c) then Some n
     else do { iter \<leftarrow> nxt; num_members_loop s c n iter } }"

definition spd_composite_num_members :: "kstate \<Rightarrow> cspdp \<Rightarrow> nat option" where
  "spd_composite_num_members s c =
     (case members (mpd_descriptors s c) of None \<Rightarrow> Some 0 | Some iter \<Rightarrow> num_members_loop s c 0 iter)"

definition spd_mpd_make_subordinate :: "cspdp \<Rightarrow> cspdp \<Rightarrow> kstate \<Rightarrow> kstate option" where
  "spd_mpd_make_subordinate master_cspd slave_cspd s = do {
     c_assert (\<not> spd_mpd_is_subordinate s slave_cspd \<and> \<not> spd_mpd_is_subordinate s master_cspd);
     n \<leftarrow> spd_composite_num_members s slave_cspd;
     c_assert (n = 0);
     c_assert (\<not> spd_mpd_is_depricated s master_cspd \<and> \<not> spd_mpd_is_depricated s slave_cspd);
     c_assert (c_ref_cnt (mpd_descriptors s slave_cspd) \<noteq> 0);
     let s = spd_mpd_set_flags slave_cspd SPD_SUBORDINATE s;
     s \<leftarrow> (if 1 < c_ref_cnt (mpd_descriptors s slave_cspd) then do {
             s \<leftarrow> cos_put_pg_pool (pa_to_va (c_pg_tbl (mpd_descriptors s slave_cspd))) s;
             spd_mpd_subordinate slave_cspd master_cspd s }
           else do { c_assert (members (mpd_descriptors s slave_cspd) = None); Some s });
     spd_mpd_release slave_cspd s }"

definition spd_mpd_free_all :: "kstate \<Rightarrow> kstate option" where
  "spd_mpd_free_all s = do {
     s \<leftarrow> fold_opt (\<lambda>i s.
            if \<not> has (c_flags (mpd_descriptors s i)) SPD_FREE \<and> \<not> spd_mpd_is_subordinate s i then do {
              s \<leftarrow> cos_put_pg_pool (pa_to_va (c_pg_tbl (mpd_descriptors s i))) s;
              Some (upd_mpd i (\<lambda>x. x\<lparr>c_pg_tbl := 0\<rparr>) s) }
            else Some s) [0..<MAX_MPD_DESC] s;
     Some (spd_init_mpd_descriptors s) }"

partial_function (option) spd_mpd_terminate_loop :: "cspdp \<Rightarrow> spdp \<Rightarrow> kstate \<Rightarrow> kstate option" where
  "spd_mpd_terminate_loop c p s = do {
     let nxt = composite_member_next (spds s p);
     let s = upd_spd p (\<lambda>x. x\<lparr>s_composite_spd := PSpd p, composite_member_next := Some p,
       composite_member_prev := Some p\<rparr>) s;
     q \<leftarrow> nxt;
     if Some q \<noteq> members (mpd_descriptors s c) then spd_mpd_terminate_loop c q s else Some s }"

definition spd_mpd_terminate :: "cspdp \<Rightarrow> kstate \<Rightarrow> kstate option" where
  "spd_mpd_terminate c s = do {
     s \<leftarrow> (case members (mpd_descriptors s c) of None \<Rightarrow> Some s | Some p \<Rightarrow> spd_mpd_terminate_loop c p s);
     let s = upd_mpd c (\<lambda>x. x\<lparr>members := None\<rparr>) s;
     spd_mpd_depricate c s }"

subsection \<open>Capabilities and mappings of the members\<close>

definition spd_in_composite :: "kstate \<Rightarrow> spdp \<Rightarrow> cspdp \<Rightarrow> bool" where
  "spd_in_composite s p c \<longleftrightarrow> spd_is_member s p c"

text \<open>The capabilities of a component after the first, which is the return capability.\<close>

definition caps_after_first :: "kstate \<Rightarrow> spdp \<Rightarrow> nat list" where
  "caps_after_first s p =
     (let lower = unat (cap_base (spds s p) + 1)
      in [lower..<lower + unat (cap_range (spds s p) - 1)])"

definition chg_il :: "u32 \<Rightarrow> nat \<Rightarrow> kstate \<Rightarrow> kstate option" where
  "chg_il lvl i s = do {
     (old, s) \<leftarrow> cap_change_isolation (int i) lvl 0 s;
     c_assert (old \<noteq> lvl \<and> old \<noteq> IL_INV);
     Some s }"

definition spd_chg_il_spd_to_all :: "spdp \<Rightarrow> cspdp \<Rightarrow> u32 \<Rightarrow> kstate \<Rightarrow> kstate option" where
  "spd_chg_il_spd_to_all p c lvl s =
     (if cap_range (spds s p) = 0 then Some s
      else fold_opt (\<lambda>i s. do {
             i \<leftarrow> cap_ref (int i);
             case destination (invocation_capabilities s i) of
               None \<Rightarrow> Some s
             | Some dest \<Rightarrow> if dest \<noteq> p \<and> spd_in_composite s dest c then chg_il lvl i s else Some s })
             (caps_after_first s p) s)"

text \<open>The body of the loop for one member, and the loop around the ring.\<close>

definition chg_il_member :: "spdp \<Rightarrow> u32 \<Rightarrow> spdp \<Rightarrow> kstate \<Rightarrow> kstate option" where
  "chg_il_member p lvl cur s =
     (if cap_range (spds s cur) \<le> 0 then Some s
      else fold_opt (\<lambda>i s. do {
             i \<leftarrow> cap_ref (int i);
             if destination (invocation_capabilities s i) = Some p
                \<and> owner (invocation_capabilities s i) \<noteq> Owner p
             then chg_il lvl i s else Some s })
             (caps_after_first s cur) s)"

partial_function (option) spd_chg_il_all_to_spd_loop :: "cspdp \<Rightarrow> spdp \<Rightarrow> u32 \<Rightarrow> spdp \<Rightarrow> kstate \<Rightarrow> kstate option" where
  "spd_chg_il_all_to_spd_loop c p lvl cur s = do {
     s \<leftarrow> chg_il_member p lvl cur s;
     cur \<leftarrow> composite_member_next (spds s cur);
     if Some cur \<noteq> members (mpd_descriptors s c) then spd_chg_il_all_to_spd_loop c p lvl cur s
     else Some s }"

definition spd_chg_il_all_to_spd :: "cspdp \<Rightarrow> spdp \<Rightarrow> u32 \<Rightarrow> kstate \<Rightarrow> kstate option" where
  "spd_chg_il_all_to_spd c p lvl s = do {
     c_assert (spd_is_composite s (PCspd c));
     case members (mpd_descriptors s c) of None \<Rightarrow> Some s
     | Some cur \<Rightarrow> spd_chg_il_all_to_spd_loop c p lvl cur s }"

definition spd_add_caps :: "cspdp \<Rightarrow> spdp \<Rightarrow> kstate \<Rightarrow> kstate option" where
  "spd_add_caps c p s = do { s \<leftarrow> spd_chg_il_all_to_spd c p IL_ST s; spd_chg_il_spd_to_all p c IL_ST s }"

definition spd_remove_caps :: "cspdp \<Rightarrow> spdp \<Rightarrow> kstate \<Rightarrow> kstate option" where
  "spd_remove_caps c p s = do { s \<leftarrow> spd_chg_il_all_to_spd c p IL_SDT s; spd_chg_il_spd_to_all p c IL_SDT s }"

definition spd_remove_mappings :: "cspdp \<Rightarrow> spdp \<Rightarrow> kstate \<Rightarrow> kstate option" where
  "spd_remove_mappings c p s =
     fold_opt (\<lambda>i s. let l = location (spds s p) i
                     in if loc_size l \<noteq> 0
                        then zero_pgtbl_range (c_pg_tbl (mpd_descriptors s c)) (lowest_addr l) (loc_size l) s
                        else Some s) [0..<MAX_SPD_VAS_LOCATIONS] s"

definition spd_add_mappings :: "cspdp \<Rightarrow> spdp \<Rightarrow> kstate \<Rightarrow> kstate option" where
  "spd_add_mappings c p s =
     fold_opt (\<lambda>i s. let l = location (spds s p) i
                     in if loc_size l \<noteq> 0
                        then copy_pgtbl_range (c_pg_tbl (mpd_descriptors s c)) (s_pg_tbl (spds s p))
                               (lowest_addr l) (loc_size l) s
                        else Some s) [0..<MAX_SPD_VAS_LOCATIONS] s"

subsection \<open>Adding, removing and moving members\<close>

text \<open>Linking a component in at the head of the ring, and out of it.\<close>

definition link_member :: "cspdp \<Rightarrow> spdp \<Rightarrow> kstate \<Rightarrow> kstate option" where
  "link_member c p s = do {
     s \<leftarrow> (case members (mpd_descriptors s c) of
             Some next \<Rightarrow> do {
               prev \<leftarrow> composite_member_prev (spds s next);
               let s = upd_spd p (\<lambda>x. x\<lparr>composite_member_next := Some next\<rparr>) s;
               let s = upd_spd p (\<lambda>x. x\<lparr>composite_member_prev := Some prev\<rparr>) s;
               let s = upd_spd prev (\<lambda>x. x\<lparr>composite_member_next := Some p\<rparr>) s;
               Some (upd_spd next (\<lambda>x. x\<lparr>composite_member_prev := Some p\<rparr>) s) }
           | None \<Rightarrow>
               Some (upd_spd p (\<lambda>x. x\<lparr>composite_member_next := Some p, composite_member_prev := Some p\<rparr>) s));
     let s = upd_mpd c (\<lambda>x. x\<lparr>members := Some p\<rparr>) s;
     Some (upd_spd p (\<lambda>x. x\<lparr>s_composite_spd := PCspd c\<rparr>) s) }"

definition unlink_member :: "cspdp \<Rightarrow> spdp \<Rightarrow> kstate \<Rightarrow> kstate option" where
  "unlink_member c p s = do {
     prev \<leftarrow> composite_member_prev (spds s p);
     next \<leftarrow> composite_member_next (spds s p);
     let s = upd_spd next (\<lambda>x. x\<lparr>composite_member_prev := Some prev\<rparr>) s;
     let s = upd_spd prev (\<lambda>x. x\<lparr>composite_member_next := Some next\<rparr>) s;
     let s = upd_spd p (\<lambda>x. x\<lparr>composite_member_prev := Some p, composite_member_next := Some p,
       s_composite_spd := PSpd p\<rparr>) s;
     Some (if members (mpd_descriptors s c) = Some p \<and> p = next
           then upd_mpd c (\<lambda>x. x\<lparr>members := None\<rparr>) s
           else if members (mpd_descriptors s c) = Some p
           then upd_mpd c (\<lambda>x. x\<lparr>members := Some next\<rparr>) s
           else s) }"

definition spd_composite_add_member :: "cspdp \<Rightarrow> spdp \<Rightarrow> kstate \<Rightarrow> (int \<times> kstate) option" where
  "spd_composite_add_member c p s = do {
     c_assert (\<not> spd_mpd_is_depricated s c);
     c_assert (\<not> spd_mpd_is_subordinate s c);
     c_assert (s_composite_spd (spds s p) = PSpd p);
     let lowest = lowest_addr (location (spds s p) 0);
     c_assert (pgtbl_entry_absent s (c_pg_tbl (mpd_descriptors s c)) lowest);
     s \<leftarrow> spd_add_caps c p s;
     s \<leftarrow> spd_add_mappings c p s;
     if pgtbl_entry_absent s (c_pg_tbl (mpd_descriptors s c)) lowest then Some (-1, s)
     else do {
       s \<leftarrow> link_member c p s;
       Some (0, s) } }"

definition spd_composite_remove_member :: "spdp \<Rightarrow> bool \<Rightarrow> kstate \<Rightarrow> (int \<times> kstate) option" where
  "spd_composite_remove_member p remove_mappings s = do {
     c_assert (spd_is_composite s (s_composite_spd (spds s p)));
     c \<leftarrow> (case s_composite_spd (spds s p) of PCspd c \<Rightarrow> Some c | PSpd _ \<Rightarrow> None);
     c_assert (\<not> spd_mpd_is_depricated s c \<and> \<not> spd_mpd_is_subordinate s c);
     let lowest = lowest_addr (location (spds s p) 0);
     c_assert (\<not> pgtbl_entry_absent s (c_pg_tbl (mpd_descriptors s c)) lowest);
     s \<leftarrow> unlink_member c p s;
     s \<leftarrow> spd_remove_caps c p s;
     s \<leftarrow> (if remove_mappings then do {
             s \<leftarrow> spd_remove_mappings c p s;
             c_assert (pgtbl_entry_absent s (c_pg_tbl (mpd_descriptors s c)) lowest);
             Some s }
           else Some s);
     c_assert (0 < c_ref_cnt (mpd_descriptors s c));
     Some (0, s) }"

definition spd_composite_move_member :: "cspdp \<Rightarrow> spdp \<Rightarrow> bool \<Rightarrow> kstate \<Rightarrow> (int \<times> kstate) option" where
  "spd_composite_move_member cspd_new p remove_mappings s = do {
     (r, s) \<leftarrow> spd_composite_remove_member p remove_mappings s;
     if r \<noteq> 0 then Some (-1, s)
     else do {
       (r, s) \<leftarrow> spd_composite_add_member cspd_new p s;
       if r \<noteq> 0 then Some (-1, s) else Some (0, s) } }"

definition spd_composite_member :: "kstate \<Rightarrow> spdp \<Rightarrow> spd_poly \<Rightarrow> bool" where
  "spd_composite_member s p poly \<longleftrightarrow>
     \<not> pgtbl_entry_absent s (poly_pg_tbl s poly) (lowest_addr (location (spds s p) 0))"

subsection \<open>The ring of members\<close>

definition members_ring :: "kstate \<Rightarrow> cspdp \<Rightarrow> spdp list \<Rightarrow> bool" where
  "members_ring s c xs \<longleftrightarrow>
     (case xs of
        [] \<Rightarrow> members (mpd_descriptors s c) = None
      | x # _ \<Rightarrow> members (mpd_descriptors s c) = Some x
          \<and> dring (\<lambda>p. composite_member_next (spds s p)) (\<lambda>p. composite_member_prev (spds s p)) xs)"

text \<open>
  \<open>no_caps s\<close> is the state without its capabilities, the kernel's and the user-level ones; two states
  with the same \<open>no_caps\<close> differ in capabilities only.
\<close>

definition no_caps :: "kstate \<Rightarrow> kstate" where
  "no_caps s = s\<lparr>invocation_capabilities := (\<lambda>_. zero_cap), user_caps := (\<lambda>_ _. zero_ucap)\<rparr>"

lemma no_caps_upd [simp]:
  "no_caps (upd_cap c f s) = no_caps s" "no_caps (upd_ucap p n g s) = no_caps s"
  "no_caps (cap_set_usr_cap u fn k m s) = no_caps s"
  by (simp_all add: no_caps_def upd_cap_def upd_ucap_def cap_set_usr_cap_def)

lemma no_capsD:
  assumes "no_caps s' = no_caps s"
  shows "spds s' = spds s" "mpd_descriptors s' = mpd_descriptors s" "pmem s' = pmem s"
proof -
  have "spds (no_caps s') = spds (no_caps s)" "mpd_descriptors (no_caps s') = mpd_descriptors (no_caps s)"
    "pmem (no_caps s') = pmem (no_caps s)" by (simp_all only: assms)
  then show "spds s' = spds s" "mpd_descriptors s' = mpd_descriptors s" "pmem s' = pmem s"
    by (simp_all add: no_caps_def)
qed

lemma cap_change_isolation_no_caps:
  "cap_change_isolation i lvl fl s = Some (r, s') \<Longrightarrow> no_caps s' = no_caps s"
  by (auto simp: cap_change_isolation_def Let_def bind_eq_Some_conv split: if_splits)

lemma chg_il_no_caps: "chg_il lvl i s = Some s' \<Longrightarrow> no_caps s' = no_caps s"
  by (auto simp: chg_il_def bind_eq_Some_conv split: if_splits dest: cap_change_isolation_no_caps)

lemma fold_no_caps:
  assumes "fold_opt f xs s = Some s'" "\<And>x u v. f x u = Some v \<Longrightarrow> no_caps v = no_caps u"
  shows "no_caps s' = no_caps s"
  using assms(1) by (rule fold_opt_invariant [where P = "\<lambda>u. no_caps u = no_caps s"]) (simp_all add: assms(2))

lemma chg_il_member_no_caps: "chg_il_member p lvl q s = Some s' \<Longrightarrow> no_caps s' = no_caps s"
  by (auto simp: chg_il_member_def bind_eq_Some_conv split: if_splits elim!: fold_no_caps dest: chg_il_no_caps)

interpretation il_ring: ring_loop "chg_il_member p lvl" "\<lambda>s q. composite_member_next (spds s q)"
  "\<lambda>s. members (mpd_descriptors s c)" "spd_chg_il_all_to_spd_loop c p lvl" for p lvl c
proof
  show "spd_chg_il_all_to_spd_loop c p lvl q s = do { s' \<leftarrow> chg_il_member p lvl q s;
      r \<leftarrow> composite_member_next (spds s q);
      if Some r \<noteq> members (mpd_descriptors s c) then spd_chg_il_all_to_spd_loop c p lvl r s' else Some s' }" for s q
    by (subst spd_chg_il_all_to_spd_loop.simps)
      (auto simp: no_capsD [OF chg_il_member_no_caps] intro!: Option.bind_cong)
qed (auto simp: no_capsD [OF chg_il_member_no_caps])

interpretation term_ring: ring_loop
  "\<lambda>p s. Some (upd_spd p (\<lambda>x. x\<lparr>s_composite_spd := PSpd p, composite_member_next := Some p,
     composite_member_prev := Some p\<rparr>) s)" "\<lambda>s q. composite_member_next (spds s q)"
  "\<lambda>s. members (mpd_descriptors s c)" "spd_mpd_terminate_loop c" for c
proof
  show "composite_member_next (spds s p) \<noteq> None \<Longrightarrow> spd_mpd_terminate_loop c p s = do {
      s' \<leftarrow> Some (upd_spd p (\<lambda>x. x\<lparr>s_composite_spd := PSpd p, composite_member_next := Some p,
        composite_member_prev := Some p\<rparr>) s);
      q \<leftarrow> composite_member_next (spds s p);
      if Some q \<noteq> members (mpd_descriptors s c) then spd_mpd_terminate_loop c q s' else Some s' }" for s p
    by (subst spd_mpd_terminate_loop.simps) (auto simp: Let_def)
qed auto

interpretation count_ring: ring_loop "\<lambda>p n. Some (n + 1)" "\<lambda>n q. composite_member_next (spds s q)"
  "\<lambda>n. members (mpd_descriptors s c)" "\<lambda>p n. num_members_loop s c n p" for s c
proof
  show "composite_member_next (spds s p) \<noteq> None \<Longrightarrow> num_members_loop s c n p = do {
      n' \<leftarrow> Some (n + 1); q \<leftarrow> composite_member_next (spds s p);
      if Some q \<noteq> members (mpd_descriptors s c) then num_members_loop s c n' q else Some n' }" for n p
    by (subst num_members_loop.simps) auto
qed auto

subsection \<open>Linking and unlinking keep the rings\<close>

lemma dring_remove_any:
  assumes "dring nx pv xs" "p \<in> set xs" "remove1 p xs \<noteq> []"
  obtains a b where "nx p = Some a" "pv p = Some b" "a \<in> set (remove1 p xs)" "b \<in> set (remove1 p xs)"
    "xs = p # ys \<Longrightarrow> a = hd ys"
    "dring (nx(b := Some a, p := Some p)) (pv(a := Some b, p := Some p)) (remove1 p xs)"
proof -
  obtain as bs where xs: "xs = as @ p # bs" "p \<notin> set as"
    using split_list_first [OF assms(2)] by blast
  let ?r = "bs @ as"
  have rot: "dring nx pv (p # ?r)"
    using assms(1) dring_rotate [of nx pv as "p # bs"] xs by simp
  have ne: "?r \<noteq> []" using assms(3) xs by (auto simp: remove1_append)
  have "dring (nx(last ?r := Some (hd ?r), p := Some p)) (pv(hd ?r := Some (last ?r), p := Some p)) ?r"
    by (rule dring_remove [OF rot ne])
  then have "dring (nx(last ?r := Some (hd ?r), p := Some p)) (pv(hd ?r := Some (last ?r), p := Some p)) (as @ bs)"
    by (simp add: dring_rotate [of _ _ as bs])
  moreover have "remove1 p xs = as @ bs" using xs by (simp add: remove1_append)
  moreover have "nx p = Some (hd ?r)" "pv p = Some (last ?r)"
    using dring_links [OF rot] ne by (auto simp: hd_append)
  moreover have "hd ?r \<in> set (as @ bs)" "last ?r \<in> set (as @ bs)"
    using hd_in_set [OF ne] last_in_set [OF ne] by auto
  moreover have "xs = p # ys \<Longrightarrow> hd ?r = hd ys"
    using xs by (cases as) auto
  ultimately show ?thesis by (intro that [of "hd ?r" "last ?r"]) simp_all
qed

lemma members_ring_frame:
  assumes "members_ring s c xs" "members (mpd_descriptors s' c) = members (mpd_descriptors s c)"
    "\<And>q. q \<in> set xs \<Longrightarrow> composite_member_next (spds s' q) = composite_member_next (spds s q)
       \<and> composite_member_prev (spds s' q) = composite_member_prev (spds s q)"
  shows "members_ring s' c xs"
proof (cases xs)
  case (Cons x ys)
  have "dring (\<lambda>p. composite_member_next (spds s' p)) (\<lambda>p. composite_member_prev (spds s' p)) xs =
        dring (\<lambda>p. composite_member_next (spds s p)) (\<lambda>p. composite_member_prev (spds s p)) xs"
    using assms(3) by (intro dring_cong) auto
  with assms Cons show ?thesis by (simp add: members_ring_def)
qed (use assms in \<open>simp add: members_ring_def\<close>)

lemma link_member_ring:
  assumes "members_ring s c xs" "p \<notin> set xs"
  shows "\<exists>s'. link_member c p s = Some s' \<and> members_ring s' c (p # xs)
    \<and> (\<forall>q. s_composite_spd (spds s' q) = (if q = p then PCspd c else s_composite_spd (spds s q)))
    \<and> (\<forall>d ys. d \<noteq> c \<longrightarrow> set ys \<inter> set (p # xs) = {} \<longrightarrow> members_ring s d ys \<longrightarrow> members_ring s' d ys)"
proof (cases xs)
  case Nil
  with assms show ?thesis
    by (auto simp: link_member_def members_ring_def Let_def intro!: members_ring_frame [of s, unfolded members_ring_def])
next
  case (Cons x ys)
  let ?nx = "\<lambda>q. composite_member_next (spds s q)" and ?pv = "\<lambda>q. composite_member_prev (spds s q)"
  have ring: "dring ?nx ?pv (x # ys)" and m: "members (mpd_descriptors s c) = Some x"
    using assms Cons by (auto simp: members_ring_def)
  have pv: "?pv x = Some (last (x # ys))" using dring_links [OF ring] by simp
  have lx: "last (x # ys) \<in> set xs" using Cons last_in_set [of "x # ys"] by simp
  obtain s' where s': "link_member c p s = Some s'" using m pv by (auto simp: link_member_def)
  have nx': "(\<lambda>q. composite_member_next (spds s' q)) = ?nx(p := Some x, last (x # ys) := Some p)"
    using s' m pv assms(2) lx by (auto simp: link_member_def fun_eq_iff)
  have pv': "(\<lambda>q. composite_member_prev (spds s' q)) = ?pv(p := Some (last (x # ys)), x := Some p)"
    using s' m pv assms(2) lx Cons by (auto simp: link_member_def fun_eq_iff)
  have "dring (\<lambda>q. composite_member_next (spds s' q)) (\<lambda>q. composite_member_prev (spds s' q)) (p # x # ys)"
    unfolding nx' pv' using assms(2) Cons by (intro dring_insert [OF ring]) simp
  moreover have "members (mpd_descriptors s' c) = Some p" using s' m pv by (auto simp: link_member_def)
  moreover have "s_composite_spd (spds s' q) = (if q = p then PCspd c else s_composite_spd (spds s q))" for q
    using s' m pv by (auto simp: link_member_def)
  moreover have "members_ring s' d zs" if "d \<noteq> c" "set zs \<inter> set (p # xs) = {}" "members_ring s d zs" for d zs
  proof (rule members_ring_frame [OF that(3)])
    show "members (mpd_descriptors s' d) = members (mpd_descriptors s d)"
      using s' m pv that(1) by (auto simp: link_member_def)
    fix q assume "q \<in> set zs"
    with that(2) have "q \<notin> set (p # xs)" by blast
    with lx Cons fun_cong [OF nx', of q] fun_cong [OF pv', of q]
    show "composite_member_next (spds s' q) = ?nx q \<and> composite_member_prev (spds s' q) = ?pv q" by auto
  qed
  ultimately show ?thesis using s' Cons by (auto simp: members_ring_def)
qed

lemma unlink_member_links:
  assumes "composite_member_next (spds s p) = Some a" "composite_member_prev (spds s p) = Some b"
  shows "\<exists>s'. unlink_member c p s = Some s'
    \<and> (\<lambda>q. composite_member_next (spds s' q)) = (\<lambda>q. composite_member_next (spds s q))(b := Some a, p := Some p)
    \<and> (\<lambda>q. composite_member_prev (spds s' q)) = (\<lambda>q. composite_member_prev (spds s q))(a := Some b, p := Some p)
    \<and> (\<forall>q. s_composite_spd (spds s' q) = (if q = p then PSpd p else s_composite_spd (spds s q)))
    \<and> (\<forall>d. members (mpd_descriptors s' d) =
         (if d = c \<and> members (mpd_descriptors s c) = Some p then (if p = a then None else Some a)
          else members (mpd_descriptors s d)))"
  using assms by (auto simp: unlink_member_def Let_def fun_eq_iff)

lemma unlink_member_ring:
  assumes ring: "members_ring s c xs" and p: "p \<in> set xs"
  shows "\<exists>s'. unlink_member c p s = Some s' \<and> members_ring s' c (remove1 p xs)
    \<and> (\<forall>q. s_composite_spd (spds s' q) = (if q = p then PSpd p else s_composite_spd (spds s q)))
    \<and> (\<forall>d ys. d \<noteq> c \<longrightarrow> set ys \<inter> set xs = {} \<longrightarrow> members_ring s d ys \<longrightarrow> members_ring s' d ys)"
proof -
  let ?nx = "\<lambda>q. composite_member_next (spds s q)" and ?pv = "\<lambda>q. composite_member_prev (spds s q)"
  obtain x ys where xs: "xs = x # ys" using p by (cases xs) auto
  have dr: "dring ?nx ?pv xs" and m: "members (mpd_descriptors s c) = Some x"
    using ring xs by (auto simp: members_ring_def)
  have dist: "distinct xs" using dr xs by simp
  obtain a b where ab: "?nx p = Some a" "?pv p = Some b" "a \<in> set xs" "b \<in> set xs"
    and none: "remove1 p xs = [] \<Longrightarrow> a = p"
    and some: "remove1 p xs \<noteq> [] \<Longrightarrow> a \<noteq> p \<and> (x = p \<longrightarrow> a = hd ys) \<and>
      dring (?nx(b := Some a, p := Some p)) (?pv(a := Some b, p := Some p)) (remove1 p xs)"
  proof (cases "remove1 p xs = []")
    case True
    then have "xs = [p]" using p xs by (auto split: if_splits)
    with dr show ?thesis by (intro that [of p p]) auto
  next
    case False
    show ?thesis
    proof (rule dring_remove_any [OF dr p False, of ys])
      fix a b
      assume h: "?nx p = Some a" "?pv p = Some b" "a \<in> set (remove1 p xs)" "b \<in> set (remove1 p xs)"
        "xs = p # ys \<Longrightarrow> a = hd ys"
        "dring (?nx(b := Some a, p := Some p)) (?pv(a := Some b, p := Some p)) (remove1 p xs)"
      have r: "set (remove1 p xs) = set xs - {p}" using dist by (rule set_remove1_eq)
      show ?thesis by (rule that [OF h(1,2)]) (use h r False xs in auto)
    qed
  qed
  obtain s' where s': "unlink_member c p s = Some s'"
    "(\<lambda>q. composite_member_next (spds s' q)) = ?nx(b := Some a, p := Some p)"
    "(\<lambda>q. composite_member_prev (spds s' q)) = ?pv(a := Some b, p := Some p)"
    "\<forall>q. s_composite_spd (spds s' q) = (if q = p then PSpd p else s_composite_spd (spds s q))"
    "\<forall>d. members (mpd_descriptors s' d) = (if d = c \<and> members (mpd_descriptors s c) = Some p
       then (if p = a then None else Some a) else members (mpd_descriptors s d))"
    using unlink_member_links [OF ab(1,2), of c] by blast
  have "members_ring s' c (remove1 p xs)"
  proof (cases "remove1 p xs")
    case Nil
    then have "x = p" using p xs by (auto split: if_splits)
    with Nil none s'(5) m show ?thesis by (simp add: members_ring_def)
  next
    case (Cons z zs)
    have "members (mpd_descriptors s' c) = Some z"
      using Cons some s'(5) m xs by (cases "x = p") auto
    with Cons some show ?thesis by (simp add: members_ring_def s'(2,3))
  qed
  moreover have "members_ring s' d zs" if "d \<noteq> c" "set zs \<inter> set xs = {}" "members_ring s d zs" for d zs
  proof (rule members_ring_frame [OF that(3)])
    show "members (mpd_descriptors s' d) = members (mpd_descriptors s d)" using that(1) s'(5) by simp
    fix q assume "q \<in> set zs"
    with that(2) ab p have "q \<noteq> p" "q \<noteq> a" "q \<noteq> b" by auto
    with fun_cong [OF s'(2), of q] fun_cong [OF s'(3), of q]
    show "composite_member_next (spds s' q) = ?nx q \<and> composite_member_prev (spds s' q) = ?pv q" by simp
  qed
  ultimately show ?thesis using s'(1,4) by blast
qed

subsection \<open>The isolation levels between members\<close>

text \<open>
  Both loops over capabilities have this shape: every capability \<open>i\<close> of a list that satisfies a
  condition \<open>cond\<close>, which capability changes do not affect, gets the level \<open>lvl\<close>.
\<close>

definition chg_if :: "u32 \<Rightarrow> (kstate \<Rightarrow> nat \<Rightarrow> bool) \<Rightarrow> nat \<Rightarrow> kstate \<Rightarrow> kstate option" where
  "chg_if lvl cond i s = do { i \<leftarrow> cap_ref (int i); if cond s i then chg_il lvl i s else Some s }"

text \<open>The parts of a state that \<open>chg_il\<close> leaves alone.\<close>

definition same_links :: "kstate \<Rightarrow> kstate \<Rightarrow> bool" where
  "same_links s s' \<longleftrightarrow> no_caps s' = no_caps s
     \<and> (\<forall>i. owner (invocation_capabilities s' i) = owner (invocation_capabilities s i)
           \<and> destination (invocation_capabilities s' i) = destination (invocation_capabilities s i))"

lemma same_links_refl [simp]: "same_links s s"
  by (simp add: same_links_def)

lemma same_links_trans: "same_links s t \<Longrightarrow> same_links t u \<Longrightarrow> same_links s u"
  by (simp add: same_links_def)

lemma same_links_usable: "same_links s s' \<Longrightarrow> cap_usable s' q i \<longleftrightarrow> cap_usable s q i"
  using no_capsD(1) [of s' s] by (simp add: same_links_def cap_usable_def spd_owns_def)

definition level :: "kstate \<Rightarrow> nat \<Rightarrow> u32" where
  "level s i = ucast (il (invocation_capabilities s i))"

text \<open>\<open>relevelled lvl A s s'\<close>: exactly the capabilities in \<open>A\<close> moved to \<open>lvl\<close>, their user-level entries with them.\<close>

definition relevelled :: "u32 \<Rightarrow> nat set \<Rightarrow> kstate \<Rightarrow> kstate \<Rightarrow> bool" where
  "relevelled lvl A s s' \<longleftrightarrow> same_links s s' \<and> (\<forall>i. level s' i = (if i \<in> A then lvl else level s i))
     \<and> (\<forall>i \<in> A. cap_agrees s' i)
     \<and> (\<forall>i q. cap_usable s q i \<longrightarrow> cap_agrees s i \<longrightarrow> cap_agrees s' i)"

lemma relevelled_empty: "relevelled lvl {} s s"
  by (simp add: relevelled_def)

lemma relevelled_trans:
  assumes "relevelled lvl A s t" "relevelled lvl B t u" "\<And>i. i \<in> A \<Longrightarrow> \<exists>q. cap_usable s q i"
  shows "relevelled lvl (A \<union> B) s u"
proof -
  have st: "same_links s t" and tu: "same_links t u"
    and lt: "\<And>i. level t i = (if i \<in> A then lvl else level s i)"
    and lu: "\<And>i. level u i = (if i \<in> B then lvl else level t i)"
    and at: "\<And>i. i \<in> A \<Longrightarrow> cap_agrees t i" and bu: "\<And>i. i \<in> B \<Longrightarrow> cap_agrees u i"
    and kt: "\<And>i q. cap_usable s q i \<Longrightarrow> cap_agrees s i \<Longrightarrow> cap_agrees t i"
    and ku: "\<And>i q. cap_usable t q i \<Longrightarrow> cap_agrees t i \<Longrightarrow> cap_agrees u i"
    using assms(1,2) unfolding relevelled_def by blast+
  have keep: "cap_agrees u i" if "cap_usable s q i" "cap_agrees t i" for i q
    using ku [of q i] that by (simp add: same_links_usable [OF st])
  show ?thesis unfolding relevelled_def
  proof (intro conjI allI ballI impI)
    show "same_links s u" by (rule same_links_trans [OF st tu])
    show "level u i = (if i \<in> A \<union> B then lvl else level s i)" for i by (simp add: lt lu)
    show "cap_agrees u i" if "i \<in> A \<union> B" for i
      using that assms(3) at bu keep by (cases "i \<in> B") blast+
    show "cap_agrees u i" if "cap_usable s q i" "cap_agrees s i" for i q
      using keep [OF that(1)] kt [OF that] by blast
  qed
qed

lemma chg_il_one:
  assumes "cap_usable s q i" "valid_lvl lvl" "level s i \<noteq> lvl"
  shows "\<exists>s'. chg_il lvl i s = Some s' \<and> relevelled lvl {i} s s'"
proof -
  obtain fl where fl: "fl = 0 \<or> fl = push_bit 31 (1 :: u32)" and eq:
    "cap_change_isolation (int i) lvl 0 s = Some (level s i,
      cap_set_usr_cap (q, i - unat (cap_base (spds s q)))
        (cli_stub lvl (usr_stub_info (invocation_capabilities s i))) 0 (push_bit 20 (of_nat i) OR fl)
        (upd_cap i (\<lambda>k. k\<lparr>dest_entry_instruction := serv_stub lvl (usr_stub_info (invocation_capabilities s i))\<rparr>)
          (upd_cap i (\<lambda>k. k\<lparr>il := ucast lvl\<rparr>) s)))" (is "_ = Some (_, ?s)")
    using cap_change_isolation_eq [OF assms(1,2), of 0] unfolding level_def by blast
  have "level s i \<noteq> IL_INV"
  proof -
    have "\<not> bit (level s i) 31" by (auto simp: level_def bit_unsigned_iff dest: bit_imp_le_length)
    moreover have "bit (- 1 :: u32) 31" by (simp add: bit_minus_1_iff)
    moreover have "IL_INV = - 1" by (simp add: IL_INV_def)
    ultimately show ?thesis by metis
  qed
  with eq assms(3) have "chg_il lvl i s = Some ?s" by (simp add: chg_il_def)
  moreover have "same_links s ?s" by (simp add: same_links_def)
  moreover have "level ?s j = (if j = i then lvl else level s j)" for j
    using il_2bit [OF assms(2)] by (simp add: level_def)
  moreover have "cap_agrees ?s i"
    using assms il_2bit [OF assms(2)] cap_no_decode [of i fl] fl
    by (simp add: cap_agrees_def Let_def cap_usable_def kconsts)
  moreover have "cap_agrees ?s j" if "cap_usable s r j" "cap_agrees s j" for j r
  proof (cases "j = i")
    case False
    have "(r, j - unat (cap_base (spds s r))) \<noteq> (q, i - unat (cap_base (spds s q)))"
      using cap_usable_slot [OF assms(1), of j] that(1) False by auto
    with that False show ?thesis by (auto simp: cap_agrees_def Let_def cap_usable_def)
  qed (use \<open>cap_agrees ?s i\<close> in simp)
  ultimately show ?thesis by (auto simp: relevelled_def)
qed

lemma chg_if_fold:
  assumes cond: "\<And>s s' i. same_links s s' \<Longrightarrow> cond s' i = cond s i" and lvl: "valid_lvl lvl"
    and "distinct is" "\<forall>i \<in> set is. i < MAX_STATIC_CAP"
    and "\<forall>i \<in> set is. cond s i \<longrightarrow> (\<exists>q. cap_usable s q i) \<and> level s i \<noteq> lvl"
  shows "\<exists>s'. fold_opt (chg_if lvl cond) is s = Some s' \<and> relevelled lvl {i \<in> set is. cond s i} s s'"
  using assms(3-5)
proof (induction "is" arbitrary: s)
  case Nil
  then show ?case by (simp add: relevelled_empty)
next
  case (Cons i "is")
  obtain s1 where s1: "chg_if lvl cond i s = Some s1"
    "relevelled lvl (if cond s i then {i} else {}) s s1"
  proof (cases "cond s i")
    case True
    then show ?thesis using chg_il_one [OF _ lvl, of s _ i] Cons.prems that by (auto simp: chg_if_def)
  next
    case False
    then show ?thesis using Cons.prems that [of s] by (simp add: chg_if_def relevelled_empty)
  qed
  have sl: "same_links s s1" using s1(2) by (simp add: relevelled_def)
  have lv: "level s1 j = level s j" if "j \<in> set is" for j
    using s1(2) that Cons.prems(1) by (auto simp: relevelled_def)
  from Cons.IH [of s1] Cons.prems cond [OF sl] lv obtain s2
    where s2: "fold_opt (chg_if lvl cond) is s1 = Some s2" "relevelled lvl {j \<in> set is. cond s j} s1 s2"
    by (auto simp: same_links_usable [OF sl])
  have "relevelled lvl ((if cond s i then {i} else {}) \<union> {j \<in> set is. cond s j}) s s2"
    using Cons.prems by (intro relevelled_trans [OF s1(2) s2(2)]) (auto split: if_splits)
  moreover have "(if cond s i then {i} else {}) \<union> {j \<in> set is. cond s j} = {j \<in> set (i # is). cond s j}"
    by auto
  ultimately show ?case using s1(1) s2(1) by simp
qed

definition to_spd :: "spdp \<Rightarrow> kstate \<Rightarrow> nat \<Rightarrow> bool" where
  "to_spd p s i \<longleftrightarrow> destination (invocation_capabilities s i) = Some p \<and> owner (invocation_capabilities s i) \<noteq> Owner p"

definition to_member :: "spdp \<Rightarrow> cspdp \<Rightarrow> kstate \<Rightarrow> nat \<Rightarrow> bool" where
  "to_member p c s i \<longleftrightarrow>
     (case destination (invocation_capabilities s i) of None \<Rightarrow> False | Some d \<Rightarrow> d \<noteq> p \<and> spd_in_composite s d c)"

definition member_caps :: "kstate \<Rightarrow> spdp \<Rightarrow> nat list" where
  "member_caps s q = (if cap_range (spds s q) = 0 then [] else caps_after_first s q)"

text \<open>The capabilities that lead from the members \<open>xs\<close> of \<open>c\<close> to the component \<open>p\<close> or back.\<close>

definition between :: "kstate \<Rightarrow> cspdp \<Rightarrow> spdp \<Rightarrow> spdp list \<Rightarrow> nat set" where
  "between s c p xs = {i \<in> set (concat (map (member_caps s) xs)). to_spd p s i} \<union> {i \<in> set (member_caps s p). to_member p c s i}"

lemma same_links_to:
  assumes "same_links s s'"
  shows "to_spd p s' i = to_spd p s i" "to_member p c s' i = to_member p c s i" "member_caps s' q = member_caps s q"
  using assms no_capsD(1) [of s' s]
  by (simp_all add: same_links_def to_spd_def to_member_def spd_in_composite_def spd_is_member_def
      member_caps_def caps_after_first_def split: option.splits)

lemma chg_il_member_fold: "chg_il_member p lvl q s = fold_opt (chg_if lvl (to_spd p)) (member_caps s q) s"
proof -
  have "(\<lambda>i s. do { i \<leftarrow> cap_ref (int i); if destination (invocation_capabilities s i) = Some p
      \<and> owner (invocation_capabilities s i) \<noteq> Owner p then chg_il lvl i s else Some s }) = chg_if lvl (to_spd p)"
    by (auto simp: chg_if_def to_spd_def fun_eq_iff)
  then show ?thesis by (simp add: chg_il_member_def member_caps_def)
qed

lemma spd_chg_il_spd_to_all_fold:
  "spd_chg_il_spd_to_all p c lvl s = fold_opt (chg_if lvl (to_member p c)) (member_caps s p) s"
proof -
  have "(\<lambda>i s. do { i \<leftarrow> cap_ref (int i); case destination (invocation_capabilities s i) of None \<Rightarrow> Some s
      | Some dest \<Rightarrow> if dest \<noteq> p \<and> spd_in_composite s dest c then chg_il lvl i s else Some s }) = chg_if lvl (to_member p c)"
    by (auto simp: chg_if_def to_member_def fun_eq_iff intro!: Option.bind_cong split: option.splits)
  then show ?thesis by (simp add: spd_chg_il_spd_to_all_def member_caps_def)
qed

lemma chg_il_members_fold:
  "spds s = spds t \<Longrightarrow> fold_opt (chg_il_member p lvl) qs s =
     fold_opt (chg_if lvl (to_spd p)) (concat (map (member_caps t) qs)) s"
proof (induction qs arbitrary: s)
  case Nil
  then show ?case by simp
next
  case (Cons q qs)
  have mc: "member_caps s q = member_caps t q"
    using Cons.prems by (simp add: member_caps_def caps_after_first_def)
  show ?case
  proof (cases "chg_il_member p lvl q s")
    case None
    then show ?thesis by (simp add: fold_opt_append chg_il_member_fold mc)
  next
    case (Some s')
    then have "spds s' = spds t" using no_capsD(1) [OF chg_il_member_no_caps [OF Some]] Cons.prems by simp
    with Cons.IH [of s'] Some show ?thesis by (simp add: fold_opt_append chg_il_member_fold mc)
  qed
qed

lemma spd_chg_il_all_to_spd_fold:
  assumes "members_ring s c xs" "spd_is_composite s (PCspd c)"
  shows "spd_chg_il_all_to_spd c p lvl s = fold_opt (chg_if lvl (to_spd p)) (concat (map (member_caps s) xs)) s"
proof (cases xs)
  case Nil
  with assms show ?thesis by (simp add: spd_chg_il_all_to_spd_def members_ring_def)
next
  case (Cons x ys)
  then have "dring (\<lambda>q. composite_member_next (spds s q)) (\<lambda>q. composite_member_prev (spds s q)) (x # ys)"
    "members (mpd_descriptors s c) = Some x"
    using assms(1) by (auto simp: members_ring_def)
  then have "spd_chg_il_all_to_spd_loop c p lvl x s = fold_opt (chg_il_member p lvl) (x # ys) s"
    by (rule il_ring.loop_ring)
  with assms Cons show ?thesis
    by (simp add: spd_chg_il_all_to_spd_def members_ring_def chg_il_members_fold [OF refl, of p lvl "x # ys" s, simplified])
qed

lemma member_caps_owned:
  assumes "cap_ranges_inv s"
  shows "distinct (member_caps s q)" "i \<in> set (member_caps s q) \<Longrightarrow> spd_owns s q i"
proof -
  show "distinct (member_caps s q)" by (simp add: member_caps_def caps_after_first_def Let_def)
  assume i: "i \<in> set (member_caps s q)"
  then have r: "cap_range (spds s q) \<noteq> 0" by (auto simp: member_caps_def split: if_splits)
  then have "0 < unat (cap_range (spds s q))" by (simp flip: unat_eq_0)
  then have "spd_owns s q (unat (cap_base (spds s q)) + unat (cap_range (spds s q)) - 1)"
    by (auto simp: spd_owns_def)
  then have "unat (cap_base (spds s q)) + unat (cap_range (spds s q)) - 1 < MAX_STATIC_CAP"
    using assms by (simp add: cap_ranges_inv_def)
  with \<open>0 < unat (cap_range (spds s q))\<close>
  have "unat (cap_base (spds s q)) + unat (cap_range (spds s q)) \<le> MAX_STATIC_CAP" by linarith
  then have "unat (cap_base (spds s q) + 1) = unat (cap_base (spds s q)) + 1"
    "unat (cap_range (spds s q) - 1) = unat (cap_range (spds s q)) - 1"
    using \<open>0 < unat (cap_range (spds s q))\<close> by (simp_all add: kconsts unat_word_ariths unat_sub word_le_nat_alt)
  with i r show "spd_owns s q i" by (auto simp: member_caps_def caps_after_first_def Let_def spd_owns_def)
qed

lemma member_caps_disjoint:
  assumes "cap_ranges_inv s" "distinct xs"
  shows "distinct (concat (map (member_caps s) xs))"
proof -
  have disj: "q = r" if "i \<in> set (member_caps s q)" "i \<in> set (member_caps s r)" for q r i
    using assms(1) member_caps_owned(2) [OF assms(1) that(1)] member_caps_owned(2) [OF assms(1) that(2)]
    by (simp add: cap_ranges_inv_def)
  show ?thesis using assms(2)
  proof (induction xs)
    case (Cons x xs)
    then show ?case using member_caps_owned(1) [OF assms(1), of x] by (auto dest: disj)
  qed simp
qed

lemma relevel_members:
  assumes ring: "members_ring s c xs" and comp: "spd_is_composite s (PCspd c)" and inv: "cap_ranges_inv s"
    and p: "p \<notin> set xs" and lvl: "valid_lvl lvl"
    and caps: "\<forall>i \<in> between s c p xs. (\<exists>q. cap_usable s q i) \<and> level s i \<noteq> lvl"
  shows "\<exists>s'. do { t \<leftarrow> spd_chg_il_all_to_spd c p lvl s; spd_chg_il_spd_to_all p c lvl t } = Some s'
    \<and> relevelled lvl (between s c p xs) s s'"
proof -
  have "distinct xs" using ring by (cases xs) (auto simp: members_ring_def)
  have "distinct (p # xs)" using p \<open>distinct xs\<close> by simp
  have dist: "distinct (member_caps s p @ concat (map (member_caps s) xs))"
    using member_caps_disjoint [OF inv \<open>distinct (p # xs)\<close>] by simp
  have small: "i < MAX_STATIC_CAP" if "i \<in> set (member_caps s q)" for i q
    using member_caps_owned(2) [OF inv that] inv by (simp add: cap_ranges_inv_def)
  let ?L = "concat (map (member_caps s) xs)"
  obtain t where t: "fold_opt (chg_if lvl (to_spd p)) ?L s = Some t" "relevelled lvl {i \<in> set ?L. to_spd p s i} s t"
    using chg_if_fold [of "to_spd p" lvl ?L s] same_links_to(1) lvl dist small caps by (auto simp: between_def)
  have sl: "same_links s t" using t(2) by (simp add: relevelled_def)
  have lv: "level t i = level s i" if "i \<in> set (member_caps s p)" for i
    using t(2) that dist by (auto simp: relevelled_def)
  have "\<forall>i \<in> set (member_caps s p). to_member p c t i \<longrightarrow> (\<exists>q. cap_usable t q i) \<and> level t i \<noteq> lvl"
    using caps lv by (auto simp: between_def same_links_to [OF sl] same_links_usable [OF sl])
  then obtain u where u: "fold_opt (chg_if lvl (to_member p c)) (member_caps s p) t = Some u"
    "relevelled lvl {i \<in> set (member_caps s p). to_member p c t i} t u"
    using chg_if_fold [of "to_member p c" lvl "member_caps s p" t] same_links_to(2) lvl dist small by auto
  have "relevelled lvl (between s c p xs) s u"
    using relevelled_trans [OF t(2) u(2)] caps by (auto simp: between_def same_links_to(2) [OF sl])
  then show ?thesis
    using t(1) u(1) by (simp add: spd_chg_il_all_to_spd_fold [OF ring comp] spd_chg_il_spd_to_all_fold same_links_to(3) [OF sl])
qed

subsection \<open>The mappings of the members\<close>

definition loc_covers :: "spd_location \<Rightarrow> nat \<Rightarrow> bool" where
  "loc_covers l k \<longleftrightarrow> loc_size l \<noteq> 0 \<and> pgd_index (lowest_addr l) \<le> k
     \<and> k < pgd_index (lowest_addr l) + unat (drop_bit HPAGE_SHIFT (loc_size l))"

definition loc_in_bounds :: "spd_location \<Rightarrow> bool" where
  "loc_in_bounds l \<longleftrightarrow> pgd_index (lowest_addr l) + unat (drop_bit HPAGE_SHIFT (loc_size l)) \<le> PGD_PER_PTBL"

lemma spd_add_mappings_copies:
  assumes "c_pg_tbl (mpd_descriptors s c) = to" "s_pg_tbl (spds s p) = from" "to \<noteq> from"
    "\<forall>i < MAX_SPD_VAS_LOCATIONS. loc_in_bounds (location (spds s p) i)"
  shows "\<exists>m. spd_add_mappings c p s = Some (s\<lparr>pmem := m\<rparr>)
    \<and> (\<forall>k. m to k = (if \<exists>i < MAX_SPD_VAS_LOCATIONS. loc_covers (location (spds s p) i) k then pmem s from k else pmem s to k))
    \<and> (\<forall>f. f \<noteq> to \<longrightarrow> m f = pmem s f)"
proof -
  let ?f = "\<lambda>i s. let l = location (spds s p) i in if loc_size l \<noteq> 0
     then copy_pgtbl_range (c_pg_tbl (mpd_descriptors s c)) (s_pg_tbl (spds s p)) (lowest_addr l) (loc_size l) s else Some s"
  have "\<exists>m. fold_opt ?f is s = Some (s\<lparr>pmem := m\<rparr>)
      \<and> (\<forall>k. m to k = (if \<exists>i \<in> set is. loc_covers (location (spds s p) i) k then pmem s from k else pmem s to k))
      \<and> (\<forall>f. f \<noteq> to \<longrightarrow> m f = pmem s f)"
    if "\<forall>i \<in> set is. loc_in_bounds (location (spds s p) i)" for "is"
    using that
  proof (induction "is" rule: rev_induct)
    case Nil
    show ?case by (rule exI [of _ "pmem s"]) simp
  next
    case (snoc i "is")
    then obtain m where m: "fold_opt ?f is s = Some (s\<lparr>pmem := m\<rparr>)"
      "\<forall>k. m to k = (if \<exists>i \<in> set is. loc_covers (location (spds s p) i) k then pmem s from k else pmem s to k)"
      "\<forall>f. f \<noteq> to \<longrightarrow> m f = pmem s f" by auto
    let ?l = "location (spds s p) i"
    define m' where "m' = (if loc_size ?l \<noteq> 0 then m(to := (\<lambda>k. if loc_covers ?l k then m from k else m to k)) else m)"
    have "?f i (s\<lparr>pmem := m\<rparr>) = Some (s\<lparr>pmem := m'\<rparr>)"
      using assms(1,2) snoc.prems
      by (auto simp: copy_pgtbl_range_def copy_pgtbl_range_nocheck_def Let_def m'_def loc_covers_def loc_in_bounds_def
          cong: if_cong)
    moreover have "m' to k = (if \<exists>i \<in> set (is @ [i]). loc_covers (location (spds s p) i) k then pmem s from k else pmem s to k)" for k
      using m(2) m(3) assms(3) by (auto simp: m'_def loc_covers_def)
    moreover have "m' f = pmem s f" if "f \<noteq> to" for f using m(3) that by (simp add: m'_def)
    ultimately show ?case using m(1) by (intro exI [of _ m']) (auto simp: fold_opt_append)
  qed
  from this [of "[0..<MAX_SPD_VAS_LOCATIONS]"] assms(4) show ?thesis
    by (auto simp: spd_add_mappings_def Bex_def)
qed

lemma spd_remove_mappings_zeroes:
  assumes "c_pg_tbl (mpd_descriptors s c) = tbl"
    "\<forall>i < MAX_SPD_VAS_LOCATIONS. loc_in_bounds (location (spds s p) i)"
  shows "\<exists>m. spd_remove_mappings c p s = Some (s\<lparr>pmem := m\<rparr>)
    \<and> (\<forall>k. m tbl k = (if \<exists>i < MAX_SPD_VAS_LOCATIONS. loc_covers (location (spds s p) i) k then 0 else pmem s tbl k))"
proof -
  let ?f = "\<lambda>i s. let l = location (spds s p) i in if loc_size l \<noteq> 0
     then zero_pgtbl_range (c_pg_tbl (mpd_descriptors s c)) (lowest_addr l) (loc_size l) s else Some s"
  have "\<exists>m. fold_opt ?f is s = Some (s\<lparr>pmem := m\<rparr>)
      \<and> (\<forall>k. m tbl k = (if \<exists>i \<in> set is. loc_covers (location (spds s p) i) k then 0 else pmem s tbl k))"
    if "\<forall>i \<in> set is. loc_in_bounds (location (spds s p) i)" for "is"
    using that
  proof (induction "is" rule: rev_induct)
    case Nil
    show ?case by (rule exI [of _ "pmem s"]) simp
  next
    case (snoc i "is")
    then obtain m where m: "fold_opt ?f is s = Some (s\<lparr>pmem := m\<rparr>)"
      "\<forall>k. m tbl k = (if \<exists>i \<in> set is. loc_covers (location (spds s p) i) k then 0 else pmem s tbl k)" by auto
    let ?l = "location (spds s p) i"
    define m' where "m' = (if loc_size ?l \<noteq> 0 then m(tbl := (\<lambda>k. if loc_covers ?l k then 0 else m tbl k)) else m)"
    have "?f i (s\<lparr>pmem := m\<rparr>) = Some (s\<lparr>pmem := m'\<rparr>)"
      using assms(1) snoc.prems
      by (auto simp: zero_pgtbl_range_def Let_def m'_def loc_covers_def loc_in_bounds_def cong: if_cong)
    moreover have "m' tbl k = (if \<exists>i \<in> set (is @ [i]). loc_covers (location (spds s p) i) k then 0 else pmem s tbl k)" for k
      using m(2) by (auto simp: m'_def loc_covers_def)
    ultimately show ?case using m(1) by (intro exI [of _ m']) (auto simp: fold_opt_append)
  qed
  from this [of "[0..<MAX_SPD_VAS_LOCATIONS]"] assms(2) show ?thesis
    by (auto simp: spd_remove_mappings_def Bex_def)
qed

lemma link_member_frame:
  assumes "link_member c p s = Some s'"
  shows "invocation_capabilities s' = invocation_capabilities s" "user_caps s' = user_caps s" "pmem s' = pmem s"
    "cap_base (spds s' q) = cap_base (spds s q)" "location (spds s' q) = location (spds s q)"
    "c_pg_tbl (mpd_descriptors s' d) = c_pg_tbl (mpd_descriptors s d)"
  using assms by (auto simp: link_member_def Let_def bind_eq_Some_conv split: option.splits)

lemma unlink_member_frame:
  assumes "unlink_member c p s = Some s'"
  shows "invocation_capabilities s' = invocation_capabilities s" "user_caps s' = user_caps s" "pmem s' = pmem s"
    "cap_base (spds s' q) = cap_base (spds s q)" "cap_range (spds s' q) = cap_range (spds s q)"
    "user_cap_tbl (spds s' q) = user_cap_tbl (spds s q)"
    "location (spds s' q) = location (spds s q)" "c_pg_tbl (mpd_descriptors s' d) = c_pg_tbl (mpd_descriptors s d)"
    "c_flags (mpd_descriptors s' d) = c_flags (mpd_descriptors s d)"
    "c_ref_cnt (mpd_descriptors s' d) = c_ref_cnt (mpd_descriptors s d)"
  using assms by (auto simp: unlink_member_def Let_def bind_eq_Some_conv split: if_splits)

lemma cap_agrees_cong:
  assumes "invocation_capabilities s' = invocation_capabilities s" "user_caps s' = user_caps s"
    "\<And>q. cap_base (spds s' q) = cap_base (spds s q)"
  shows "cap_agrees s' i = cap_agrees s i"
  using assms by (simp add: cap_agrees_def split: cap_owner.splits)

lemma unlink_member_caps:
  assumes "unlink_member c p s = Some t" "\<And>q. s_composite_spd (spds t q) = (if q = p then PSpd p else s_composite_spd (spds s q))"
  shows "between t c p ys = between s c p ys" "cap_usable t q i = cap_usable s q i" "level t i = level s i"
    "cap_ranges_inv t = cap_ranges_inv s"
proof -
  note fr = unlink_member_frame [OF assms(1)]
  have "to_spd p t i = to_spd p s i" "member_caps t q = member_caps s q" for i q
    by (simp_all add: to_spd_def member_caps_def caps_after_first_def fr)
  moreover have "to_member p c t i = to_member p c s i" for i
    by (simp add: to_member_def spd_in_composite_def spd_is_member_def fr assms(2) split: option.splits)
  ultimately show "between t c p ys = between s c p ys" by (simp add: between_def cong: map_cong)
  show "cap_usable t q i = cap_usable s q i" "level t i = level s i" "cap_ranges_inv t = cap_ranges_inv s"
    by (simp_all add: cap_usable_def spd_owns_def level_def cap_ranges_inv_def cap_free_def fr)
qed

subsection \<open>The free list of descriptors\<close>

definition free_desc :: "composite_spd \<Rightarrow> bool" where
  "free_desc x \<longleftrightarrow> c_flags x = SPD_FREE OR SPD_COMPOSITE \<and> c_ref_cnt x = 0 \<and> members x = None"

text \<open>
  The free descriptors are \<open>xs\<close>, the page pool has a page for each of them, none of which is the
  kernel's own page directory, and that directory maps the information region.
\<close>

definition mpd_pool :: "kstate \<Rightarrow> cspdp list \<Rightarrow> bool" where
  "mpd_pool s xs \<longleftrightarrow> chain (\<lambda>c. c_next (mpd_descriptors s c)) (mpd_freelist s) xs
     \<and> (\<forall>c \<in> set xs. c < MAX_MPD_DESC \<and> free_desc (mpd_descriptors s c))
     \<and> (\<exists>ps. page_pool s ps \<and> length xs \<le> length ps \<and> kern_pgtbl_mapping s \<notin> set ps \<and> KERN_BASE_ADDR \<notin> set ps)
     \<and> \<not> pgtbl_entry_absent s (va_to_pa (kern_pgtbl_mapping s)) COS_INFO_REGION_ADDR"

text \<open>A composite that only its creator still holds, deprecated, with its own page table.\<close>

definition last_reference :: "cspdp \<Rightarrow> kstate \<Rightarrow> cspdp list \<Rightarrow> bool" where
  "last_reference c s xs \<longleftrightarrow> c \<notin> set xs \<and> c < MAX_MPD_DESC \<and> c_ref_cnt (mpd_descriptors s c) = 1
     \<and> members (mpd_descriptors s c) = None \<and> master_spd (mpd_descriptors s c) = None
     \<and> spd_mpd_is_depricated s c
     \<and> c_next (mpd_descriptors s c) = Some c \<and> c_prev (mpd_descriptors s c) = Some c
     \<and> pa_to_va (c_pg_tbl (mpd_descriptors s c)) \<notin> {0, KERN_BASE_ADDR, kern_pgtbl_mapping s}
     \<and> (\<forall>ps. page_pool s ps \<longrightarrow> length ps < 1023 \<and> pa_to_va (c_pg_tbl (mpd_descriptors s c)) \<notin> set ps)"

definition mpd_get :: "kstate \<Rightarrow> (cspdp \<times> kstate) option" where
  "mpd_get s = do { (c, s) \<leftarrow> spd_alloc_mpd s; c \<leftarrow> c; Some (c, s) }"

lemma page_pool_cong:
  assumes "page_list_head s' = page_list_head s" "page_list_len s' = page_list_len s"
    "\<And>q. q \<in> set ps \<Longrightarrow> pmem s' (va_to_pa q) 0 = pmem s (va_to_pa q) 0"
  shows "page_pool s' ps \<longleftrightarrow> page_pool s ps"
  using assms chain_cong [of ps "pool_next s'" "pool_next s" "ptr (page_list_head s)"]
  by (auto simp: page_pool_def pool_next_def page_next_def)

lemma cos_get_pg_pool_exact:
  assumes "page_pool s (q # ps)"
  shows "\<exists>h l. cos_get_pg_pool s = Some (q, set_page_next q 0 (s\<lparr>page_list_head := h, page_list_len := l\<rparr>))
    \<and> page_pool (set_page_next q 0 (s\<lparr>page_list_head := h, page_list_len := l\<rparr>)) ps"
proof -
  have "page_list_head s = q" "q \<noteq> 0" using assms by (auto simp: page_pool_def)
  with cos_get_pg_pool_pop [OF assms] show ?thesis by (auto simp: cos_get_pg_pool_def Let_def)
qed

lemma cos_put_pg_pool_exact:
  assumes "page_pool s ps" "q \<noteq> 0 \<and> q \<notin> set ps \<and> length ps < 1023"
  shows "\<exists>h l. cos_put_pg_pool q s = Some (set_page_next q (page_list_head s) s\<lparr>page_list_head := h, page_list_len := l\<rparr>)
    \<and> page_pool (set_page_next q (page_list_head s) s\<lparr>page_list_head := h, page_list_len := l\<rparr>) (q # ps)"
proof -
  have "cos_put_pg_pool q s =
      Some (set_page_next q (page_list_head s) s\<lparr>page_list_head := q, page_list_len := page_list_len s + 1\<rparr>)"
    using assms by (simp add: cos_put_pg_pool_def Let_def page_pool_len)
  with cos_put_pg_pool_push [OF assms] show ?thesis by fastforce
qed

lemma spd_alloc_pgtbl_ok:
  assumes "page_pool s (q # ps)" "kern_pgtbl_mapping s \<notin> set (q # ps)"
    "\<not> pgtbl_entry_absent s (va_to_pa (kern_pgtbl_mapping s)) COS_INFO_REGION_ADDR" "va_to_pa q \<noteq> 0"
  shows "\<exists>h l m. spd_alloc_pgtbl s = Some (va_to_pa q, s\<lparr>page_list_head := h, page_list_len := l, pmem := m\<rparr>)
    \<and> page_pool (s\<lparr>page_list_head := h, page_list_len := l, pmem := m\<rparr>) ps
    \<and> (\<forall>i < 1023. m (va_to_pa q) i = pmem s (va_to_pa (kern_pgtbl_mapping s)) i)
    \<and> (\<forall>f. f \<noteq> va_to_pa q \<longrightarrow> m f = pmem s f)"
proof -
  let ?k = "va_to_pa (kern_pgtbl_mapping s)" and ?pp = "va_to_pa q"
  obtain h l where g: "cos_get_pg_pool s = Some (q, set_page_next q 0 (s\<lparr>page_list_head := h, page_list_len := l\<rparr>))"
    and pool: "page_pool (set_page_next q 0 (s\<lparr>page_list_head := h, page_list_len := l\<rparr>)) ps"
    using cos_get_pg_pool_exact [OF assms(1)] by blast
  define m where "m = (pmem s)(?pp := (\<lambda>i. if i < 1023 then pmem s ?k i else ((pmem s ?pp)(0 := 0)) i))"
  have q: "q \<noteq> 0" "q \<notin> set ps" using assms(1) page_pool_distinct [OF assms(1)] by (auto simp: page_pool_def)
  have ne: "?k \<noteq> ?pp" using assms(2) by auto
  have cp: "copy_pgtbl_range_nocheck ?pp ?k 0 0xFFFFFFFF (set_page_next q 0 (s\<lparr>page_list_head := h, page_list_len := l\<rparr>)) =
      Some (s\<lparr>page_list_head := h, page_list_len := l, pmem := m\<rparr>)"
    using ne by (simp add: copy_pgtbl_range_nocheck_def Let_def pgd_index_def kconsts set_page_next_def m_def cong: if_cong)
  have "\<not> pgtbl_entry_absent (s\<lparr>page_list_head := h, page_list_len := l, pmem := m\<rparr>) ?pp COS_INFO_REGION_ADDR"
    using assms(3) by (simp add: pgtbl_entry_absent_def m_def pgd_index_def kconsts)
  with g q cp have "spd_alloc_pgtbl s = Some (?pp, s\<lparr>page_list_head := h, page_list_len := l, pmem := m\<rparr>)"
    by (simp add: spd_alloc_pgtbl_def set_page_next_def)
  moreover have "page_pool (s\<lparr>page_list_head := h, page_list_len := l, pmem := m\<rparr>) ps"
    by (rule page_pool_cong [THEN iffD1, OF _ _ _ pool]) (use q in \<open>auto simp: set_page_next_def m_def\<close>)
  ultimately show ?thesis by (intro exI [of _ h] exI [of _ l] exI [of _ m]) (simp add: m_def)
qed

lemma mpd_get_top:
  assumes "mpd_pool s (c # xs)"
  shows "\<exists>s'. mpd_get s = Some (c, s') \<and> mpd_pool s' xs"
proof -
  from assms obtain ps where ch: "mpd_freelist s = Some c" "chain (\<lambda>c. c_next (mpd_descriptors s c)) (c_next (mpd_descriptors s c)) xs"
    and fd: "\<forall>d \<in> set (c # xs). d < MAX_MPD_DESC \<and> free_desc (mpd_descriptors s d)"
    and pp: "page_pool s ps" "length (c # xs) \<le> length ps" "kern_pgtbl_mapping s \<notin> set ps" "KERN_BASE_ADDR \<notin> set ps"
    and kp: "\<not> pgtbl_entry_absent s (va_to_pa (kern_pgtbl_mapping s)) COS_INFO_REGION_ADDR"
    by (auto simp: mpd_pool_def)
  obtain q qs where ps: "ps = q # qs" using pp(2) by (cases ps) auto
  have "chain (\<lambda>c. c_next (mpd_descriptors s c)) (mpd_freelist s) (c # xs)" using assms unfolding mpd_pool_def by blast
  then have c: "c \<notin> set xs" by (auto dest!: chain_distinct simp del: chain.simps)
  define s1 where "s1 = spd_mpd_remove_flags c SPD_FREE (upd_mpd c (\<lambda>x. x\<lparr>c_next := Some c, c_prev := Some c,
    master_spd := None, members := None\<rparr>) (s\<lparr>mpd_freelist := c_next (mpd_descriptors s c)\<rparr>))"
  have s1: "mpd_descriptors s1 d = mpd_descriptors s d" if "d \<noteq> c" for d
    using that by (simp add: s1_def spd_mpd_remove_flags_def)
  have fr: "pmem s1 = pmem s" "page_list_head s1 = page_list_head s" "page_list_len s1 = page_list_len s"
    "kern_pgtbl_mapping s1 = kern_pgtbl_mapping s" "mpd_freelist s1 = c_next (mpd_descriptors s c)"
    by (simp_all add: s1_def spd_mpd_remove_flags_def)
  have "page_pool s1 (q # qs)" using pp(1) ps page_pool_cong [of s1 s "q # qs"] by (simp add: fr)
  moreover have "va_to_pa q \<noteq> 0" using pp(4) ps by (auto simp: va_to_pa_def)
  ultimately obtain h l m where al: "spd_alloc_pgtbl s1 = Some (va_to_pa q, s1\<lparr>page_list_head := h, page_list_len := l, pmem := m\<rparr>)"
    and pl: "page_pool (s1\<lparr>page_list_head := h, page_list_len := l, pmem := m\<rparr>) qs"
    and mf: "\<forall>f. f \<noteq> va_to_pa q \<longrightarrow> m f = pmem s f"
    using spd_alloc_pgtbl_ok [of s1 q qs] pp(3) kp ps by (auto simp: fr pgtbl_entry_absent_def)
  define s' where "s' = upd_mpd c (\<lambda>x. x\<lparr>c_pg_tbl := va_to_pa q\<rparr>) (spd_mpd_take c (s1\<lparr>page_list_head := h, page_list_len := l, pmem := m\<rparr>))"
  have "mpd_get s = Some (c, s')"
    using ch(1) fd al \<open>va_to_pa q \<noteq> 0\<close>
    by (simp add: mpd_get_def spd_alloc_mpd_def spd_alloc_mpd_desc_def free_desc_def Let_def s1_def [symmetric]
        s'_def spd_mpd_index_def spd_mpd_by_idx_def)
  moreover have d: "mpd_descriptors s' d = mpd_descriptors s d" if "d \<noteq> c" for d
    using that s1 by (simp add: s'_def spd_mpd_take_def)
  have "chain (\<lambda>c. c_next (mpd_descriptors s' c)) (mpd_freelist s') xs"
    using ch(2) c d by (subst chain_cong [where ny = "\<lambda>c. c_next (mpd_descriptors s c)"])
      (auto simp: s'_def spd_mpd_take_def fr)
  moreover have "page_pool s' qs" using pl page_pool_cong [of s' "s1\<lparr>page_list_head := h, page_list_len := l, pmem := m\<rparr>" qs]
    by (simp add: s'_def spd_mpd_take_def)
  moreover have "va_to_pa (kern_pgtbl_mapping s) \<noteq> va_to_pa q" using pp(3) ps by auto
  ultimately show ?thesis
    using fd c d pp ps kp mf
    by (auto simp: mpd_pool_def s'_def spd_mpd_take_def fr pgtbl_entry_absent_def intro!: exI [of _ qs])
qed

lemma spd_mpd_release_last:
  assumes "mpd_pool s xs" "last_reference c s xs"
  shows "\<exists>s'. spd_mpd_release c s = Some s' \<and> mpd_pool s' (c # xs)"
proof -
  let ?q = "pa_to_va (c_pg_tbl (mpd_descriptors s c))"
  from assms(1) obtain ps where ch: "chain (\<lambda>c. c_next (mpd_descriptors s c)) (mpd_freelist s) xs"
    and fd: "\<forall>d \<in> set xs. d < MAX_MPD_DESC \<and> free_desc (mpd_descriptors s d)"
    and pp: "page_pool s ps" "length xs \<le> length ps" "kern_pgtbl_mapping s \<notin> set ps" "KERN_BASE_ADDR \<notin> set ps"
    and kp: "\<not> pgtbl_entry_absent s (va_to_pa (kern_pgtbl_mapping s)) COS_INFO_REGION_ADDR"
    by (auto simp: mpd_pool_def)
  note lr = assms(2) [unfolded last_reference_def]
  define s1 where "s1 = upd_mpd c (\<lambda>x. x\<lparr>c_ref_cnt := 0, c_next := mpd_freelist s, c_prev := None\<rparr>) s\<lparr>mpd_freelist := Some c\<rparr>"
  have un: "mpd_unlink c (upd_mpd c (\<lambda>x. x\<lparr>c_ref_cnt := c_ref_cnt x - 1\<rparr>) s) = Some s1"
    using lr by (simp add: mpd_unlink_def s1_def Let_def) (simp add: upd_mpd_def)
  have fr: "pmem s1 = pmem s" "page_list_head s1 = page_list_head s" "page_list_len s1 = page_list_len s"
    "kern_pgtbl_mapping s1 = kern_pgtbl_mapping s" by (simp_all add: s1_def)
  have "page_pool s1 ps" using pp(1) page_pool_cong [of s1 s ps] by (simp add: fr)
  moreover have "?q \<noteq> 0 \<and> ?q \<notin> set ps \<and> length ps < 1023" using lr pp(1) by auto
  ultimately obtain h l where put: "cos_put_pg_pool ?q s1 = Some (set_page_next ?q (page_list_head s1) s1\<lparr>page_list_head := h, page_list_len := l\<rparr>)"
    and pl: "page_pool (set_page_next ?q (page_list_head s1) s1\<lparr>page_list_head := h, page_list_len := l\<rparr>) (?q # ps)"
    using cos_put_pg_pool_exact by blast
  define s2 where "s2 = set_page_next ?q (page_list_head s1) s1\<lparr>page_list_head := h, page_list_len := l\<rparr>"
  define s' where "s' = spd_mpd_set_flags c (SPD_FREE OR SPD_COMPOSITE) (spd_mpd_reset_flags c (upd_mpd c (\<lambda>x. x\<lparr>c_pg_tbl := 0\<rparr>) s2))"
  have "spd_mpd_release c s = Some s'"
    using lr un put [folded s2_def]
    by (subst spd_mpd_release.simps) (simp add: spd_mpd_is_depricated_def s'_def s1_def)
  moreover have d: "mpd_descriptors s' x = mpd_descriptors s x" if "x \<noteq> c" for x
    using that by (simp add: s'_def s2_def s1_def spd_mpd_set_flags_def spd_mpd_reset_flags_def set_page_next_def)
  have dc: "c_next (mpd_descriptors s' c) = mpd_freelist s" "free_desc (mpd_descriptors s' c)" "mpd_freelist s' = Some c"
    using lr by (simp_all add: s'_def s2_def s1_def spd_mpd_set_flags_def spd_mpd_reset_flags_def set_page_next_def free_desc_def)
  have "chain (\<lambda>c. c_next (mpd_descriptors s' c)) (mpd_freelist s') (c # xs)"
    using ch lr d dc by (simp add: chain_cong [of xs "\<lambda>c. c_next (mpd_descriptors s' c)" "\<lambda>c. c_next (mpd_descriptors s c)"])
      (metis (no_types, lifting) chain_cong)
  moreover have "page_pool s' (?q # ps)" using pl [folded s2_def] page_pool_cong [of s' s2 "?q # ps"]
    by (simp add: s'_def spd_mpd_set_flags_def spd_mpd_reset_flags_def)
  moreover have kq: "kern_pgtbl_mapping s' = kern_pgtbl_mapping s" "?q \<noteq> kern_pgtbl_mapping s" "?q \<noteq> KERN_BASE_ADDR"
    "pmem s' = (pmem s)(va_to_pa ?q := (pmem s (va_to_pa ?q))(0 := page_list_head s))"
    using lr by (simp_all add: s'_def s2_def s1_def spd_mpd_set_flags_def spd_mpd_reset_flags_def set_page_next_def)
  moreover have "\<forall>x \<in> set (c # xs). x < MAX_MPD_DESC \<and> free_desc (mpd_descriptors s' x)"
  proof
    fix x assume "x \<in> set (c # xs)"
    then show "x < MAX_MPD_DESC \<and> free_desc (mpd_descriptors s' x)"
      using fd lr d [of x] dc(2) by (cases "x = c") auto
  qed
  moreover have "\<not> pgtbl_entry_absent s' (va_to_pa (kern_pgtbl_mapping s')) COS_INFO_REGION_ADDR"
  proof -
    have "pgd_index COS_INFO_REGION_ADDR \<noteq> 0" by (simp add: pgd_index_def kconsts)
    with kp kq(1,4) show ?thesis by (auto simp: pgtbl_entry_absent_def)
  qed
  moreover have "length (c # xs) \<le> length (?q # ps)" "kern_pgtbl_mapping s' \<notin> set (?q # ps)"
    "KERN_BASE_ADDR \<notin> set (?q # ps)" using pp kq(1-3) by auto
  ultimately show ?thesis unfolding mpd_pool_def by blast
qed

interpretation mpdpool: free_stack mpd_pool mpd_get spd_mpd_release last_reference
proof
  show "distinct xs" if "mpd_pool s xs" for s xs using that chain_distinct by (auto simp: mpd_pool_def)
qed (fact mpd_get_top spd_mpd_release_last)+

lemma num_members_length: "members_ring s c xs \<Longrightarrow> spd_composite_num_members s c = Some (length xs)"
proof (cases xs)
  case Nil
  then show "members_ring s c xs \<Longrightarrow> ?thesis" by (simp add: spd_composite_num_members_def members_ring_def)
next
  case (Cons x ys)
  assume "members_ring s c xs"
  then have ring: "dring (\<lambda>q. composite_member_next (spds s q)) (\<lambda>q. composite_member_prev (spds s q)) (x # ys)"
    and m: "members (mpd_descriptors s c) = Some x" using Cons by (auto simp: members_ring_def)
  have "fold_opt (\<lambda>p n. Some (n + 1)) zs k = Some (k + length zs)" for zs :: "spdp list" and k :: nat
    by (induction zs arbitrary: k) auto
  with count_ring.loop_ring [of s _ x ys c 0, OF ring m] m Cons show ?thesis
    by (simp add: spd_composite_num_members_def)
qed

lemma fold_alone:
  "\<exists>t. fold_opt (\<lambda>p s. Some (upd_spd p (\<lambda>x. x\<lparr>s_composite_spd := PSpd p, composite_member_next := Some p,
      composite_member_prev := Some p\<rparr>) s)) xs s = Some t \<and> mpd_descriptors t = mpd_descriptors s
    \<and> (\<forall>q. spds t q = (if q \<in> set xs then (spds s q)\<lparr>s_composite_spd := PSpd q, composite_member_next := Some q,
         composite_member_prev := Some q\<rparr> else spds s q))"
  by (induction xs rule: rev_induct) (auto simp: fold_opt_append)

subsection \<open>Properties\<close>

text \<open>What has to hold for a component \<open>p\<close> to join or leave the composite \<open>c\<close> with members \<open>xs\<close>.\<close>

definition live_composite :: "kstate \<Rightarrow> cspdp \<Rightarrow> bool" where
  "live_composite s c \<longleftrightarrow> spd_is_composite s (PCspd c) \<and> \<not> spd_mpd_is_depricated s c \<and> \<not> spd_mpd_is_subordinate s c"

definition well_placed :: "kstate \<Rightarrow> spdp \<Rightarrow> bool" where
  "well_placed s p \<longleftrightarrow> (\<forall>i < MAX_SPD_VAS_LOCATIONS. loc_in_bounds (location (spds s p) i))
     \<and> loc_covers (location (spds s p) 0) (pgd_index (lowest_addr (location (spds s p) 0)))"

text \<open>
  An example: component 3, alone in composite 0, has one capability (number 9) to component 2, which has
  4 MB of memory mapped at \<^verbatim>\<open>0x40000000\<close>.
\<close>

definition join_example :: kstate where
  "join_example =
     upd_spd 3 (\<lambda>x. x\<lparr>cap_base := 8, cap_range := 2, user_cap_tbl := 0xC1000000, s_composite_spd := PCspd 0,
       composite_member_next := Some 3, composite_member_prev := Some 3\<rparr>)
     (upd_spd 2 (\<lambda>x. x\<lparr>s_pg_tbl := 0x2000000,
       location := (location x)(0 := \<lparr>lowest_addr = 0x40000000, loc_size = 0x400000\<rparr>)\<rparr>)
     (upd_cap 8 (\<lambda>k. k\<lparr>owner := CAP_ALLOCATED_UNUSED\<rparr>)
     (upd_cap 9 (\<lambda>k. k\<lparr>owner := Owner 3, destination := Some 2, il := 3\<rparr>)
     (upd_mpd 0 (\<lambda>x. x\<lparr>c_flags := SPD_COMPOSITE, c_ref_cnt := 1, c_pg_tbl := 0x1000000, members := Some 3\<rparr>)
       (zero_kstate\<lparr>pmem := (\<lambda>_ _. 0)(0x2000000 := (\<lambda>_. 0)(0x100 := 0x3000027))\<rparr>)))))"

text \<open>The same system after component 2 joined at the head of the ring.\<close>

definition leave_example :: kstate where
  "leave_example =
     upd_spd 3 (\<lambda>x. x\<lparr>composite_member_next := Some 2, composite_member_prev := Some 2\<rparr>)
     (upd_spd 2 (\<lambda>x. x\<lparr>s_composite_spd := PCspd 0, composite_member_next := Some 3, composite_member_prev := Some 3\<rparr>)
     (upd_cap 9 (\<lambda>k. k\<lparr>il := 0\<rparr>)
     (upd_mpd 0 (\<lambda>x. x\<lparr>members := Some 2\<rparr>)
       (join_example\<lparr>pmem := (pmem join_example)(0x1000000 := (\<lambda>_. 0)(0x100 := 0x3000027))\<rparr>))))"

lemmas example_simps = zero_kstate_def zero_spd_def zero_cap_def zero_mpd_def spd_flag_defs il_defs kconsts

lemma join_example_caps:
  "cap_range (spds join_example q) = (if q = 3 then 2 else 0)" "cap_base (spds join_example q) = (if q = 3 then 8 else 0)"
  "user_cap_tbl (spds join_example 3) = 0xC1000000"
  "invocation_capabilities join_example i = (if i = 8 then zero_cap\<lparr>owner := CAP_ALLOCATED_UNUSED\<rparr>
     else if i = 9 then zero_cap\<lparr>owner := Owner 3, destination := Some 2, il := 3\<rparr> else zero_cap)"
  by (auto simp: join_example_def example_simps)

lemma join_example_between: "between join_example 0 2 [3] = {9}"
  by (auto simp: between_def member_caps_def caps_after_first_def to_spd_def join_example_caps
      Let_def zero_cap_def simp del: upt_Suc)

lemma join_example_inv: "cap_ranges_inv join_example"
  by (auto simp: cap_ranges_inv_def spd_owns_def join_example_caps cap_free_def zero_cap_def kconsts split: if_splits)

lemma join_example_placed: "well_placed join_example 2"
  by (auto simp: well_placed_def loc_in_bounds_def loc_covers_def join_example_def pgd_index_def example_simps)




lemma leave_example_eqs:
  "cap_range (spds leave_example q) = cap_range (spds join_example q)"
  "cap_base (spds leave_example q) = cap_base (spds join_example q)"
  "user_cap_tbl (spds leave_example q) = user_cap_tbl (spds join_example q)"
  "location (spds leave_example q) = location (spds join_example q)"
  "owner (invocation_capabilities leave_example i) = owner (invocation_capabilities join_example i)"
  "destination (invocation_capabilities leave_example i) = destination (invocation_capabilities join_example i)"
  by (simp_all add: leave_example_def)


text \<open>
  A reference taken on a composite protection domain when a thread enters it and released when the
  thread returns leaves everything as it was, as long as someone else still holds the composite.
\<close>

theorem spd_mpd_ipc_take_release:
  assumes "c_ref_cnt (mpd_descriptors s c) \<noteq> 0"
  shows "spd_mpd_ipc_release c (spd_mpd_ipc_take c s) = Some s"
  using assms
  by (simp add: spd_mpd_ipc_release_def spd_mpd_ipc_take_def spd_mpd_take_def spd_mpd_release.simps)
    (simp add: upd_mpd_def)

theorem spd_mpd_ipc_take_release_witness:
  "spd_mpd_ipc_release 0 (spd_mpd_ipc_take 0 join_example) = Some join_example"
  by (rule spd_mpd_ipc_take_release) (simp add: join_example_def)


definition mpd_example :: kstate where
  "mpd_example = upd_mpd 4 (\<lambda>x. x\<lparr>c_flags := SPD_FREE OR SPD_COMPOSITE, c_next := Some 6\<rparr>)
     (upd_mpd 6 (\<lambda>x. x\<lparr>c_flags := SPD_FREE OR SPD_COMPOSITE\<rparr>)
     (pool_example\<lparr>mpd_freelist := Some 4, kern_pgtbl_mapping := 0xC1008000,
        pmem := (pmem pool_example)(0x01008000 := (\<lambda>_. 0)(0x100 := 0x27))\<rparr>))"




end
