(* ===== verification/Spd.thy ===== *)
theory Spd
  imports Composite_Spd
begin

text \<open>
  Components (\<^verbatim>\<open>struct spd\<close>, \<^verbatim>\<open>kernel/spd.c\<close>): initialisation, allocation and release of the descriptors,
  the place of a component in its address space, and lookup by index.
\<close>

subsection \<open>Initialisation and release\<close>

definition spd_init_all :: "kstate \<Rightarrow> kstate" where
  "spd_init_all s =
     (let s = fold (\<lambda>i. upd_spd i (\<lambda>x. x\<lparr>s_flags := SPD_FREE, s_composite_spd := PSpd i,
                s_freelist_next := (if i = MAX_NUM_SPDS - 1 then None else Some (i + 1))\<rparr>)) [0..<MAX_NUM_SPDS] s
      in s\<lparr>spd_freelist_head := Some 0\<rparr>)"

definition spd_init :: "kstate \<Rightarrow> kstate" where
  "spd_init s = spd_init_mpd_descriptors (spd_init_capabilities (spd_init_all s))"

definition spd_is_free :: "kstate \<Rightarrow> spdp \<Rightarrow> bool" where
  "spd_is_free s idx \<longleftrightarrow> has (s_flags (spds s idx)) SPD_FREE"

definition spd_free :: "spdp \<Rightarrow> kstate \<Rightarrow> kstate option" where
  "spd_free p s = do {
     let s = upd_spd p (\<lambda>x. x\<lparr>s_flags := SPD_FREE, s_freelist_next := spd_freelist_head s\<rparr>) s;
     let s = s\<lparr>spd_freelist_head := Some p\<rparr>;
     if s_composite_spd (spds s p) \<noteq> PSpd p
     then (case s_composite_spd (spds s p) of PCspd c \<Rightarrow> spd_mpd_terminate c s | PSpd _ \<Rightarrow> None)
     else Some s }"

definition spd_free_all :: "kstate \<Rightarrow> kstate option" where
  "spd_free_all s = do {
     s \<leftarrow> fold_opt (\<lambda>i s. if \<not> has (s_flags (spds s i)) SPD_FREE then spd_free i s else Some s) [0..<MAX_NUM_SPDS] s;
     s \<leftarrow> spd_mpd_free_all s;
     clear_pg_pool (spd_init s) }"

subsection \<open>Allocation\<close>

definition spd_alloc :: "u16 \<Rightarrow> vaddr \<Rightarrow> vaddr \<Rightarrow> int \<Rightarrow> kstate \<Rightarrow> (spdp option \<times> kstate) option" where
  "spd_alloc num_caps ucap_tbl upcall_addr vid s =
     (case spd_freelist_head s of None \<Rightarrow> Some (None, s)
      | Some p \<Rightarrow> do {
          let s = s\<lparr>spd_freelist_head := s_freelist_next (spds s p)\<rparr>;
          let s = upd_spd p (\<lambda>x. x\<lparr>s_flags := 0\<rparr>) s;
          (r, s) \<leftarrow> (if num_caps \<noteq> 0 then spd_reserve_cap_range p (int (unat num_caps)) s
                     else Some (0, upd_spd p (\<lambda>x. x\<lparr>cap_base := 0, cap_range := 0\<rparr>) s));
          if num_caps \<noteq> 0 \<and> r = -1 then do { s \<leftarrow> spd_free p s; Some (None, s) }
          else do {
            let s = upd_spd p (\<lambda>x. x\<lparr>user_cap_tbl := 0, user_vaddr_cap_tbl := ucap_tbl,
              upcall_entry := upcall_addr, sched_shared_page := 0\<rparr>) s;
            s \<leftarrow> (if num_caps \<noteq> 0 \<and> ucap_tbl \<noteq> 0
                  then do { (_, s) \<leftarrow> spd_add_static_cap (Some p) 0 (Some p) 0 s; Some s }
                  else Some s);
            let s = upd_spd p (\<lambda>x. x\<lparr>s_composite_spd := PSpd p, sched_depth := -1, parent_sched := None,
              composite_member_next := Some p, composite_member_prev := Some p,
              location := (\<lambda>i. if i < MAX_SPD_VAS_LOCATIONS then (location x i)\<lparr>loc_size := 0\<rparr> else location x i)\<rparr>) s;
            (_, s) \<leftarrow> vas_spd_add vid p s;
            Some (Some p, s) } })"

subsection \<open>The place of a component in its address space\<close>

definition user_struct_fits_on_page :: "u32 \<Rightarrow> u32 \<Rightarrow> bool" where
  "user_struct_fits_on_page addr sz \<longleftrightarrow>
     (if sz = 0 then True else addr AND PAGE_MASK = (addr + sz - 1) AND PAGE_MASK)"

text \<open>
  The word of physical memory that a kernel address, or a user address under the current page table,
  names; a user address that does not translate is a fault.
\<close>

definition kaddr_cell :: "vaddr \<Rightarrow> paddr \<times> nat" where
  "kaddr_cell k = (va_to_pa (k AND PAGE_MASK), unat (drop_bit 2 (k AND NOT PAGE_MASK)))"

definition uaddr_cell :: "kstate \<Rightarrow> vaddr \<Rightarrow> (paddr \<times> nat) option" where
  "uaddr_cell s a = (let k = pgtbl_vaddr_to_kaddr s (cr3 s) a in if k = 0 then None else Some (kaddr_cell k))"

definition pages_identical :: "vaddr \<Rightarrow> vaddr \<Rightarrow> kstate \<Rightarrow> (bool \<times> kstate) option" where
  "pages_identical addr1 addr2 s = do {
     (f1, i1) \<leftarrow> uaddr_cell s addr1;
     let (f2, i2) = kaddr_cell addr2;
     let saved_val = pmem s f1 i1;
     if pmem s f2 i2 \<noteq> saved_val then Some (False, s)
     else do {
       let s = set_pmem f1 i1 0xdeadbeef s;
       if pmem s f2 i2 \<noteq> 0xdeadbeef then Some (False, s)
       else Some (True, set_pmem f1 i1 saved_val s) } }"

definition spd_set_location :: "spdp \<Rightarrow> u32 \<Rightarrow> u32 \<Rightarrow> paddr \<Rightarrow> kstate \<Rightarrow> (int \<times> kstate) option" where
  "spd_set_location p lowest sz tbl s = do {
     let uaddr = user_vaddr_cap_tbl (spds s p);
     let tblsz = (16 * ucast (cap_range (spds s p)) :: u32);
     c_assert (uaddr \<noteq> 0);
     c_assert (user_cap_tbl (spds s p) = 0);
     if uaddr < lowest \<or> uaddr + tblsz > lowest + sz \<or> \<not> user_struct_fits_on_page uaddr tblsz then Some (-1, s)
     else do {
       let s = upd_spd p (\<lambda>x. x\<lparr>s_pg_tbl := tbl,
         location := (location x)(0 := \<lparr>lowest_addr = lowest, loc_size = sz\<rparr>)\<rparr>) s;
       let kaddr = pgtbl_vaddr_to_kaddr s tbl uaddr;
       if kaddr = 0 then Some (-1, s)
       else do {
         let s = upd_spd p (\<lambda>x. x\<lparr>user_cap_tbl := kaddr\<rparr>) s;
         (ident, s) \<leftarrow> pages_identical uaddr kaddr s;
         c_assert ident;
         Some (0, s) } } }"

definition SERVICE_SIZE :: u32 where "SERVICE_SIZE = 0x400000"

definition spd_add_location :: "spdp \<Rightarrow> u32 \<Rightarrow> u32 \<Rightarrow> kstate \<Rightarrow> (int \<times> kstate) option" where
  "spd_add_location p base sz s =
     (if s_pg_tbl (spds s p) = 0 then Some (-1, s)
      else if base AND (SERVICE_SIZE - 1) \<noteq> 0 then Some (-1, s)
      else case find (\<lambda>i. loc_size (location (spds s p) i) = 0) [0..<MAX_SPD_VAS_LOCATIONS] of
        None \<Rightarrow> Some (-1, s)
      | Some i \<Rightarrow> do {
          (r, s) \<leftarrow> virtual_namespace_alloc p base sz s;
          if r = 0 then Some (-1, s)
          else do {
            let s = upd_spd p (\<lambda>x. x\<lparr>location := (location x)(i := \<lparr>lowest_addr = base, loc_size = sz\<rparr>)\<rparr>) s;
            (r, s) \<leftarrow> pgtbl_add_middledir_range (s_pg_tbl (spds s p)) base sz s;
            c_assert (r = 0);
            Some (0, s) } })"

definition spd_rem_location :: "spdp \<Rightarrow> u32 \<Rightarrow> u32 \<Rightarrow> kstate \<Rightarrow> (int \<times> kstate) option" where
  "spd_rem_location p base sz s =
     (if s_pg_tbl (spds s p) = 0 then Some (-1, s)
      else case find (\<lambda>i. location (spds s p) i = \<lparr>lowest_addr = base, loc_size = sz\<rparr>) [0..<MAX_SPD_VAS_LOCATIONS] of
        None \<Rightarrow> Some (-1, s)
      | Some i \<Rightarrow> do {
          (r, s) \<leftarrow> virtual_namespace_free p base sz s;
          if r = 0 then Some (-1, s)
          else do {
            let s = upd_spd p (\<lambda>x. x\<lparr>location := (location x)(i := \<lparr>lowest_addr = 0, loc_size = 0\<rparr>)\<rparr>) s;
            (r, s) \<leftarrow> pgtbl_rem_middledir_range (s_pg_tbl (spds s p)) base sz s;
            c_assert (r = 0);
            Some (0, s) } })"

text \<open>Only the upper limit is checked.\<close>

definition spd_get_by_index :: "kstate \<Rightarrow> int \<Rightarrow> spdp option option" where
  "spd_get_by_index s idx =
     (if idx \<ge> int MAX_NUM_SPDS then Some None
      else if idx < 0 then None
      else if spd_is_free s (nat idx) then Some None
      else Some (Some (nat idx)))"

subsection \<open>Properties\<close>

lemma no_slot: "sz < 0x400000 \<Longrightarrow> drop_bit HPAGE_SHIFT (sz :: u32) = 0"
proof -
  assume "sz < 0x400000"
  then have "unat sz div 2 ^ 22 = 0" by (simp add: word_less_nat_alt)
  moreover have "unat (drop_bit 22 sz) = unat sz div 2 ^ 22" by (rule trans [OF unat_drop_bit_eq]) (simp only: drop_bit_eq_div)
  ultimately have "unat (drop_bit 22 sz) = 0" by simp
  then show ?thesis by (simp add: HPAGE_SHIFT_def unat_eq_zero)
qed

lemma hslots_small: "sz < 0x400000 \<Longrightarrow> hslots base sz = []"
  by (simp add: hslots_def no_slot)

lemma add_middledir_once:
  assumes "0 < sz" "sz < 0x400000" "unat base + 0x400000 < 2 ^ 32" "env_page s (env_page_n s) \<noteq> 0"
  shows "\<exists>s'. pgtbl_add_middledir_range pt base sz s = Some (0, s') \<and> spds s' = spds s \<and> vas_list s' = vas_list s"
proof -
  have "unat sz < 0x400000" using assms(2) by (simp add: word_less_nat_alt)
  then have u: "unat (base + sz) = unat base + unat sz" "unat (base + HPAGE_SIZE) = unat base + 0x400000"
    using assms(3) by (simp_all add: unat_word_ariths HPAGE_SIZE_def)
  have "base < base + sz" "\<not> base + HPAGE_SIZE < base + sz"
    using u \<open>unat sz < 0x400000\<close> assms(1) by (simp_all add: word_less_nat_alt)
  then show ?thesis using assms(4)
    by (auto simp: pgtbl_add_middledir_range_def pgtbl_add_middledir_def cos_alloc_page_def Let_def set_pmem_def
        pgtbl_add_middledir_range_loop.simps)
qed

text \<open>
  A location of less than 4 MB is granted without a reservation: the slots of a request are counted
  by rounding down, so \<^verbatim>\<open>spd_add_location\<close> finds nothing to check and nothing to take.  It succeeds at
  every aligned address, also one that another component owns, records the location and replaces the
  page table there, while the namespace stays as it was.
\<close>

theorem spd_add_location_small_unreserved:
  assumes "s_pg_tbl (spds s p) \<noteq> 0" "base AND (SERVICE_SIZE - 1) = 0" "0 < sz" "sz < 0x400000"
    and "unat base + 0x400000 < 2 ^ 32" "i < MAX_SPD_VAS_LOCATIONS" "loc_size (location (spds s p) i) = 0"
    and "composite_vas (spds s p) = Some v" "v < MAX_VAS_NUM" "env_page s (env_page_n s) \<noteq> 0"
  shows "\<exists>s'. spd_add_location p base sz s = Some (0, s') \<and> layout_of s' = layout_of s
    \<and> (\<exists>j < MAX_SPD_VAS_LOCATIONS. location (spds s' p) j = \<lparr>lowest_addr = base, loc_size = sz\<rparr>)"
proof -
  obtain j where j: "find (\<lambda>i. loc_size (location (spds s p) i) = 0) [0..<MAX_SPD_VAS_LOCATIONS] = Some j" "j < MAX_SPD_VAS_LOCATIONS"
    using assms(6,7) by (cases "find (\<lambda>i. loc_size (location (spds s p) i) = 0) [0..<MAX_SPD_VAS_LOCATIONS]")
      (auto simp: find_None_iff find_Some_iff)
  have "unat (drop_bit HPAGE_SHIFT base) \<le> PGD_PER_PTBL" using drop_bit_small [of base] by (simp add: PGD_PER_PTBL_def)
  moreover have "drop_bit HPAGE_SHIFT sz = 0" using assms(4) by (rule no_slot)
  ultimately have "virtual_namespace_alloc p base sz s = Some (1, s)"
    using virtual_namespace_alloc_eq [OF assms(8,9), of base sz] hslots_small [OF assms(4)] by (simp add: upd_vas_def)
  moreover
  define t where "t = upd_spd p (\<lambda>x. x\<lparr>location := (location x)(j := \<lparr>lowest_addr = base, loc_size = sz\<rparr>)\<rparr>) s"
  obtain s' where "pgtbl_add_middledir_range (s_pg_tbl (spds t p)) base sz t = Some (0, s')" "spds s' = spds t" "vas_list s' = vas_list t"
    using add_middledir_once [OF assms(3-5), of t "s_pg_tbl (spds t p)"] assms(10) by (auto simp: t_def)
  ultimately show ?thesis using assms(1,2) j
    by (auto simp: spd_add_location_def Let_def layout_of_def fun_eq_iff simp flip: t_def) (auto simp: t_def)
qed

theorem spd_add_location_small_unreserved_witness:
  "layout_of vas_example 0 0x103 = Some 7
   \<and> (\<exists>s'. spd_add_location 4 0x40C00000 0x1000 (upd_spd 4 (\<lambda>x. x\<lparr>s_pg_tbl := 0x01000000\<rparr>) vas_example) = Some (0, s')
        \<and> layout_of s' 0 0x103 = Some 7)"
proof -
  let ?s = "upd_spd 4 (\<lambda>x. x\<lparr>s_pg_tbl := 0x01000000\<rparr>) vas_example"
  have l: "layout_of ?s 0 0x103 = Some 7" "layout_of vas_example 0 0x103 = Some 7"
    by (simp_all add: layout_of_def vas_example_def zero_kstate_def zero_vas_def upd_spd_def upd_vas_def)
  have "\<exists>s'. spd_add_location 4 0x40C00000 0x1000 ?s = Some (0, s') \<and> layout_of s' = layout_of ?s
      \<and> (\<exists>j < MAX_SPD_VAS_LOCATIONS. location (spds s' 4) j = \<lparr>lowest_addr = 0x40C00000, loc_size = 0x1000\<rparr>)"
    by (rule spd_add_location_small_unreserved [where i = 0 and v = 0])
      (simp_all add: vas_example_def zero_kstate_def zero_spd_def SERVICE_SIZE_def kconsts upd_vas_def)
  with l show ?thesis by auto
qed

end
