(* ===== verification/Threads.thy ===== *)
theory Threads
  imports Spd
begin

text \<open>
  Threads (\<^verbatim>\<open>kernel/include/thread.h\<close>, \<^verbatim>\<open>kernel/thread.c\<close>): the invocation stack, lookup, the
  free list, the membership checks behind every authorisation, and rollback of atomic sections;
  with the two routines of \<^verbatim>\<open>platform/linux/module/hijack.c\<close> that map a thread's data page.

  A frame pointer is an index into \<^verbatim>\<open>stack_base\<close>; an index outside the array is a failure.
\<close>

subsection \<open>References held by frames\<close>

text \<open>
  Callers cast a \<^verbatim>\<open>struct spd_poly\<close> to \<^verbatim>\<open>struct composite_spd\<close>.  The count is at the same offset in
  both; dropping the last reference of something that is no composite runs into memory the cast
  does not describe.
\<close>

definition poly_ipc_take :: "spd_poly \<Rightarrow> kstate \<Rightarrow> kstate" where
  "poly_ipc_take q s =
     (case q of PCspd c \<Rightarrow> spd_mpd_ipc_take c s
      | PSpd p \<Rightarrow> upd_spd p (\<lambda>x. x\<lparr>s_ref_cnt := s_ref_cnt x + 1\<rparr>) s)"

definition poly_ipc_release :: "spd_poly \<Rightarrow> kstate \<Rightarrow> kstate option" where
  "poly_ipc_release q s =
     (case q of PCspd c \<Rightarrow> spd_mpd_ipc_release c s
      | PSpd p \<Rightarrow> if s_ref_cnt (spds s p) = 1 then None
                  else Some (upd_spd p (\<lambda>x. x\<lparr>s_ref_cnt := s_ref_cnt x - 1\<rparr>) s))"

subsection \<open>The invocation stack\<close>

definition frame_at :: "kstate \<Rightarrow> thdp \<Rightarrow> int \<Rightarrow> thd_invocation_frame option" where
  "frame_at s t i = (if 0 \<le> i \<and> i < int MAX_SERVICE_DEPTH then Some (stack_base (threads s t) (nat i)) else None)"

definition set_frame :: "thdp \<Rightarrow> int \<Rightarrow> (thd_invocation_frame \<Rightarrow> thd_invocation_frame) \<Rightarrow> kstate \<Rightarrow> kstate option" where
  "set_frame t i f s =
     (if 0 \<le> i \<and> i < int MAX_SERVICE_DEPTH
      then Some (upd_thd t (\<lambda>x. x\<lparr>stack_base := (stack_base x)(nat i := f (stack_base x (nat i)))\<rparr>) s)
      else None)"

definition thd_invocation_push :: "thdp \<Rightarrow> spdp \<Rightarrow> vaddr \<Rightarrow> vaddr \<Rightarrow> kstate \<Rightarrow> kstate option" where
  "thd_invocation_push curr_thd curr_spd sp ip s = do {
     let s = upd_thd curr_thd (\<lambda>x. x\<lparr>stack_ptr := stack_ptr x + 1\<rparr>) s;
     set_frame curr_thd (stack_ptr (threads s curr_thd))
       (\<lambda>_. \<lparr>current_composite_spd = Some (s_composite_spd (spds s curr_spd)), f_spd = Some curr_spd,
             f_sp = sp, f_ip = ip\<rparr>) s }"

text \<open>The popped frame stays in the array above the new top.\<close>

definition thd_invocation_pop :: "thdp \<Rightarrow> kstate \<Rightarrow> (int option \<times> kstate)" where
  "thd_invocation_pop curr_thd s =
     (if stack_ptr (threads s curr_thd) \<le> 0 then (None, s)
      else (Some (stack_ptr (threads s curr_thd)), upd_thd curr_thd (\<lambda>x. x\<lparr>stack_ptr := stack_ptr x - 1\<rparr>) s))"

definition thd_invstk_top :: "kstate \<Rightarrow> thdp \<Rightarrow> int option" where
  "thd_invstk_top s curr_thd =
     (if stack_ptr (threads s curr_thd) < 0 then None else Some (stack_ptr (threads s curr_thd)))"

definition thd_invstk_nth :: "kstate \<Rightarrow> thdp \<Rightarrow> int \<Rightarrow> int option" where
  "thd_invstk_nth s t n = (let idx = stack_ptr (threads s t) - n in if idx < 0 then None else Some idx)"

definition thd_invstk_move_nth :: "thdp \<Rightarrow> int \<Rightarrow> bool \<Rightarrow> kstate \<Rightarrow> kstate option" where
  "thd_invstk_move_nth t n rem s = do {
     c_assert (n \<noteq> 0);
     c_assert (n < stack_ptr (threads s t));
     if_keep \<leftarrow> frame_at s t (n + 1);
     if rem then set_frame t n (\<lambda>f. f\<lparr>f_spd := f_spd if_keep,
                                     current_composite_spd := current_composite_spd if_keep\<rparr>) s
     else set_frame t n (\<lambda>_. if_keep) s }"

definition thd_invstk_rem_nth :: "thdp \<Rightarrow> int \<Rightarrow> kstate \<Rightarrow> (int \<times> kstate) option" where
  "thd_invstk_rem_nth t n s =
     (let sp = stack_ptr (threads s t); idx = sp - n
      in if n < 0 \<or> n \<ge> sp then Some (-1, s)
         else do {
           f \<leftarrow> frame_at s t idx;
           cspd \<leftarrow> current_composite_spd f;
           s \<leftarrow> poly_ipc_release cspd s;
           s \<leftarrow> fold_opt (\<lambda>i. thd_invstk_move_nth t i (i = idx)) [idx..sp - 1] s;
           Some (0, upd_thd t (\<lambda>x. x\<lparr>stack_ptr := stack_ptr x - 1\<rparr>) s) })"

definition thd_get_current :: "kstate \<Rightarrow> thdp option" where
  "thd_get_current s = current_thread s"

definition thd_set_current :: "thdp \<Rightarrow> kstate \<Rightarrow> kstate" where
  "thd_set_current t s = s\<lparr>current_thread := Some t\<rparr>"

definition thd_curr_spd_thd :: "kstate \<Rightarrow> thdp option \<Rightarrow> spdp option" where
  "thd_curr_spd_thd s t = (case t of None \<Rightarrow> None | Some t \<Rightarrow>
     (case frame_at s t (stack_ptr (threads s t)) of None \<Rightarrow> None | Some f \<Rightarrow> f_spd f))"

definition thd_curr_spd_noprint :: "kstate \<Rightarrow> spdp option" where
  "thd_curr_spd_noprint s = thd_curr_spd_thd s (thd_get_current s)"

text \<open>
  The instruction and stack pointer of a caller are in the frame of its callee; those of the top
  are in the registers, and only when the thread was preempted.
\<close>

definition thd_get_frame_ip :: "kstate \<Rightarrow> thdp \<Rightarrow> int \<Rightarrow> u32 option" where
  "thd_get_frame_ip s t frame_offset =
     (let sp = stack_ptr (threads s t); off = sp - frame_offset
      in if frame_offset > sp \<or> frame_offset < 0 then Some 0
         else if off = sp then Some (if has (t_flags (threads s t)) THD_STATE_PREEMPTED then r_ip (regs (threads s t)) else 0)
         else map_option f_ip (frame_at s t (off + 1)))"

definition thd_set_frame_ip :: "thdp \<Rightarrow> int \<Rightarrow> u32 \<Rightarrow> kstate \<Rightarrow> (u32 \<times> kstate) option" where
  "thd_set_frame_ip t frame_offset new_ip s =
     (let sp = stack_ptr (threads s t); off = sp - frame_offset
      in if frame_offset > sp \<or> frame_offset < 0 then Some (-1, s)
         else if off = sp
         then Some (0, if has (t_flags (threads s t)) THD_STATE_PREEMPTED
                       then upd_thd t (\<lambda>x. x\<lparr>regs := (regs x)\<lparr>r_ip := new_ip\<rparr>\<rparr>) s else s)
         else do { s \<leftarrow> set_frame t (off + 1) (\<lambda>f. f\<lparr>f_ip := new_ip\<rparr>) s; Some (0, s) })"

definition thd_get_frame_sp :: "kstate \<Rightarrow> thdp \<Rightarrow> int \<Rightarrow> u32 option" where
  "thd_get_frame_sp s t frame_offset =
     (let sp = stack_ptr (threads s t); off = sp - frame_offset
      in if frame_offset > sp \<or> frame_offset < 0 then Some 0
         else if off = sp then Some (if has (t_flags (threads s t)) THD_STATE_PREEMPTED then r_sp (regs (threads s t)) else 0)
         else map_option f_sp (frame_at s t (off + 1)))"

definition thd_set_frame_sp :: "thdp \<Rightarrow> int \<Rightarrow> u32 \<Rightarrow> kstate \<Rightarrow> (u32 \<times> kstate) option" where
  "thd_set_frame_sp t frame_offset new_sp s =
     (let sp = stack_ptr (threads s t); off = sp - frame_offset
      in if frame_offset > sp \<or> frame_offset < 0 then Some (1, s)
         else if off = sp
         then Some (0, if has (t_flags (threads s t)) THD_STATE_PREEMPTED
                       then upd_thd t (\<lambda>x. x\<lparr>regs := (regs x)\<lparr>r_sp := new_sp\<rparr>\<rparr>) s else s)
         else do { s \<leftarrow> set_frame t (off + 1) (\<lambda>f. f\<lparr>f_sp := new_sp\<rparr>) s; Some (0, s) })"

text \<open>The depth of the stack is passed as the frame offset.\<close>

definition thd_get_ip :: "kstate \<Rightarrow> thdp \<Rightarrow> u32 option" where
  "thd_get_ip s t = thd_get_frame_ip s t (stack_ptr (threads s t))"

definition thd_get_sp :: "kstate \<Rightarrow> thdp \<Rightarrow> u32 option" where
  "thd_get_sp s t = thd_get_frame_sp s t (stack_ptr (threads s t))"

text \<open>\<^verbatim>\<open>spd\<close> is read before it is written; \<open>junk\<close> is what the stack slot held.\<close>

definition thd_get_thd_spd :: "spdp option \<Rightarrow> kstate \<Rightarrow> thdp \<Rightarrow> spdp option option" where
  "thd_get_thd_spd junk s t =
     (case junk of Some p \<Rightarrow> Some (Some p)
      | None \<Rightarrow> do { i \<leftarrow> thd_invstk_top s t; f \<leftarrow> frame_at s t i; Some (f_spd f) })"

definition thd_get_thd_spdpoly :: "kstate \<Rightarrow> thdp \<Rightarrow> spd_poly option option" where
  "thd_get_thd_spdpoly s t =
     do { i \<leftarrow> thd_invstk_top s t; f \<leftarrow> frame_at s t i; Some (current_composite_spd f) }"

definition thd_get_current_spdpoly :: "kstate \<Rightarrow> spd_poly option option" where
  "thd_get_current_spdpoly s =
     (case thd_get_current s of None \<Rightarrow> Some None | Some t \<Rightarrow> thd_get_thd_spdpoly s t)"

subsection \<open>Lookup\<close>

definition thd_get_by_id :: "int \<Rightarrow> thdp option" where
  "thd_get_by_id i = (let adjusted = i - 1
     in if adjusted \<ge> int MAX_NUM_THREADS \<or> adjusted < 0 then None else Some (nat adjusted))"

definition thd_get_id :: "kstate \<Rightarrow> thdp \<Rightarrow> nat" where
  "thd_get_id s t = thread_id (threads s t)"

text \<open>\<^verbatim>\<open>sched_depth\<close> is converted to an unsigned short on the call.\<close>

definition u16_of :: "int \<Rightarrow> nat" where
  "u16_of i = nat (i mod 65536)"

definition thd_get_sched_info :: "kstate \<Rightarrow> thdp \<Rightarrow> int \<Rightarrow> thd_sched_info option" where
  "thd_get_sched_info s t depth = do {
     c_assert (u16_of depth < MAX_SCHED_HIER_DEPTH);
     Some (sched_info (threads s t) (u16_of depth)) }"

definition sched_evt :: "kstate \<Rightarrow> vaddr \<times> nat \<Rightarrow> cos_sched_events" where
  "sched_evt s e = cos_events (sched_areas s (fst e)) (snd e)"

definition thd_get_depth_urg :: "kstate \<Rightarrow> thdp \<Rightarrow> int \<Rightarrow> u16 option" where
  "thd_get_depth_urg s t depth = do {
     tsi \<leftarrow> thd_get_sched_info s t depth;
     c_assert (scheduler tsi \<noteq> None);
     e \<leftarrow> thread_notifications tsi;
     c_assert (fst e \<noteq> 0);
     Some (e_urgency (sched_evt s e)) }"

definition thd_get_depth_sched :: "kstate \<Rightarrow> thdp \<Rightarrow> int \<Rightarrow> spdp option option" where
  "thd_get_depth_sched s t d = do { tsi \<leftarrow> thd_get_sched_info s t d; Some (scheduler tsi) }"

definition thd_scheduled_by :: "kstate \<Rightarrow> thdp \<Rightarrow> spdp \<Rightarrow> bool option" where
  "thd_scheduled_by s t p = do {
     tsi \<leftarrow> thd_get_sched_info s t (sched_depth (spds s p));
     Some (scheduler tsi = Some p) }"

definition thd_spd_in_composite :: "kstate \<Rightarrow> spd_poly \<Rightarrow> spdp \<Rightarrow> bool" where
  "thd_spd_in_composite s cmp p \<longleftrightarrow> s_composite_spd (spds s p) = cmp \<or> spd_composite_member s p cmp"

text \<open>
  Comparing with a \<^verbatim>\<open>NULL\<close> composite is harmless, looking into it is not; a component always has a
  composite, so the comparison never saves the second test.
\<close>

definition thd_spd_in_current_composite :: "kstate \<Rightarrow> thdp \<Rightarrow> spdp \<Rightarrow> bool option" where
  "thd_spd_in_current_composite s t p = do {
     q \<leftarrow> thd_get_thd_spdpoly s t;
     cmp \<leftarrow> q;
     Some (thd_spd_in_composite s cmp p) }"

definition thd_validate_get_current_spd :: "kstate \<Rightarrow> thdp \<Rightarrow> int \<Rightarrow> spdp option option" where
  "thd_validate_get_current_spd s t spd_id = do {
     p \<leftarrow> spd_get_by_index s (int (u16_of spd_id));
     case p of None \<Rightarrow> Some None
     | Some p \<Rightarrow> do {
         ok \<leftarrow> thd_spd_in_current_composite s t p;
         Some (if ok then Some p else None) } }"

definition thd_save_preempted_state :: "thdp \<Rightarrow> pt_regs \<Rightarrow> kstate \<Rightarrow> kstate" where
  "thd_save_preempted_state t r s = upd_thd t (\<lambda>x. x\<lparr>regs := r\<rparr>) s"

fun callpath_loop :: "kstate \<Rightarrow> thdp \<Rightarrow> spdp \<Rightarrow> int list \<Rightarrow> int option" where
  "callpath_loop s t p [] = Some (-1)"
| "callpath_loop s t p (i # is) = do {
     f \<leftarrow> frame_at s t i;
     cmp \<leftarrow> current_composite_spd f;
     if thd_spd_in_composite s cmp p then Some (stack_ptr (threads s t) - i) else callpath_loop s t p is }"

definition thd_validate_spd_in_callpath :: "kstate \<Rightarrow> thdp \<Rightarrow> spdp \<Rightarrow> int option" where
  "thd_validate_spd_in_callpath s t p = do {
     c_assert (stack_ptr (threads s t) \<ge> 0);
     callpath_loop s t p (rev [0..stack_ptr (threads s t)]) }"

subsection \<open>Data pages\<close>

definition thd_publish_data_page :: "thdp \<Rightarrow> vaddr \<Rightarrow> kstate \<Rightarrow> kstate option" where
  "thd_publish_data_page t page s = do {
     let tid = thd_get_id s t;
     c_assert (tid < 1024);
     Some (s\<lparr>shared_region_page := (shared_region_page s)(tid := va_to_pa page OR PG_USER_FLAGS)\<rparr>) }"

definition switch_thread_data_page :: "nat \<Rightarrow> nat \<Rightarrow> kstate \<Rightarrow> kstate option" where
  "switch_thread_data_page old_thd new_thd s = do {
     c_assert (0 \<noteq> old_thd \<and> 0 \<noteq> new_thd);
     c_assert (old_thd < 1024 \<and> new_thd < 1024);
     let m = shared_region_page s;
     let m = m(old_thd := m old_thd AND NOT PG_PRESENT);
     let m = m(new_thd := m new_thd OR PG_PRESENT);
     Some (s\<lparr>shared_region_page := m\<rparr>) }"

subsection \<open>The free list\<close>

definition thd_init_all :: "kstate \<Rightarrow> kstate" where
  "thd_init_all s =
     (let s = fold (\<lambda>i. upd_thd i (\<lambda>x. x\<lparr>thread_id := i + 1,
                t_freelist_next := (if i = MAX_NUM_THREADS - 1 then None else Some (i + 1))\<rparr>)) [0..<MAX_NUM_THREADS] s
      in s\<lparr>thread_freelist_head := Some 0\<rparr>)"

definition thd_init :: "kstate \<Rightarrow> kstate" where
  "thd_init s = (thd_init_all s)\<lparr>current_thread := None\<rparr>"

text \<open>A missing page is reported and then written to.\<close>

definition thd_alloc :: "spdp \<Rightarrow> kstate \<Rightarrow> (thdp option \<times> kstate) option" where
  "thd_alloc p s =
     (case thread_freelist_head s of None \<Rightarrow> Some (None, s)
      | Some t \<Rightarrow> do {
          (page, s) \<leftarrow> cos_get_pg_pool s;
          let s = s\<lparr>thread_freelist_head := t_freelist_next (threads s t)\<rparr>;
          let tid = thread_id (threads s t);
          let s = upd_thd t (\<lambda>_. zero_thread\<lparr>thread_id := tid, data_region := page\<rparr>) s;
          c_assert (page \<noteq> 0);
          let s = set_pmem (va_to_pa page) 0 4 s;
          let s = upd_thd t (\<lambda>x. x\<lparr>ul_data_page := COS_INFO_REGION_ADDR + of_nat (PAGE_SIZE * tid)\<rparr>) s;
          s \<leftarrow> thd_publish_data_page t page s;
          let s = upd_thd t (\<lambda>x. x\<lparr>stack_ptr := -1\<rparr>) s;
          s \<leftarrow> thd_invocation_push t p 0 0 s;
          Some (Some t, upd_thd t (\<lambda>x. x\<lparr>t_flags := 0, thread_brand := None, pending_upcall_requests := 0,
            t_freelist_next := None\<rparr>) s) })"

partial_function (option) thd_free_loop :: "thdp \<Rightarrow> kstate \<Rightarrow> kstate option" where
  "thd_free_loop t s =
     (if stack_ptr (threads s t) > 0
      then do {
        f \<leftarrow> frame_at s t (stack_ptr (threads s t));
        cspd \<leftarrow> current_composite_spd f;
        s \<leftarrow> poly_ipc_release cspd s;
        thd_free_loop t (upd_thd t (\<lambda>x. x\<lparr>stack_ptr := stack_ptr x - 1\<rparr>) s) }
      else Some s)"

definition thd_free :: "thdp option \<Rightarrow> kstate \<Rightarrow> kstate option" where
  "thd_free thd s =
     (case thd of None \<Rightarrow> Some s
      | Some t \<Rightarrow> do {
          s \<leftarrow> thd_free_loop t s;
          s \<leftarrow> (if data_region (threads s t) \<noteq> 0 then cos_put_pg_pool (data_region (threads s t)) s else Some s);
          let s = upd_thd t (\<lambda>x. x\<lparr>t_freelist_next := thread_freelist_head s\<rparr>) s;
          Some (s\<lparr>thread_freelist_head := Some t\<rparr>) })"

definition thd_free_all :: "kstate \<Rightarrow> kstate option" where
  "thd_free_all s =
     fold_opt (\<lambda>i s. if t_freelist_next (threads s i) = None then thd_free (Some i) s else Some s) [0..<MAX_NUM_THREADS] s"

subsection \<open>Atomic sections\<close>

text \<open>\<open>host\<close> is \<^verbatim>\<open>host_in_syscall() || host_in_idle()\<close>; \<open>junk\<close> as for \<^verbatim>\<open>thd_get_thd_spd\<close>.\<close>

definition thd_check_atomic_preempt :: "bool \<Rightarrow> spdp option \<Rightarrow> thdp \<Rightarrow> kstate \<Rightarrow> (int \<times> kstate) option" where
  "thd_check_atomic_preempt host junk t s = do {
     q \<leftarrow> thd_get_thd_spd junk s t;
     ip \<leftarrow> thd_get_ip s t;
     c_assert (host \<or> has (t_flags (threads s t)) THD_STATE_PREEMPTED);
     p \<leftarrow> q;
     let sec = atomic_sections (spds s p);
     case find (\<lambda>i. ip > sec i \<and> ip < sec (i + 1)) (filter even [0..<COS_NUM_ATOMIC_SECTIONS div 2]) of
       Some i \<Rightarrow> Some (1, upd_thd t (\<lambda>x. x\<lparr>regs := (regs x)\<lparr>r_ip := sec i\<rparr>\<rparr>) s)
     | None \<Rightarrow> Some (0, s) }"

subsection \<open>What references leave alone\<close>

text \<open>Equal up to protection domains, the page pool and the counts of components.\<close>

definition outside_mpd :: "kstate \<Rightarrow> kstate" where
  "outside_mpd s = s\<lparr>mpd_descriptors := (\<lambda>_. zero_mpd), mpd_freelist := None, pmem := (\<lambda>_ _. 0), page_list_head := 0,
     page_list_len := 0, spds := (\<lambda>p. (spds s p)\<lparr>s_ref_cnt := 0\<rparr>)\<rparr>"

lemma outside_mpdD:
  assumes "outside_mpd s' = outside_mpd s"
  shows "threads s' = threads s" "thread_freelist_head s' = thread_freelist_head s" "current_thread s' = current_thread s"
    "invocation_capabilities s' = invocation_capabilities s" "sched_areas s' = sched_areas s" "cr3 s' = cr3 s"
    "host_pgd s' = host_pgd s" "shared_region_page s' = shared_region_page s" "composite_thread s' = composite_thread s"
    "(spds s' p)\<lparr>s_ref_cnt := 0\<rparr> = (spds s p)\<lparr>s_ref_cnt := 0\<rparr>"
proof -
  note eqs = arg_cong [OF assms]
  show "(spds s' p)\<lparr>s_ref_cnt := 0\<rparr> = (spds s p)\<lparr>s_ref_cnt := 0\<rparr>"
    using eqs [of "\<lambda>s. spds s p"] by (simp add: outside_mpd_def)
qed (use assms in \<open>auto simp: outside_mpd_def dest: arg_cong [where f = threads] arg_cong [where f = thread_freelist_head]
  arg_cong [where f = current_thread] arg_cong [where f = invocation_capabilities] arg_cong [where f = sched_areas]
  arg_cong [where f = cr3] arg_cong [where f = host_pgd] arg_cong [where f = shared_region_page] arg_cong [where f = composite_thread]\<close>)

lemma outside_mpd_upd [simp]:
  "outside_mpd (upd_mpd c f s) = outside_mpd s"
  "outside_mpd (s\<lparr>mpd_freelist := v\<rparr>) = outside_mpd s"
  "outside_mpd (s\<lparr>page_list_head := a\<rparr>) = outside_mpd s"
  "outside_mpd (s\<lparr>page_list_len := n\<rparr>) = outside_mpd s"
  "outside_mpd (set_page_next p w s) = outside_mpd s"
  "outside_mpd (spd_mpd_reset_flags c s) = outside_mpd s"
  "outside_mpd (spd_mpd_set_flags c fl s) = outside_mpd s"
  by (simp_all add: outside_mpd_def upd_mpd_def set_page_next_def spd_mpd_reset_flags_def spd_mpd_set_flags_def)

lemma mpd_unlink_outside: "mpd_unlink c s = Some s' \<Longrightarrow> outside_mpd s' = outside_mpd s"
  by (auto simp: mpd_unlink_def Let_def bind_eq_Some_conv)

lemma cos_put_pg_pool_outside: "cos_put_pg_pool p s = Some s' \<Longrightarrow> outside_mpd s' = outside_mpd s"
  by (auto simp: cos_put_pg_pool_def Let_def split: if_splits)

lemma spd_mpd_release_outside: "spd_mpd_release c s = Some s' \<Longrightarrow> outside_mpd s' = outside_mpd s"
proof (rule spd_mpd_release.raw_induct [where P = "\<lambda>c s s'. outside_mpd s' = outside_mpd s"], goal_cases)
  case (1 rel c s s')
  from 1(3) show ?case
    by (auto simp: Let_def bind_eq_Some_conv split: if_splits option.splits
        dest!: 1(2) mpd_unlink_outside cos_put_pg_pool_outside)
qed

lemma poly_ipc_take_outside [simp]: "outside_mpd (poly_ipc_take q s) = outside_mpd s"
  by (cases q) (auto simp: poly_ipc_take_def outside_mpd_def upd_spd_def spd_mpd_ipc_take_def spd_mpd_take_def upd_mpd_def
    intro!: arg_cong [where f = "\<lambda>x. s\<lparr>mpd_descriptors := \<lambda>_. zero_mpd, mpd_freelist := None, pmem := \<lambda>_ _. 0, page_list_head := 0,
      page_list_len := 0, spds := x\<rparr>"])

lemma poly_ipc_release_outside: "poly_ipc_release q s = Some s' \<Longrightarrow> outside_mpd s' = outside_mpd s"
  using poly_ipc_take_outside [of q s]
  by (cases q) (auto simp: poly_ipc_release_def spd_mpd_ipc_release_def outside_mpd_def upd_spd_def fun_eq_iff split: if_splits
    dest!: spd_mpd_release_outside
    intro!: arg_cong [where f = "\<lambda>x. s\<lparr>mpd_descriptors := \<lambda>_. zero_mpd, mpd_freelist := None, pmem := \<lambda>_ _. 0, page_list_head := 0,
      page_list_len := 0, spds := x\<rparr>"])

lemma outside_mpd_spd:
  assumes "outside_mpd s' = outside_mpd s"
  shows "s_composite_spd (spds s' p) = s_composite_spd (spds s p)" "upcall_entry (spds s' p) = upcall_entry (spds s p)"
    "s_pg_tbl (spds s' p) = s_pg_tbl (spds s p)" "sched_depth (spds s' p) = sched_depth (spds s p)"
proof -
  note eq = arg_cong [OF outside_mpdD(10) [OF assms, of p]]
  show "s_composite_spd (spds s' p) = s_composite_spd (spds s p)" using eq [of s_composite_spd] by simp
  show "upcall_entry (spds s' p) = upcall_entry (spds s p)" using eq [of upcall_entry] by simp
  show "s_pg_tbl (spds s' p) = s_pg_tbl (spds s p)" using eq [of s_pg_tbl] by simp
  show "sched_depth (spds s' p) = sched_depth (spds s p)" using eq [of sched_depth] by simp
qed

subsection \<open>The invocation stack as a list\<close>

definition stack_ok :: "kstate \<Rightarrow> thdp \<Rightarrow> bool" where
  "stack_ok s t \<longleftrightarrow> -1 \<le> stack_ptr (threads s t) \<and> stack_ptr (threads s t) < int MAX_SERVICE_DEPTH"

definition frames :: "kstate \<Rightarrow> thdp \<Rightarrow> thd_invocation_frame list" where
  "frames s t = map (stack_base (threads s t)) [0..<nat (stack_ptr (threads s t) + 1)]"

text \<open>
  Removing the frame at \<open>k\<close>: the frame above takes its place with the return address of the removed
  one, so that it returns to the caller's caller.
\<close>

definition splice :: "nat \<Rightarrow> thd_invocation_frame list \<Rightarrow> thd_invocation_frame list" where
  "splice k fs = take k fs @
     (case drop (k + 1) fs of [] \<Rightarrow> [] | g # gs \<Rightarrow> g\<lparr>f_sp := f_sp (fs ! k), f_ip := f_ip (fs ! k)\<rparr> # gs)"

lemma frames_length [simp]: "length (frames s t) = nat (stack_ptr (threads s t) + 1)"
  by (simp add: frames_def)

lemma frames_nth [simp]: "i < nat (stack_ptr (threads s t) + 1) \<Longrightarrow> frames s t ! i = stack_base (threads s t) i"
  by (simp add: frames_def)

lemma frames_cong:
  "stack_ptr (threads s' t) = stack_ptr (threads s t) \<Longrightarrow> (\<And>i. int i \<le> stack_ptr (threads s t) \<Longrightarrow>
     stack_base (threads s' t) i = stack_base (threads s t) i) \<Longrightarrow> frames s' t = frames s t"
  by (auto simp: frames_def)

lemma thd_invocation_push_frames:
  assumes "stack_ok s t"
  shows "thd_invocation_push t p sp ip s =
    (if length (frames s t) < MAX_SERVICE_DEPTH
     then Some (upd_thd t (\<lambda>x. x\<lparr>stack_ptr := stack_ptr x + 1, stack_base := (stack_base x)(length (frames s t) :=
       \<lparr>current_composite_spd = Some (s_composite_spd (spds s p)), f_spd = Some p, f_sp = sp, f_ip = ip\<rparr>)\<rparr>) s)
     else None)"
proof -
  have "nat (stack_ptr (threads s t) + 1) < MAX_SERVICE_DEPTH \<longleftrightarrow> stack_ptr (threads s t) + 1 < int MAX_SERVICE_DEPTH"
    using assms by (auto simp: stack_ok_def)
  then show ?thesis using assms
    by (auto simp: thd_invocation_push_def set_frame_def stack_ok_def Let_def) (simp add: upd_thd_def)
qed

lemma stack_height:
  assumes "stack_ok s t"
  obtains n where "stack_ptr (threads s t) = int n - 1" "n \<le> MAX_SERVICE_DEPTH"
  using that [of "nat (stack_ptr (threads s t) + 1)"] assms by (auto simp: stack_ok_def)

lemma frames_push:
  assumes "stack_ok s t" "thd_invocation_push t p sp ip s = Some s'"
  shows "frames s' t = frames s t @ [\<lparr>current_composite_spd = Some (s_composite_spd (spds s p)), f_spd = Some p, f_sp = sp, f_ip = ip\<rparr>]"
    "stack_ok s' t" "stack_ptr (threads s' t) = stack_ptr (threads s t) + 1"
proof -
  obtain n where n: "stack_ptr (threads s t) = int n - 1" using assms(1) by (rule stack_height)
  have less: "n < MAX_SERVICE_DEPTH" using assms n by (auto simp: thd_invocation_push_frames split: if_splits)
  with assms n have s': "s' = upd_thd t (\<lambda>x. x\<lparr>stack_ptr := stack_ptr x + 1, stack_base := (stack_base x)(n :=
       \<lparr>current_composite_spd = Some (s_composite_spd (spds s p)), f_spd = Some p, f_sp = sp, f_ip = ip\<rparr>)\<rparr>) s"
    by (simp add: thd_invocation_push_frames)
  show "frames s' t = frames s t @ [\<lparr>current_composite_spd = Some (s_composite_spd (spds s p)), f_spd = Some p, f_sp = sp, f_ip = ip\<rparr>]"
    by (simp add: s' frames_def n nat_add_distrib)
  show "stack_ok s' t" "stack_ptr (threads s' t) = stack_ptr (threads s t) + 1"
    using n less by (auto simp: s' stack_ok_def)
qed

lemma frames_pop:
  assumes "stack_ok s t" "stack_ptr (threads s t) > 0"
  shows "thd_invocation_pop t s = (Some (stack_ptr (threads s t)), upd_thd t (\<lambda>x. x\<lparr>stack_ptr := stack_ptr x - 1\<rparr>) s)"
    "frames (upd_thd t (\<lambda>x. x\<lparr>stack_ptr := stack_ptr x - 1\<rparr>) s) t = butlast (frames s t)"
    "frame_at (upd_thd t (\<lambda>x. x\<lparr>stack_ptr := stack_ptr x - 1\<rparr>) s) t (stack_ptr (threads s t)) = Some (last (frames s t))"
proof -
  obtain n where n: "stack_ptr (threads s t) = int n" using assms(2) by (metis zero_less_imp_eq_int)
  then have nat_n: "nat (int n + 1) = Suc n" by simp
  show "thd_invocation_pop t s = (Some (stack_ptr (threads s t)), upd_thd t (\<lambda>x. x\<lparr>stack_ptr := stack_ptr x - 1\<rparr>) s)"
    using assms by (simp add: thd_invocation_pop_def)
  show "frames (upd_thd t (\<lambda>x. x\<lparr>stack_ptr := stack_ptr x - 1\<rparr>) s) t = butlast (frames s t)"
    by (simp add: frames_def n nat_n)
  show "frame_at (upd_thd t (\<lambda>x. x\<lparr>stack_ptr := stack_ptr x - 1\<rparr>) s) t (stack_ptr (threads s t)) = Some (last (frames s t))"
    using assms(1) by (simp add: frame_at_def frames_def stack_ok_def n nat_n)
qed

lemma upd_thd_upd [simp]: "upd_thd t f (upd_thd t g s) = upd_thd t (\<lambda>x. f (g x)) s"
  by (simp add: upd_thd_def)

lemma upd_thd_id [simp]: "upd_thd t (\<lambda>x. x) s = s"
  by (simp add: upd_thd_def)

definition shift_down :: "nat \<Rightarrow> nat \<Rightarrow> (nat \<Rightarrow> 'a) \<Rightarrow> nat \<Rightarrow> 'a" where
  "shift_down j n m = (\<lambda>i. if j \<le> i \<and> i < n then m (Suc i) else m i)"

lemma shift_down_step: "j < n \<Longrightarrow> shift_down (Suc j) n (m(j := m (Suc j))) = shift_down j n m"
  by (auto simp: shift_down_def fun_eq_iff)

lemma shift_down_none [simp]: "n \<le> j \<Longrightarrow> shift_down j n m = m"
  by (auto simp: shift_down_def fun_eq_iff)

lemma move_fold:
  assumes "stack_ptr (threads s t) = int n" "n < MAX_SERVICE_DEPTH" "k < j" "j \<le> n"
  shows "fold_opt (\<lambda>i. thd_invstk_move_nth t i (i = int k)) [int j..int n - 1] s =
    Some (upd_thd t (\<lambda>x. x\<lparr>stack_base := shift_down j n (stack_base x)\<rparr>) s)"
  using assms
proof (induction "n - j" arbitrary: j s)
  case 0
  then show ?case by simp
next
  case (Suc m)
  let ?s = "upd_thd t (\<lambda>x. x\<lparr>stack_base := (stack_base x)(j := stack_base x (Suc j))\<rparr>) s"
  from Suc have jn: "j < n" by simp
  have "[int j..int n - 1] = int j # [int (Suc j)..int n - 1]" using jn by (simp add: upto_rec1 add.commute)
  moreover have "thd_invstk_move_nth t (int j) (int j = int k) s = Some ?s"
    using Suc.prems jn by (simp add: thd_invstk_move_nth_def frame_at_def set_frame_def nat_add_distrib) (simp add: upd_thd_def)
  moreover have "fold_opt (\<lambda>i. thd_invstk_move_nth t i (i = int k)) [int (Suc j)..int n - 1] ?s =
    Some (upd_thd t (\<lambda>x. x\<lparr>stack_base := shift_down (Suc j) n (stack_base x)\<rparr>) ?s)"
    using Suc.prems Suc.hyps jn by (intro Suc.hyps(1)) auto
  ultimately show ?case using jn by (simp add: shift_down_step)
qed

lemma frame_keep: "f\<lparr>f_spd := f_spd g, current_composite_spd := current_composite_spd g\<rparr> = g\<lparr>f_sp := f_sp f, f_ip := f_ip f\<rparr>"
  for f g :: thd_invocation_frame
  by (cases f; cases g) simp

lemma splice_map:
  assumes "k < length fs"
  shows "splice k fs = map (\<lambda>i. if i = k then (fs ! Suc k)\<lparr>f_sp := f_sp (fs ! k), f_ip := f_ip (fs ! k)\<rparr>
      else if k < i then fs ! Suc i else fs ! i) [0..<length fs - 1]"
proof -
  obtain gs where fs: "fs = take k fs @ fs ! k # gs" "gs = drop (k + 1) fs" using assms id_take_nth_drop by fastforce
  have len: "length (take k fs) = k" using assms by simp
  show ?thesis
  proof (cases gs)
    case Nil
    then have "length fs = Suc k" using fs(2) assms by simp
    then show ?thesis using Nil fs(2) by (auto simp: splice_def intro!: nth_equalityI)
  next
    case (Cons g hs)
    then have d: "drop (Suc k) fs = g # hs" using fs(2) by simp
    then have nth: "(g # hs) ! i = fs ! (Suc k + i)" for i using assms by (metis Suc_leI nth_drop)
    have "length hs = length fs - Suc (Suc k)" using arg_cong [OF d, of length] by simp
    moreover have "Suc k < length fs" using arg_cong [OF d, of length] by simp
    ultimately show ?thesis using d nth [of 0] nth [of "Suc _"]
      by (auto simp: splice_def nth_append nth_Cons' less_Suc_eq_le intro!: nth_equalityI)
  qed
qed

lemma thd_invstk_rem_nth_splice:
  assumes sp: "stack_ptr (threads s t) = int n" "n < MAX_SERVICE_DEPTH" and k: "0 < k" "k \<le> n"
    and c: "current_composite_spd (frames s t ! k) = Some q" "poly_ipc_release q s = Some s1"
  shows "\<exists>s'. thd_invstk_rem_nth t (int n - int k) s = Some (0, s') \<and> frames s' t = splice k (frames s t)
    \<and> stack_ptr (threads s' t) = int n - 1"
proof -
  define g where "g = (\<lambda>m. if k < n then (m (Suc k))\<lparr>f_sp := f_sp (m k), f_ip := f_ip (m k)\<rparr> else (m k :: thd_invocation_frame))"
  let ?mv = "\<lambda>x. x\<lparr>stack_base := shift_down (Suc k) n ((stack_base x)(k := g (stack_base x)))\<rparr>"
  have thr: "threads s1 = threads s" using poly_ipc_release_outside [OF c(2)] outside_mpdD(1) by blast
  have fold: "fold_opt (\<lambda>i. thd_invstk_move_nth t i (i = int k)) [int k..int n - 1] s1 = Some (upd_thd t ?mv s1)"
  proof (cases "k = n")
    case True
    then show ?thesis by (simp add: g_def)
  next
    case False
    with k have kn: "k < n" by simp
    let ?s2 = "upd_thd t (\<lambda>x. x\<lparr>stack_base := (stack_base x)(k := g (stack_base x))\<rparr>) s1"
    have "[int k..int n - 1] = int k # [int (Suc k)..int n - 1]" using kn by (simp add: upto_rec1 add.commute)
    moreover have "thd_invstk_move_nth t (int k) (int k = int k) s1 = Some ?s2"
      using sp k kn thr by (simp add: thd_invstk_move_nth_def frame_at_def set_frame_def nat_add_distrib g_def)
        (simp add: upd_thd_def frame_keep)
    moreover have "fold_opt (\<lambda>i. thd_invstk_move_nth t i (i = int k)) [int (Suc k)..int n - 1] ?s2 =
       Some (upd_thd t (\<lambda>x. x\<lparr>stack_base := shift_down (Suc k) n (stack_base x)\<rparr>) ?s2)"
      using sp k kn thr by (intro move_fold) auto
    ultimately show ?thesis by simp
  qed
  let ?s' = "upd_thd t (\<lambda>x. (?mv x)\<lparr>stack_ptr := stack_ptr x - 1\<rparr>) s1"
  have "current_composite_spd (stack_base (threads s t) k) = Some q" using c(1) sp k by simp
  then have "thd_invstk_rem_nth t (int n - int k) s = Some (0, ?s')"
    using sp k c(2) fold by (simp add: thd_invstk_rem_nth_def frame_at_def Let_def)
  moreover have "frames ?s' t = splice k (frames s t)"
    using sp k thr by (auto simp: splice_map frames_def nat_add_distrib shift_down_def g_def simp del: upt_Suc)
  moreover have "stack_ptr (threads ?s' t) = int n - 1" using sp thr by simp
  ultimately show ?thesis by blast
qed

subsection \<open>Authorisation by call path\<close>

text \<open>The distance of the first element with a property, \<open>-1\<close> if there is none.\<close>

definition nearest :: "('a \<Rightarrow> bool) \<Rightarrow> 'a list \<Rightarrow> int" where
  "nearest P xs = (if \<exists>x \<in> set xs. P x then int (length (takeWhile (\<lambda>x. \<not> P x) xs)) else -1)"

lemma nearest_Cons: "nearest P (x # xs) = (if P x then 0 else if nearest P xs = -1 then -1 else nearest P xs + 1)"
  by (auto simp: nearest_def)

definition frame_in :: "kstate \<Rightarrow> spdp \<Rightarrow> thd_invocation_frame \<Rightarrow> bool" where
  "frame_in s p f \<longleftrightarrow> (\<exists>c. current_composite_spd f = Some c \<and> thd_spd_in_composite s c p)"

lemma callpath_loop_nearest:
  assumes "stack_ptr (threads s t) = int n" "n < MAX_SERVICE_DEPTH"
    and "\<And>i. i \<le> n \<Longrightarrow> current_composite_spd (stack_base (threads s t) i) \<noteq> None"
    and "m \<le> Suc n"
  shows "callpath_loop s t p (rev (map int [0..<m])) =
    Some (let r = nearest (frame_in s p) (rev (map (stack_base (threads s t)) [0..<m]))
          in if r = -1 then -1 else r + int (Suc n - m))"
  using assms(4)
proof (induction m)
  case 0
  then show ?case by (simp add: nearest_def)
next
  case (Suc m)
  then obtain c where c: "current_composite_spd (stack_base (threads s t) m) = Some c" using assms(3) [of m] by auto
  have fr: "frame_at s t (int m) = Some (stack_base (threads s t) m)" using Suc.prems assms(2) by (simp add: frame_at_def)
  let ?r = "nearest (frame_in s p) (rev (map (stack_base (threads s t)) [0..<m]))"
  have fi: "frame_in s p (stack_base (threads s t) m) = thd_spd_in_composite s c p" using c by (simp add: frame_in_def)
  have "?r = -1 \<or> ?r \<ge> 0" by (simp add: nearest_def)
  with Suc c fr fi show ?case
    using assms(1) by (auto simp: nearest_Cons Let_def of_nat_diff)
qed

subsection \<open>The free list of threads\<close>

definition new_thread :: "nat \<Rightarrow> vaddr \<Rightarrow> spd_poly \<Rightarrow> spdp \<Rightarrow> thread" where
  "new_thread tid page c p = zero_thread\<lparr>thread_id := tid, data_region := page,
     ul_data_page := COS_INFO_REGION_ADDR + of_nat (PAGE_SIZE * tid),
     stack_base := (\<lambda>_. zero_frame)(0 := \<lparr>current_composite_spd = Some c, f_spd = Some p, f_sp = 0, f_ip = 0\<rparr>)\<rparr>"

lemma thd_alloc_exact:
  assumes "thread_freelist_head s = Some t" "page_pool s (q # ps)" "thread_id (threads s t) < 1024"
  shows "\<exists>s'. thd_alloc p s = Some (Some t, s') \<and> thread_freelist_head s' = t_freelist_next (threads s t)
    \<and> threads s' = (threads s)(t := new_thread (thread_id (threads s t)) q (s_composite_spd (spds s p)) p)
    \<and> shared_region_page s' = (shared_region_page s)(thread_id (threads s t) := va_to_pa q OR PG_USER_FLAGS)
    \<and> page_pool s' ps \<and> current_thread s' = current_thread s \<and> spds s' = spds s"
proof -
  obtain h l where get: "cos_get_pg_pool s = Some (q, set_page_next q 0 (s\<lparr>page_list_head := h, page_list_len := l\<rparr>))"
    and pool: "page_pool (set_page_next q 0 (s\<lparr>page_list_head := h, page_list_len := l\<rparr>)) ps"
    using cos_get_pg_pool_exact [OF assms(2)] by blast
  have q: "q \<noteq> 0" "q \<notin> set ps" using assms(2) page_pool_distinct [OF assms(2)] by (auto simp: page_pool_def)
  define s' where "s' = (set_page_next q 4 (set_page_next q 0 (s\<lparr>page_list_head := h, page_list_len := l\<rparr>)))
     \<lparr>thread_freelist_head := t_freelist_next (threads s t),
      threads := (threads s)(t := new_thread (thread_id (threads s t)) q (s_composite_spd (spds s p)) p),
      shared_region_page := (shared_region_page s)(thread_id (threads s t) := va_to_pa q OR PG_USER_FLAGS)\<rparr>"
  have "thd_alloc p s = Some (Some t, s')"
    using assms(1,3) q(1)
    by (simp add: thd_alloc_def get Let_def thd_publish_data_page_def thd_get_id_def thd_invocation_push_def set_frame_def
        MAX_SERVICE_DEPTH_def)
      (simp add: s'_def new_thread_def upd_thd_def set_pmem_def set_page_next_def zero_thread_def)
  moreover have "page_pool s' ps"
  proof -
    have "pmem s' (va_to_pa x) 0 = pmem (set_page_next q 0 (s\<lparr>page_list_head := h, page_list_len := l\<rparr>)) (va_to_pa x) 0"
      if "x \<in> set ps" for x using that q(2) by (auto simp: s'_def set_page_next_def)
    with pool page_pool_cong [of s' "set_page_next q 0 (s\<lparr>page_list_head := h, page_list_len := l\<rparr>)" ps]
    show ?thesis by (simp add: s'_def set_page_next_def)
  qed
  ultimately show ?thesis by (simp add: s'_def set_page_next_def)
qed

definition thd_pool :: "kstate \<Rightarrow> thdp list \<Rightarrow> bool" where
  "thd_pool s xs \<longleftrightarrow> chain (\<lambda>t. t_freelist_next (threads s t)) (thread_freelist_head s) xs
     \<and> (\<forall>t \<in> set xs. t < MAX_NUM_THREADS \<and> thread_id (threads s t) = Suc t)
     \<and> (\<exists>ps. page_pool s ps \<and> length xs \<le> length ps)"

text \<open>A thread in its base component, with its data page.\<close>

definition at_rest :: "thdp \<Rightarrow> kstate \<Rightarrow> thdp list \<Rightarrow> bool" where
  "at_rest t s xs \<longleftrightarrow> t \<notin> set xs \<and> t < MAX_NUM_THREADS \<and> thread_id (threads s t) = Suc t
     \<and> stack_ptr (threads s t) \<le> 0 \<and> data_region (threads s t) \<noteq> 0
     \<and> (\<forall>ps. page_pool s ps \<longrightarrow> length ps < 1023 \<and> data_region (threads s t) \<notin> set ps)"

definition thd_get :: "spdp \<Rightarrow> kstate \<Rightarrow> (thdp \<times> kstate) option" where
  "thd_get p s = do { (t, s) \<leftarrow> thd_alloc p s; t \<leftarrow> t; Some (t, s) }"

definition thd_put :: "thdp \<Rightarrow> kstate \<Rightarrow> kstate option" where
  "thd_put t s = thd_free (Some t) s"

lemma thd_get_top:
  assumes "thd_pool s (t # xs)"
  shows "\<exists>s'. thd_get p s = Some (t, s') \<and> thd_pool s' xs"
proof -
  let ?nx = "\<lambda>t. t_freelist_next (threads s t)"
  from assms obtain ps where c0: "chain ?nx (thread_freelist_head s) (t # xs)"
    and ids: "\<forall>t \<in> set (t # xs). t < MAX_NUM_THREADS \<and> thread_id (threads s t) = Suc t"
    and ps: "page_pool s ps" "length (t # xs) \<le> length ps" unfolding thd_pool_def by blast
  have d: "distinct (t # xs)" using c0 by (rule chain_distinct)
  have hd: "thread_freelist_head s = Some t" and ch: "chain ?nx (t_freelist_next (threads s t)) xs" using c0 by simp_all
  obtain q qs where qs: "ps = q # qs" using ps(2) by (cases ps) auto
  have "thread_id (threads s t) < 1024" using ids by (simp add: MAX_NUM_THREADS_def)
  with thd_alloc_exact [OF hd ps(1) [unfolded qs], of p] obtain s' where s': "thd_alloc p s = Some (Some t, s')"
    "thread_freelist_head s' = t_freelist_next (threads s t)" "page_pool s' qs"
    "threads s' = (threads s)(t := new_thread (thread_id (threads s t)) q (s_composite_spd (spds s p)) p)" by blast
  have same: "threads s' u = threads s u" if "u \<in> set xs" for u using that d s'(4) by auto
  have "chain (\<lambda>t. t_freelist_next (threads s' t)) (thread_freelist_head s') xs"
    using ch s'(2) same chain_cong [of xs "\<lambda>t. t_freelist_next (threads s' t)" ?nx] by simp
  moreover have "\<forall>u \<in> set xs. u < MAX_NUM_THREADS \<and> thread_id (threads s' u) = Suc u" using ids same by simp
  moreover have "length xs \<le> length qs" using ps(2) qs by simp
  ultimately have "thd_pool s' xs" using s'(3) unfolding thd_pool_def by blast
  with s'(1) show ?thesis by (simp add: thd_get_def)
qed

lemma thd_put_top:
  assumes "thd_pool s xs" "at_rest t s xs"
  shows "\<exists>s'. thd_put t s = Some s' \<and> thd_pool s' (t # xs)"
proof -
  from assms(1) obtain ps where ch: "chain (\<lambda>t. t_freelist_next (threads s t)) (thread_freelist_head s) xs"
    and ids: "\<forall>t \<in> set xs. t < MAX_NUM_THREADS \<and> thread_id (threads s t) = Suc t"
    and ps: "page_pool s ps" "length xs \<le> length ps" by (auto simp: thd_pool_def)
  note r = assms(2) [unfolded at_rest_def]
  let ?q = "data_region (threads s t)"
  have "?q \<noteq> 0 \<and> ?q \<notin> set ps \<and> length ps < 1023" using r ps(1) by blast
  then obtain h l where put: "cos_put_pg_pool ?q s = Some (set_page_next ?q (page_list_head s) s\<lparr>page_list_head := h, page_list_len := l\<rparr>)"
    and pool: "page_pool (set_page_next ?q (page_list_head s) s\<lparr>page_list_head := h, page_list_len := l\<rparr>) (?q # ps)"
    using cos_put_pg_pool_exact [OF ps(1)] by blast
  define s1 where "s1 = set_page_next ?q (page_list_head s) s\<lparr>page_list_head := h, page_list_len := l\<rparr>"
  define s' where "s' = (upd_thd t (\<lambda>x. x\<lparr>t_freelist_next := thread_freelist_head s1\<rparr>) s1)\<lparr>thread_freelist_head := Some t\<rparr>"
  have thr: "threads s1 = threads s" "thread_freelist_head s1 = thread_freelist_head s" by (simp_all add: s1_def set_page_next_def)
  have "thd_put t s = Some s'"
    using r put by (simp add: thd_put_def thd_free_def thd_free_loop.simps s'_def s1_def Let_def)
  moreover have "chain (\<lambda>t. t_freelist_next (threads s' t)) (thread_freelist_head s') (t # xs)"
  proof -
    have "t_freelist_next (threads s' u) = t_freelist_next (threads s u)" if "u \<in> set xs" for u
      using that r thr by (auto simp: s'_def)
    then show ?thesis using ch thr chain_cong [of xs "\<lambda>t. t_freelist_next (threads s' t)" "\<lambda>t. t_freelist_next (threads s t)"]
      by (simp add: s'_def)
  qed
  moreover have "page_pool s' (?q # ps)" using pool [folded s1_def] page_pool_cong [of s' s1 "?q # ps"] by (simp add: s'_def)
  moreover have "\<forall>u \<in> set (t # xs). u < MAX_NUM_THREADS \<and> thread_id (threads s' u) = Suc u"
    using ids r thr by (auto simp: s'_def)
  moreover have "length (t # xs) \<le> length (?q # ps)" using ps(2) by simp
  ultimately show ?thesis unfolding thd_pool_def by blast
qed

interpretation thdpool: free_stack thd_pool "thd_get p" thd_put at_rest for p
proof unfold_locales
  show "distinct xs" if "thd_pool s xs" for s xs
    using that chain_distinct by (simp add: thd_pool_def) blast
  show "\<exists>s'. thd_get p s = Some (t, s') \<and> thd_pool s' xs" if "thd_pool s (t # xs)" for s t xs
    using that by (rule thd_get_top)
  show "\<exists>s'. thd_put t s = Some s' \<and> thd_pool s' (t # xs)" if "thd_pool s xs" "at_rest t s xs" for s t xs
    using that by (rule thd_put_top)
qed

subsection \<open>Properties\<close>


definition stack_example :: kstate where
  "stack_example = upd_thd 3 (\<lambda>x. x\<lparr>stack_ptr := 2, stack_base := (stack_base x)
       (0 := \<lparr>current_composite_spd = Some (PSpd 5), f_spd = Some 5, f_sp = 0, f_ip = 0\<rparr>,
        Suc 0 := \<lparr>current_composite_spd = Some (PSpd 6), f_spd = Some 6, f_sp = 0x100, f_ip = 0x200\<rparr>,
        2 := \<lparr>current_composite_spd = Some (PSpd 7), f_spd = Some 7, f_sp = 0x300, f_ip = 0x400\<rparr>)\<rparr>)
     (upd_spd 6 (\<lambda>x. x\<lparr>s_ref_cnt := 2\<rparr>) zero_kstate)"


text \<open>
  C21.  \<^verbatim>\<open>thd_invstk_rem_nth\<close> removes one invocation from the middle of a stack: the reference to its
  protection domain is dropped, everything below is untouched, everything above moves down one place,
  and the component above the removed one now returns where the removed one would have returned.
  The bottom frame cannot be removed, and an offset outside the stack is refused without a change.
\<close>

theorem thd_invstk_rem_nth_correct:
  assumes "stack_ptr (threads s t) = int n" "n < MAX_SERVICE_DEPTH"
  shows "(k = 0 \<or> n < k \<longrightarrow> thd_invstk_rem_nth t (int n - int k) s = Some (-1, s))
    \<and> (0 < k \<and> k \<le> n \<longrightarrow> current_composite_spd (frames s t ! k) = Some q \<longrightarrow> poly_ipc_release q s = Some s1 \<longrightarrow>
        (\<exists>s'. thd_invstk_rem_nth t (int n - int k) s = Some (0, s') \<and> frames s' t = splice k (frames s t)))"
  using assms thd_invstk_rem_nth_splice [OF assms, of k q s1] by (auto simp: thd_invstk_rem_nth_def Let_def)

theorem thd_invstk_rem_nth_correct_witness:
  "stack_ptr (threads stack_example 3) = int 2 \<and> (2::nat) < MAX_SERVICE_DEPTH
   \<and> (\<exists>s'. thd_invstk_rem_nth 3 1 stack_example = Some (0, s') \<and> frames s' 3 =
        [\<lparr>current_composite_spd = Some (PSpd 5), f_spd = Some 5, f_sp = 0, f_ip = 0\<rparr>,
         \<lparr>current_composite_spd = Some (PSpd 7), f_spd = Some 7, f_sp = 0x100, f_ip = 0x200\<rparr>])"
proof -
  have sp: "stack_ptr (threads stack_example 3) = int 2" and d: "(2::nat) < MAX_SERVICE_DEPTH"
    by (simp_all add: stack_example_def MAX_SERVICE_DEPTH_def)
  have fr: "frames stack_example 3 = [\<lparr>current_composite_spd = Some (PSpd 5), f_spd = Some 5, f_sp = 0, f_ip = 0\<rparr>,
      \<lparr>current_composite_spd = Some (PSpd 6), f_spd = Some 6, f_sp = 0x100, f_ip = 0x200\<rparr>,
      \<lparr>current_composite_spd = Some (PSpd 7), f_spd = Some 7, f_sp = 0x300, f_ip = 0x400\<rparr>]"
    by (simp add: frames_def stack_example_def upt_rec numeral_3_eq_3 numeral_2_eq_2)
  obtain s1 where "poly_ipc_release (PSpd 6) stack_example = Some s1"
    by (simp add: poly_ipc_release_def stack_example_def)
  with thd_invstk_rem_nth_correct [OF sp d, of "Suc 0" "PSpd 6" s1] fr sp d show ?thesis
    by (auto simp: splice_def)
qed

text \<open>
  C30.  \<^verbatim>\<open>thd_validate_spd_in_callpath\<close> finds the innermost invocation in whose protection domain a
  component is: the result is the distance of that frame from the top of the stack, and \<open>-1\<close> exactly
  when no frame has the component.
\<close>

theorem thd_validate_spd_in_callpath_nearest:
  assumes "stack_ptr (threads s t) = int n" "n < MAX_SERVICE_DEPTH"
    and "\<forall>f \<in> set (frames s t). current_composite_spd f \<noteq> None"
  shows "thd_validate_spd_in_callpath s t p = Some (nearest (frame_in s p) (rev (frames s t)))"
proof -
  have c: "current_composite_spd (stack_base (threads s t) i) \<noteq> None" if "i \<le> n" for i
    using assms(1,3) that by (auto simp: frames_def)
  have "rev [0..int n] = rev (map int [0..<Suc n])" 
    by (simp add: list_eq_iff_nth_eq nth_append rev_nth del: upt_Suc)
  then show ?thesis
    using assms(1) callpath_loop_nearest [OF assms(1,2) c, of "Suc n" p]
    by (simp add: thd_validate_spd_in_callpath_def frames_def Let_def nat_add_distrib split: if_splits)
qed

theorem thd_validate_spd_in_callpath_nearest_witness:
  "stack_ptr (threads stack_example 3) = int 2 \<and> (2::nat) < MAX_SERVICE_DEPTH
   \<and> list_all (\<lambda>f. current_composite_spd f \<noteq> None) (frames stack_example 3)
   \<and> thd_validate_spd_in_callpath stack_example 3 6 = Some 1"
proof -
  have sp: "stack_ptr (threads stack_example 3) = int 2" and d: "(2::nat) < MAX_SERVICE_DEPTH"
    by (simp_all add: stack_example_def MAX_SERVICE_DEPTH_def)
  have c: "\<forall>f \<in> set (frames stack_example 3). current_composite_spd f \<noteq> None"
    by (simp add: frames_def stack_example_def upt_rec)
  have "nearest (frame_in stack_example 6) (rev (frames stack_example 3)) = 1"
    by (simp add: frames_def stack_example_def upt_rec nearest_def frame_in_def thd_spd_in_composite_def
        spd_composite_member_def pgtbl_entry_absent_def zero_kstate_def zero_spd_def has_def)
  with thd_validate_spd_in_callpath_nearest [OF sp d c, of 6] sp d c show ?thesis by (simp add: list_all_iff)
qed


definition thd_example :: kstate where
  "thd_example = upd_thd 4 (\<lambda>x. x\<lparr>thread_id := 5, t_freelist_next := Some 6\<rparr>)
     (upd_thd 6 (\<lambda>x. x\<lparr>thread_id := 7\<rparr>) (pool_example\<lparr>thread_freelist_head := Some 4\<rparr>))"

lemma thd_example_pages: "page_pool thd_example [0xC1002000, 0xC1005000]"
  by (simp add: page_pool_def thd_example_def pool_example_def pool_next_def page_next_def va_to_pa_def kconsts zero_kstate_def)


text \<open>
  A new thread's data page is mapped at once: \<^verbatim>\<open>thd_publish_data_page\<close> sets the present bit, although
  its comment says that it does not, so the page is accessible while the thread that made the call is
  still the current one.  A switch between threads, in contrast, leaves the page of the thread switched
  away from unmapped and that of the new one mapped, and no other entry changes.
\<close>

theorem thd_alloc_maps_page:
  assumes "thread_freelist_head s = Some t" "page_pool s (q # ps)" "thread_id (threads s t) < 1024"
    and "0 < a" "a < 1024" "0 < b" "b < 1024" "a \<noteq> b"
  shows "(\<exists>s'. thd_alloc p s = Some (Some t, s') \<and> current_thread s' = current_thread s
        \<and> has (shared_region_page s' (thread_id (threads s t))) PG_PRESENT)
    \<and> (\<exists>s'. switch_thread_data_page a b s = Some s' \<and> \<not> has (shared_region_page s' a) PG_PRESENT
        \<and> has (shared_region_page s' b) PG_PRESENT
        \<and> (\<forall>i. i \<noteq> a \<longrightarrow> i \<noteq> b \<longrightarrow> shared_region_page s' i = shared_region_page s i))"
proof
  show "\<exists>s'. thd_alloc p s = Some (Some t, s') \<and> current_thread s' = current_thread s
        \<and> has (shared_region_page s' (thread_id (threads s t))) PG_PRESENT"
    using thd_alloc_exact [OF assms(1-3), of p] by (auto simp: PG_bits)
  have "has ((w OR PG_PRESENT) :: u32) PG_PRESENT" "\<not> has (w AND NOT PG_PRESENT) PG_PRESENT" for w
    by (simp_all add: has_def PG_PRESENT_def bit.conj_disj_distrib2 or_eq_0_iff and.assoc)
  then show "\<exists>s'. switch_thread_data_page a b s = Some s' \<and> \<not> has (shared_region_page s' a) PG_PRESENT
        \<and> has (shared_region_page s' b) PG_PRESENT
        \<and> (\<forall>i. i \<noteq> a \<longrightarrow> i \<noteq> b \<longrightarrow> shared_region_page s' i = shared_region_page s i)"
    using assms(4-8) by (simp add: switch_thread_data_page_def Let_def)
qed

theorem thd_alloc_maps_page_witness:
  "thread_freelist_head thd_example = Some 4 \<and> page_pool thd_example [0xC1002000, 0xC1005000]
   \<and> (\<exists>s'. thd_alloc 2 thd_example = Some (Some 4, s') \<and> has (shared_region_page s' 5) PG_PRESENT)"
proof -
  have h: "thread_freelist_head thd_example = Some 4" "thread_id (threads thd_example 4) = 5"
    by (simp_all add: thd_example_def)
  with thd_alloc_maps_page [of thd_example 4 "0xC1002000" "[0xC1005000]" 8 9 2] thd_example_pages show ?thesis by auto
qed

text \<open>
  What \<^verbatim>\<open>thd_check_atomic_preempt\<close> looks at for a preempted thread: three of the five atomic sections
  of the component, and not the interrupted instruction but, as soon as the thread has made an
  invocation, the return address of its first one.  An instruction in one of the other two sections is
  not rolled back.
\<close>

theorem thd_check_atomic_preempt_tested:
  assumes "has (t_flags (threads s t)) THD_STATE_PREEMPTED" "stack_ptr (threads s t) = int n" "n < MAX_SERVICE_DEPTH"
  shows "thd_check_atomic_preempt host (Some p) t s =
    (let ip = (if n = 0 then r_ip (regs (threads s t)) else f_ip (frames s t ! 1)); sec = atomic_sections (spds s p)
     in Some (case find (\<lambda>i. sec i < ip \<and> ip < sec (i + 1)) [0, 2, 4] of
        None \<Rightarrow> (0, s)
      | Some i \<Rightarrow> (1, upd_thd t (\<lambda>x. x\<lparr>regs := (regs x)\<lparr>r_ip := sec i\<rparr>\<rparr>) s)))"
proof -
  have ip: "thd_get_ip s t = Some (if n = 0 then r_ip (regs (threads s t)) else f_ip (frames s t ! 1))"
    using assms by (simp add: thd_get_ip_def thd_get_frame_ip_def frame_at_def Let_def MAX_SERVICE_DEPTH_def)
  have "filter even [0..<COS_NUM_ATOMIC_SECTIONS div 2] = [0, 2, 4]" by (simp add: COS_NUM_ATOMIC_SECTIONS_def upt_rec)
  then show ?thesis using ip assms(1)
    by (simp add: thd_check_atomic_preempt_def thd_get_thd_spd_def Let_def split: option.splits)
qed

theorem thd_check_atomic_preempt_tested_witness:
  "\<exists>s. has (t_flags (threads s 3)) THD_STATE_PREEMPTED \<and> stack_ptr (threads s 3) = int 0
     \<and> atomic_sections (spds s 5) 6 < r_ip (regs (threads s 3)) \<and> r_ip (regs (threads s 3)) < atomic_sections (spds s 5) 7
     \<and> thd_check_atomic_preempt False (Some 5) 3 s = Some (0, s)"
proof (intro exI conjI)
  let ?s = "upd_thd 3 (\<lambda>x. x\<lparr>t_flags := THD_STATE_PREEMPTED, regs := zero_regs\<lparr>r_ip := 0x1008\<rparr>\<rparr>)
     (upd_spd 5 (\<lambda>x. x\<lparr>atomic_sections := (\<lambda>_. 0)(6 := 0x1000, 7 := 0x1010)\<rparr>) zero_kstate)"
  show p: "has (t_flags (threads ?s 3)) THD_STATE_PREEMPTED" by (simp add: has_def THD_STATE_PREEMPTED_def)
  show sp: "stack_ptr (threads ?s 3) = int 0" by (simp add: zero_kstate_def zero_thread_def)
  show "atomic_sections (spds ?s 5) 6 < r_ip (regs (threads ?s 3))" "r_ip (regs (threads ?s 3)) < atomic_sections (spds ?s 5) 7"
    by simp_all
  show "thd_check_atomic_preempt False (Some 5) 3 ?s = Some (0, ?s)"
    using thd_check_atomic_preempt_tested [OF p sp, of False 5] by (simp add: MAX_SERVICE_DEPTH_def)
qed

end
