(* ===== verification/Invocation.thy ===== *)
theory Invocation
  imports Threads
begin

text \<open>
  Invocations between components (\<^verbatim>\<open>kernel/inv.c\<close>, first part): page-table switches, the invocation
  and return paths that the assembly of \<^verbatim>\<open>ipc.S\<close> calls, upcalls, faults, context switches, and the
  system calls that create and inspect threads.

  A result \<^verbatim>\<open>struct pt_regs *\<close> is one of the two register sets of a thread.  System calls come from
  the current thread; without one they fail.
\<close>

datatype regs_ptr = TRegs thdp | FaultRegs thdp

datatype upcall_type = COS_UPCALL_BRAND_EXEC | COS_UPCALL_BRAND_COMPLETE | COS_UPCALL_BOOTSTRAP
  | COS_UPCALL_CREATE | COS_UPCALL_DESTROY | COS_UPCALL_UNHANDLED_FAULT

fun upcall_code :: "upcall_type \<Rightarrow> u32" where
  "upcall_code COS_UPCALL_BRAND_EXEC = 0"
| "upcall_code COS_UPCALL_BRAND_COMPLETE = 1"
| "upcall_code COS_UPCALL_BOOTSTRAP = 2"
| "upcall_code COS_UPCALL_CREATE = 3"
| "upcall_code COS_UPCALL_DESTROY = 4"
| "upcall_code COS_UPCALL_UNHANDLED_FAULT = 5"

subsection \<open>Page tables\<close>

definition ipc_init :: "kstate \<Rightarrow> kstate" where
  "ipc_init s = s\<lparr>ud_current_thread := 0, ud_argument_region := 0,
     cycle_cnt := env_tsc s (env_tsc_n s), env_tsc_n := Suc (env_tsc_n s)\<rparr>"

definition switch_pg_tbls :: "paddr \<Rightarrow> paddr \<Rightarrow> kstate \<Rightarrow> kstate option" where
  "switch_pg_tbls new old s = (if old \<noteq> new then switch_host_pg_tbls new (s\<lparr>cr3 := new\<rparr>) else Some s)"

definition open_close_spd :: "spd_poly \<Rightarrow> spd_poly \<Rightarrow> kstate \<Rightarrow> kstate option" where
  "open_close_spd o_spd c_spd s = switch_pg_tbls (poly_pg_tbl s o_spd) (poly_pg_tbl s c_spd) s"

definition open_close_spd_ret :: "spd_poly \<Rightarrow> kstate \<Rightarrow> kstate option" where
  "open_close_spd_ret c_spd s = switch_host_pg_tbls (poly_pg_tbl s c_spd) (s\<lparr>cr3 := poly_pg_tbl s c_spd\<rparr>)"

subsection \<open>Switching between threads\<close>

definition set_user_data :: "nat \<Rightarrow> kstate \<Rightarrow> kstate" where
  "set_user_data tid s = s\<lparr>ud_current_thread := tid,
     ud_argument_region := of_nat (tid * PAGE_SIZE) + COS_INFO_REGION_ADDR\<rparr>"

definition switch_thread_context_tail :: "thdp \<Rightarrow> thdp \<Rightarrow> kstate \<Rightarrow> kstate option" where
  "switch_thread_context_tail cur nxt s = do {
     c_assert (thd_get_current s \<noteq> Some nxt);
     let ctid = thd_get_id s cur;
     let ntid = thd_get_id s nxt;
     let s = thd_set_current nxt s;
     s \<leftarrow> switch_thread_data_page ctid ntid s;
     Some (set_user_data ntid s) }"

definition switch_thread_context :: "thdp \<Rightarrow> thdp \<Rightarrow> kstate \<Rightarrow> kstate option" where
  "switch_thread_context cur nxt s = do {
     cspd \<leftarrow> thd_get_thd_spdpoly s cur;
     s \<leftarrow> switch_thread_context_tail cur nxt s;
     nspd \<leftarrow> thd_get_thd_spdpoly s nxt;
     o_spd \<leftarrow> nspd;
     c_spd \<leftarrow> cspd;
     open_close_spd o_spd c_spd s }"

definition ready_boot_thread :: "spdp \<Rightarrow> kstate \<Rightarrow> (thdp option \<times> kstate) option" where
  "ready_boot_thread init s = do {
     (t, s) \<leftarrow> thd_alloc init s;
     case t of None \<Rightarrow> Some (None, s)
     | Some t \<Rightarrow> do {
         c_assert (thd_get_id s t = 1);
         let tid = thd_get_id s t;
         let s = thd_set_current t s;
         s \<leftarrow> switch_thread_data_page 2 tid s;
         Some (Some t, set_user_data tid s) } }"

subsection \<open>Upcalls\<close>

definition upcall_setup_regs :: "thdp \<Rightarrow> spdp \<Rightarrow> upcall_type \<Rightarrow> u32 \<Rightarrow> u32 \<Rightarrow> u32 \<Rightarrow> kstate \<Rightarrow> kstate" where
  "upcall_setup_regs uc dest option arg1 arg2 arg3 s =
     upd_thd uc (\<lambda>x. x\<lparr>regs := (regs x)\<lparr>r_bx := arg1, r_di := arg2, r_si := arg3, r_cx := upcall_code option,
       r_ip := upcall_entry (spds s dest), r_dx := upcall_entry (spds s dest), r_ax := of_nat (thd_get_id s uc)\<rparr>\<rparr>) s"

definition upcall_inv_setup :: "thdp \<Rightarrow> spdp \<Rightarrow> upcall_type \<Rightarrow> u32 \<Rightarrow> u32 \<Rightarrow> u32 \<Rightarrow> kstate \<Rightarrow> kstate option" where
  "upcall_inv_setup uc dest option arg1 arg2 arg3 s = do {
     s \<leftarrow> thd_invocation_push uc dest (r_sp (regs (threads s uc))) (r_ip (regs (threads s uc))) s;
     let s = upcall_setup_regs uc dest option arg1 arg2 arg3 s;
     Some (poly_ipc_take (s_composite_spd (spds s dest)) s) }"

definition upcall_setup :: "thdp \<Rightarrow> spdp \<Rightarrow> upcall_type \<Rightarrow> u32 \<Rightarrow> u32 \<Rightarrow> u32 \<Rightarrow> kstate \<Rightarrow> kstate option" where
  "upcall_setup uc dest option arg1 arg2 arg3 s = do {
     let s = upcall_setup_regs uc dest option arg1 arg2 arg3 s;
     let s = upd_thd uc (\<lambda>x. x\<lparr>stack_ptr := 0\<rparr>) s;
     s \<leftarrow> set_frame uc 0 (\<lambda>f. f\<lparr>current_composite_spd := Some (s_composite_spd (spds s dest)), f_spd := Some dest\<rparr>) s;
     Some (poly_ipc_take (s_composite_spd (spds s dest)) s) }"

definition upcall_execute :: "thdp \<Rightarrow> spd_poly option \<Rightarrow> thdp option \<Rightarrow> spd_poly option \<Rightarrow> kstate \<Rightarrow> kstate option" where
  "upcall_execute uc new prev old s =
     (if prev \<noteq> None \<and> prev \<noteq> Some uc then do { p \<leftarrow> prev; switch_thread_context p uc s }
      else if old \<noteq> new then do { n \<leftarrow> new; q \<leftarrow> old; open_close_spd n q s }
      else Some s)"

definition upcall_execute_no_vas_switch :: "thdp \<Rightarrow> thdp option \<Rightarrow> kstate \<Rightarrow> kstate option" where
  "upcall_execute_no_vas_switch uc prev s =
     (if prev \<noteq> None \<and> prev \<noteq> Some uc
      then do {
        p \<leftarrow> prev;
        s \<leftarrow> switch_thread_context_tail p uc s;
        q \<leftarrow> thd_get_thd_spdpoly s uc;
        nspd \<leftarrow> q;
        switch_host_pg_tbls (poly_pg_tbl s nspd) s }
      else Some s)"

definition upcall_execute_compat :: "thdp \<Rightarrow> thdp option \<Rightarrow> spd_poly option \<Rightarrow> kstate \<Rightarrow> kstate option" where
  "upcall_execute_compat uc prev old s = upcall_execute uc (current_composite_spd (stack_base (threads s uc) 0)) prev old s"

text \<open>The depth of the leaf scheduler; \<open>None\<close> is \<^verbatim>\<open>NULL\<close>, when the thread has no scheduler at all.\<close>

fun scheduler_find_leaf_loop :: "kstate \<Rightarrow> thdp \<Rightarrow> nat option \<Rightarrow> nat list \<Rightarrow> nat option" where
  "scheduler_find_leaf_loop s t tsi [] = tsi"
| "scheduler_find_leaf_loop s t tsi (i # is) =
     (if scheduler (sched_info (threads s t) i) \<noteq> None then scheduler_find_leaf_loop s t (Some i) is else tsi)"

definition scheduler_find_leaf :: "kstate \<Rightarrow> thdp \<Rightarrow> nat option" where
  "scheduler_find_leaf s t = scheduler_find_leaf_loop s t None [0..<MAX_SCHED_HIER_DEPTH]"

definition thd_ret_upcall_type :: "thdp \<Rightarrow> upcall_type \<Rightarrow> kstate \<Rightarrow> (regs_ptr \<times> kstate) option" where
  "thd_ret_upcall_type cur ty s = do {
     q \<leftarrow> thd_get_thd_spdpoly s cur;
     cspd \<leftarrow> q;
     s \<leftarrow> poly_ipc_release cspd s;
     tsi \<leftarrow> scheduler_find_leaf s cur;
     dest \<leftarrow> scheduler (sched_info (threads s cur) tsi);
     s \<leftarrow> upcall_setup cur dest ty 0 0 0 s;
     s \<leftarrow> upcall_execute_compat cur None (Some cspd) s;
     Some (TRegs cur, s) }"

definition thd_ret_term_upcall :: "thdp \<Rightarrow> kstate \<Rightarrow> (regs_ptr \<times> kstate) option" where
  "thd_ret_term_upcall cur s = thd_ret_upcall_type cur COS_UPCALL_DESTROY s"

subsection \<open>Invocation and return\<close>

text \<open>\<^verbatim>\<open>struct inv_ret_struct\<close>, which only a successful walk fills in.\<close>

type_synonym inv_ret = "nat \<times> spdp"

definition ipc_walk_static_cap ::
  "thdp \<Rightarrow> u32 \<Rightarrow> vaddr \<Rightarrow> vaddr \<Rightarrow> kstate \<Rightarrow> (vaddr \<times> inv_ret option \<times> kstate) option" where
  "ipc_walk_static_cap thd capability sp ip s =
     (let cap = unat (drop_bit 20 capability); entry = invocation_capabilities s cap
      in if cap \<ge> MAX_STATIC_CAP then Some (0, None, s)
         else case (owner entry, destination entry) of
           (Owner curr_spd, Some dest_spd) \<Rightarrow> do {
             curr_frame \<leftarrow> frame_at s thd (stack_ptr (threads s thd));
             cmp \<leftarrow> current_composite_spd curr_frame;
             if \<not> thd_spd_in_composite s cmp curr_spd then Some (0, None, s)
             else do {
               s \<leftarrow> open_close_spd (s_composite_spd (spds s dest_spd)) (s_composite_spd (spds s curr_spd)) s;
               let r = (thread_id (threads s thd), curr_spd);
               let s = poly_ipc_take (s_composite_spd (spds s dest_spd)) s;
               s \<leftarrow> thd_invocation_push thd dest_spd sp ip s;
               let s = upd_cap cap (\<lambda>c. c\<lparr>invocation_cnt := invocation_cnt c + 1\<rparr>) s;
               Some (dest_entry_instruction entry, Some r, s) } }
         | _ \<Rightarrow> Some (0, None, s))"

datatype pop_ret = PopFrame thd_invocation_frame | PopRegs regs_ptr

definition pop :: "thdp \<Rightarrow> kstate \<Rightarrow> (pop_ret \<times> kstate) option" where
  "pop cur s =
     (case thd_invocation_pop cur s of
        (None, s) \<Rightarrow> do {
          c_assert (\<not> has (t_flags (threads s cur)) THD_STATE_READY_UPCALL);
          (r, s) \<leftarrow> thd_ret_term_upcall cur s;
          Some (PopRegs r, s) }
      | (Some i, s) \<Rightarrow> do {
          inv_frame \<leftarrow> frame_at s cur i;
          j \<leftarrow> thd_invstk_top s cur;
          curr_frame \<leftarrow> frame_at s cur j;
          c_spd \<leftarrow> current_composite_spd curr_frame;
          s \<leftarrow> open_close_spd_ret c_spd s;
          i_spd \<leftarrow> current_composite_spd inv_frame;
          s \<leftarrow> poly_ipc_release i_spd s;
          Some (if f_ip inv_frame = 0 then PopRegs (FaultRegs cur) else PopFrame inv_frame, s) })"

text \<open>
  \<^verbatim>\<open>fault_cap\<close> is never assigned and \<^verbatim>\<open>r\<close> stays unset when the walk is refused; both are arguments
  here.  The registers passed in are returned updated.
\<close>

definition fault_ipc_invoke ::
  "u32 \<Rightarrow> inv_ret \<Rightarrow> thdp \<Rightarrow> vaddr \<Rightarrow> u32 \<Rightarrow> pt_regs \<Rightarrow> int \<Rightarrow> kstate \<Rightarrow> (int \<times> pt_regs \<times> kstate) option" where
  "fault_ipc_invoke fault_cap r0 thd fault_addr flags rg fault_num s = do {
     c_assert (fault_num < int COS_NUM_FAULTS);
     if fault_cap = 0
     then do {
       (_, s) \<leftarrow> thd_ret_upcall_type thd COS_UPCALL_UNHANDLED_FAULT s;
       let n = regs (threads s thd);
       Some (0, rg\<lparr>r_ax := r_ax n, r_bx := r_bx n, r_cx := r_cx n, r_dx := r_dx n, r_di := r_di n, r_si := r_si n,
                  r_bp := r_bp n, r_sp := r_sp n, r_ip := r_ip n\<rparr>, s) }
     else do {
       let s = upd_thd thd (\<lambda>x. x\<lparr>fault_regs := rg\<rparr>) s;
       (a, ret, s) \<leftarrow> ipc_walk_static_cap thd (push_bit 20 fault_cap) (r_sp rg) (r_ip rg) s;
       let (tid, sid) = (case ret of Some r \<Rightarrow> r | None \<Rightarrow> r0);
       Some (1, rg\<lparr>r_ax := of_nat tid, r_bx := of_nat sid, r_cx := of_nat sid, r_sp := 0, r_si := fault_addr,
                  r_di := flags, r_bp := r_ip rg, r_dx := a, r_ip := a\<rparr>, s) } }"

subsection \<open>Schedulers of a thread\<close>

definition upd_tsi :: "thdp \<Rightarrow> nat \<Rightarrow> (thd_sched_info \<Rightarrow> thd_sched_info) \<Rightarrow> kstate \<Rightarrow> kstate" where
  "upd_tsi t i f s = upd_thd t (\<lambda>x. x\<lparr>sched_info := (sched_info x)(i := f (sched_info x i))\<rparr>) s"

text \<open>The loop runs from the depth of the scheduler to the root, whose parent is never followed.\<close>

fun initialize_sched_info_loop :: "thdp \<Rightarrow> spdp option \<Rightarrow> nat list \<Rightarrow> kstate \<Rightarrow> kstate option" where
  "initialize_sched_info_loop t sched [] s = Some s"
| "initialize_sched_info_loop t sched (i # is) s = do {
     c_assert (i < MAX_SCHED_HIER_DEPTH);
     let s = upd_tsi t i (\<lambda>x. x\<lparr>scheduler := sched, thread_notifications := None\<rparr>) s;
     p \<leftarrow> sched;
     initialize_sched_info_loop t (parent_sched (spds s p)) is s }"

definition initialize_sched_info :: "thdp \<Rightarrow> spdp \<Rightarrow> kstate \<Rightarrow> kstate option" where
  "initialize_sched_info t curr_sched s = do {
     c_assert (spd_is_scheduler s curr_sched);
     initialize_sched_info_loop t (Some curr_sched) (rev [0..<nat (sched_depth (spds s curr_sched) + 1)]) s }"

fun copy_sched_info_loop :: "thdp \<Rightarrow> thdp \<Rightarrow> spdp option \<Rightarrow> nat list \<Rightarrow> kstate \<Rightarrow> kstate option" where
  "copy_sched_info_loop new old prev_sched [] s = Some s"
| "copy_sched_info_loop new old prev_sched (i # is) s = do {
     let tsi = sched_info (threads s old) i;
     c_assert (case scheduler tsi of None \<Rightarrow> True | Some p \<Rightarrow> parent_sched (spds s p) = prev_sched);
     copy_sched_info_loop new old (scheduler tsi) is
       (upd_tsi new i (\<lambda>x. x\<lparr>scheduler := scheduler tsi, thread_notifications := thread_notifications tsi,
          notification_offset := notification_offset tsi\<rparr>) s) }"

definition copy_sched_info_structs :: "thdp \<Rightarrow> thdp \<Rightarrow> nat \<Rightarrow> kstate \<Rightarrow> kstate option" where
  "copy_sched_info_structs new old num s = do {
     c_assert (num < MAX_SCHED_HIER_DEPTH);
     copy_sched_info_loop new old None [0..<num] s }"

definition copy_sched_info :: "thdp \<Rightarrow> thdp \<Rightarrow> kstate \<Rightarrow> kstate option" where
  "copy_sched_info new old s = copy_sched_info_structs new old (MAX_SCHED_HIER_DEPTH - 1) s"

subsection \<open>Creating and inspecting threads\<close>

definition cos_syscall_create_thread :: "int \<Rightarrow> u32 \<Rightarrow> u32 \<Rightarrow> u32 \<Rightarrow> kstate \<Rightarrow> (int \<times> kstate) option" where
  "cos_syscall_create_thread spd_id a b c s = do {
     cur \<leftarrow> thd_get_current s;
     q \<leftarrow> thd_validate_get_current_spd s cur spd_id;
     case q of None \<Rightarrow> Some (-1, s)
     | Some curr_spd \<Rightarrow>
         if \<not> spd_is_root_sched s curr_spd then Some (-1, s)
         else do {
           (r, s) \<leftarrow> thd_alloc curr_spd s;
           case r of None \<Rightarrow> Some (-1, s)
           | Some t \<Rightarrow> do {
               let s = upd_thd t (\<lambda>x. x\<lparr>stack_ptr := 0\<rparr>) s;
               s \<leftarrow> set_frame t 0 (\<lambda>f. f\<lparr>current_composite_spd := Some (s_composite_spd (spds s curr_spd)),
                                      f_spd := Some curr_spd\<rparr>) s;
               let s = poly_ipc_take (s_composite_spd (spds s curr_spd)) s;
               let s = upd_thd t (\<lambda>x. x\<lparr>regs := (regs x)\<lparr>r_cx := upcall_code COS_UPCALL_CREATE,
                 r_dx := upcall_entry (spds s curr_spd), r_bx := a, r_di := b, r_si := c,
                 r_ax := of_nat (thd_get_id s t)\<rparr>, t_flags := t_flags x OR THD_STATE_CYC_CNT\<rparr>) s;
               s \<leftarrow> initialize_sched_info t curr_spd s;
               Some (int (thd_get_id s t), s) } } }"

text \<open>Narrowing to a signed short.\<close>

definition s16_of :: "int \<Rightarrow> int" where
  "s16_of i = (i + 32768) mod 65536 - 32768"

datatype thd_reg = RIP | RSP | RFP | R1 | R2 | R3 | R4 | R5 | R6

fun reg_get :: "thd_reg \<Rightarrow> pt_regs \<Rightarrow> u32" where
  "reg_get RIP r = r_ip r" | "reg_get RSP r = r_sp r" | "reg_get RFP r = r_bp r"
| "reg_get R1 r = r_ax r" | "reg_get R2 r = r_bx r" | "reg_get R3 r = r_cx r"
| "reg_get R4 r = r_dx r" | "reg_get R5 r = r_di r" | "reg_get R6 r = r_si r"

fun reg_set :: "thd_reg \<Rightarrow> u32 \<Rightarrow> pt_regs \<Rightarrow> pt_regs" where
  "reg_set RIP v r = r\<lparr>r_ip := v\<rparr>" | "reg_set RSP v r = r\<lparr>r_sp := v\<rparr>" | "reg_set RFP v r = r\<lparr>r_bp := v\<rparr>"
| "reg_set R1 v r = r\<lparr>r_ax := v\<rparr>" | "reg_set R2 v r = r\<lparr>r_bx := v\<rparr>" | "reg_set R3 v r = r\<lparr>r_cx := v\<rparr>"
| "reg_set R4 v r = r\<lparr>r_dx := v\<rparr>" | "reg_set R5 v r = r\<lparr>r_di := v\<rparr>" | "reg_set R6 v r = r\<lparr>r_si := v\<rparr>"

datatype thd_op = COS_THD_INV_FRAME | COS_THD_INV_FRAME_REM | COS_THD_INV_SPD | COS_THD_INVFRM_IP
  | COS_THD_INVFRM_SET_IP | COS_THD_INVFRM_SP | COS_THD_INVFRM_SET_SP | COS_THD_GET thd_reg
  | COS_THD_SET thd_reg | COS_THD_STATUS

text \<open>The enumeration of \<^verbatim>\<open>cos_types.h\<close>, in its order.\<close>

definition thd_ops :: "thd_op list" where
  "thd_ops = [COS_THD_INV_FRAME, COS_THD_INV_FRAME_REM, COS_THD_INV_SPD, COS_THD_INVFRM_IP,
     COS_THD_INVFRM_SET_IP, COS_THD_INVFRM_SP, COS_THD_INVFRM_SET_SP]
     @ map COS_THD_GET [RIP, RSP, RFP, R1, R2, R3, R4, R5, R6]
     @ map COS_THD_SET [RIP, RSP, RFP, R1, R2, R3, R4, R5, R6] @ [COS_THD_STATUS]"

definition enum_op :: "'a list \<Rightarrow> int \<Rightarrow> 'a option" where
  "enum_op ops i = (if 0 \<le> i \<and> i < int (length ops) then Some (ops ! nat i) else None)"

fun inv_spd_loop :: "kstate \<Rightarrow> thdp \<Rightarrow> int \<Rightarrow> int list \<Rightarrow> int option" where
  "inv_spd_loop s t target [] = Some (-1)"
| "inv_spd_loop s t target (i # is) =
     (case thd_invstk_nth s t i of None \<Rightarrow> Some (-1)
      | Some j \<Rightarrow> do {
          f \<leftarrow> frame_at s t j;
          p \<leftarrow> f_spd f;
          if target = int p then Some i else inv_spd_loop s t target is })"

fun thd_cntl_op :: "thd_op \<Rightarrow> thdp \<Rightarrow> thdp \<Rightarrow> u32 \<Rightarrow> u32 \<Rightarrow> kstate \<Rightarrow> (u32 \<times> kstate) option" where
  "thd_cntl_op COS_THD_INV_FRAME t cur arg1 arg2 s =
     (case thd_invstk_nth s t (sint arg1) of None \<Rightarrow> Some (0, s)
      | Some i \<Rightarrow> do { f \<leftarrow> frame_at s t i; p \<leftarrow> f_spd f; Some (of_nat p, s) })"
| "thd_cntl_op COS_THD_INV_FRAME_REM t cur arg1 arg2 s =
     (if t = cur \<and> sint arg1 < 1 then Some (-1, s)
      else do { (r, s) \<leftarrow> thd_invstk_rem_nth t (sint arg1) s; Some (if r \<noteq> 0 then -1 else 0, s) })"
| "thd_cntl_op COS_THD_INV_SPD t cur arg1 arg2 s =
     do { r \<leftarrow> inv_spd_loop s t (sint arg1) [0..stack_ptr (threads s t) + 1]; Some (word_of_int r, s) }"
| "thd_cntl_op COS_THD_INVFRM_IP t cur arg1 arg2 s = do { v \<leftarrow> thd_get_frame_ip s t (sint arg1); Some (v, s) }"
| "thd_cntl_op COS_THD_INVFRM_SET_IP t cur arg1 arg2 s = thd_set_frame_ip t (sint arg1) arg2 s"
| "thd_cntl_op COS_THD_INVFRM_SP t cur arg1 arg2 s = do { v \<leftarrow> thd_get_frame_sp s t (sint arg1); Some (v, s) }"
| "thd_cntl_op COS_THD_INVFRM_SET_SP t cur arg1 arg2 s = thd_set_frame_sp t (sint arg1) arg2 s"
| "thd_cntl_op (COS_THD_GET r) t cur arg1 arg2 s =
     (if arg1 \<noteq> 0 then Some (reg_get r (fault_regs (threads s t)), s)
      else if \<not> has (t_flags (threads s t)) THD_STATE_PREEMPTED then Some (0, s)
      else Some (reg_get r (regs (threads s t)), s))"
| "thd_cntl_op (COS_THD_SET r) t cur arg1 arg2 s =
     (if arg2 \<noteq> 0 then Some (0, upd_thd t (\<lambda>x. x\<lparr>fault_regs := reg_set r arg1 (fault_regs x)\<rparr>) s)
      else if has (t_flags (threads s t)) THD_STATE_PREEMPTED
      then Some (0, upd_thd t (\<lambda>x. x\<lparr>regs := reg_set r arg1 (regs x)\<rparr>) s)
      else Some (-1, s))"
| "thd_cntl_op COS_THD_STATUS t cur arg1 arg2 s = Some (ucast (t_flags (threads s t)), s)"

text \<open>Every defined operation follows the thread pointer, which no test protects from \<^verbatim>\<open>NULL\<close>.\<close>

definition cos_syscall_thd_cntl :: "int \<Rightarrow> int \<Rightarrow> u32 \<Rightarrow> u32 \<Rightarrow> kstate \<Rightarrow> (u32 \<times> kstate) option" where
  "cos_syscall_thd_cntl spd_id op_thdid arg1 arg2 s = do {
     let opn = s16_of (op_thdid div 65536);
     let thdid = s16_of (op_thdid mod 65536);
     cur \<leftarrow> thd_get_current s;
     q \<leftarrow> thd_validate_get_current_spd s cur spd_id;
     case q of None \<Rightarrow> Some (-1, s)
     | Some _ \<Rightarrow>
         (case enum_op thd_ops opn of None \<Rightarrow> Some (-1, s)
          | Some opr \<Rightarrow> do { t \<leftarrow> thd_get_by_id thdid; thd_cntl_op opr t cur arg1 arg2 s }) }"

subsection \<open>The loaded page table\<close>

lemma open_close_spd_eq:
  assumes "composite_thread s"
  shows "open_close_spd a b s = Some (if poly_pg_tbl s b \<noteq> poly_pg_tbl s a
    then s\<lparr>cr3 := poly_pg_tbl s a, host_pgd := poly_pg_tbl s a\<rparr> else s)"
  using assms by (simp add: open_close_spd_def switch_pg_tbls_def switch_host_pg_tbls_def)

text \<open>The domain of the top frame of a thread.\<close>

definition top_domain :: "kstate \<Rightarrow> thdp \<Rightarrow> spd_poly option" where
  "top_domain s t = (if stack_ok s t \<and> frames s t \<noteq> [] then current_composite_spd (last (frames s t)) else None)"

lemma top_domain_frame:
  assumes "top_domain s t = Some q"
  shows "frame_at s t (stack_ptr (threads s t)) = Some (last (frames s t))"
    "current_composite_spd (last (frames s t)) = Some q" "0 \<le> stack_ptr (threads s t)"
    "thd_invstk_top s t = Some (stack_ptr (threads s t))" "thd_get_thd_spdpoly s t = Some (Some q)"
proof -
  have ok: "stack_ok s t" "frames s t \<noteq> []" and c: "current_composite_spd (last (frames s t)) = Some q"
    using assms by (auto simp: top_domain_def split: if_splits)
  then obtain n where n: "stack_ptr (threads s t) = int n - 1" "n \<le> MAX_SERVICE_DEPTH" using stack_height by blast
  with ok have "0 < n" by (auto simp: frames_def)
  with n show f: "frame_at s t (stack_ptr (threads s t)) = Some (last (frames s t))"
    using ok(2) by (simp add: frame_at_def last_conv_nth of_nat_diff) (simp add: nat_diff_distrib)
  from \<open>0 < n\<close> n show g: "0 \<le> stack_ptr (threads s t)" by simp
  then show top: "thd_invstk_top s t = Some (stack_ptr (threads s t))" by (simp add: thd_invstk_top_def)
  with f c show "thd_get_thd_spdpoly s t = Some (Some q)" by (simp add: thd_get_thd_spdpoly_def)
qed (use assms in \<open>auto simp: top_domain_def split: if_splits\<close>)

text \<open>The current thread runs on the page table of its top frame, and Linux knows it.\<close>

definition loaded :: "kstate \<Rightarrow> thdp \<Rightarrow> bool" where
  "loaded s t \<longleftrightarrow> current_thread s = Some t \<and> (\<exists>q. top_domain s t = Some q \<and> cr3 s = poly_pg_tbl s q \<and> host_pgd s = poly_pg_tbl s q)"

lemma top_domain_cong: "threads s' t = threads s t \<Longrightarrow> top_domain s' t = top_domain s t"
  by (simp add: top_domain_def stack_ok_def frames_def)

lemma poly_pg_tbl_cong:
  "spds s' = spds s \<Longrightarrow> mpd_descriptors s' = mpd_descriptors s \<Longrightarrow> poly_pg_tbl s' q = poly_pg_tbl s q"
  by (simp add: poly_pg_tbl_def split: spd_poly.split)

lemma poly_pg_tbl_take [simp]: "poly_pg_tbl (poly_ipc_take q s) r = poly_pg_tbl s r"
  by (cases q; cases r) (auto simp: poly_pg_tbl_def poly_ipc_take_def spd_mpd_ipc_take_def spd_mpd_take_def)

text \<open>A reference that somebody else holds as well.\<close>

definition held :: "kstate \<Rightarrow> spd_poly \<Rightarrow> bool" where
  "held s q \<longleftrightarrow> (case q of PCspd c \<Rightarrow> c_ref_cnt (mpd_descriptors s c) \<noteq> 1 | PSpd p \<Rightarrow> s_ref_cnt (spds s p) \<noteq> 1)"

definition drop_ref :: "spd_poly \<Rightarrow> kstate \<Rightarrow> kstate" where
  "drop_ref q s = (case q of PCspd c \<Rightarrow> upd_mpd c (\<lambda>x. x\<lparr>c_ref_cnt := c_ref_cnt x - 1\<rparr>) s
     | PSpd p \<Rightarrow> upd_spd p (\<lambda>x. x\<lparr>s_ref_cnt := s_ref_cnt x - 1\<rparr>) s)"

lemma release_held: "held s q \<Longrightarrow> poly_ipc_release q s = Some (drop_ref q s)"
proof (cases q)
  case (PCspd c)
  assume "held s q"
  then have "c_ref_cnt (mpd_descriptors s c) - 1 \<noteq> 0" using PCspd by (simp add: held_def)
  then show ?thesis
    using PCspd by (simp add: poly_ipc_release_def spd_mpd_ipc_release_def drop_ref_def Let_def spd_mpd_release.simps [of c s])
qed (simp add: held_def poly_ipc_release_def drop_ref_def)

lemma drop_ref_frame [simp]:
  "threads (drop_ref q s) = threads s" "cr3 (drop_ref q s) = cr3 s" "host_pgd (drop_ref q s) = host_pgd s"
  "current_thread (drop_ref q s) = current_thread s" "poly_pg_tbl (drop_ref q s) r = poly_pg_tbl s r"
  "invocation_capabilities (drop_ref q s) = invocation_capabilities s"
  by (cases q; cases r; auto simp: drop_ref_def poly_pg_tbl_def)+

lemma poly_ipc_take_frame [simp]:
  "threads (poly_ipc_take q s) = threads s" "cr3 (poly_ipc_take q s) = cr3 s" "host_pgd (poly_ipc_take q s) = host_pgd s"
  "current_thread (poly_ipc_take q s) = current_thread s" "invocation_capabilities (poly_ipc_take q s) = invocation_capabilities s"
  "s_composite_spd (spds (poly_ipc_take q s) p) = s_composite_spd (spds s p)" "composite_thread (poly_ipc_take q s) = composite_thread s"
  by (cases q; auto simp: poly_ipc_take_def spd_mpd_ipc_take_def spd_mpd_take_def)+

subsection \<open>One invocation\<close>

text \<open>What an authorised invocation of capability \<open>c\<close> through the top frame does.\<close>

definition invoked :: "thdp \<Rightarrow> nat \<Rightarrow> spdp \<Rightarrow> spdp \<Rightarrow> vaddr \<Rightarrow> vaddr \<Rightarrow> kstate \<Rightarrow> kstate" where
  "invoked t c p d sp ip s =
     (let q = s_composite_spd (spds s d); b = s_composite_spd (spds s p);
          s1 = (if poly_pg_tbl s b \<noteq> poly_pg_tbl s q then s\<lparr>cr3 := poly_pg_tbl s q, host_pgd := poly_pg_tbl s q\<rparr> else s)
      in upd_cap c (\<lambda>x. x\<lparr>invocation_cnt := invocation_cnt x + 1\<rparr>)
           (upd_thd t (\<lambda>x. x\<lparr>stack_ptr := stack_ptr x + 1, stack_base := (stack_base x)(length (frames s t) :=
              \<lparr>current_composite_spd = Some q, f_spd = Some d, f_sp = sp, f_ip = ip\<rparr>)\<rparr>) (poly_ipc_take q s1)))"

lemma ipc_walk_ok:
  assumes "top_domain s t = Some q" "composite_thread s" "length (frames s t) < MAX_SERVICE_DEPTH"
    and c: "c = unat (drop_bit 20 capability)" "c < MAX_STATIC_CAP"
    and o: "owner (invocation_capabilities s c) = Owner p" "destination (invocation_capabilities s c) = Some d"
    and "thd_spd_in_composite s q p"
  shows "ipc_walk_static_cap t capability sp ip s =
    Some (dest_entry_instruction (invocation_capabilities s c), Some (thread_id (threads s t), p), invoked t c p d sp ip s)"
proof -
  note f = top_domain_frame [OF assms(1)]
  have ok: "stack_ok s t" using assms(1) by (simp add: top_domain_def split: if_splits)
  define s1 where "s1 = (if poly_pg_tbl s (s_composite_spd (spds s p)) \<noteq> poly_pg_tbl s (s_composite_spd (spds s d))
     then s\<lparr>cr3 := poly_pg_tbl s (s_composite_spd (spds s d)), host_pgd := poly_pg_tbl s (s_composite_spd (spds s d))\<rparr> else s)"
  have s1: "threads s1 = threads s" "spds s1 = spds s" "invocation_capabilities s1 = invocation_capabilities s" by (simp_all add: s1_def)
  let ?s2 = "poly_ipc_take (s_composite_spd (spds s d)) s1"
  have st: "stack_ok ?s2 t" "frames ?s2 t = frames s t" using ok s1 by (simp_all add: stack_ok_def frames_def)
  have "open_close_spd (s_composite_spd (spds s d)) (s_composite_spd (spds s p)) s = Some s1"
    using assms(2) by (simp add: open_close_spd_eq s1_def)
  moreover have "thd_invocation_push t d sp ip ?s2 = Some (upd_thd t (\<lambda>x. x\<lparr>stack_ptr := stack_ptr x + 1, stack_base := (stack_base x)(length (frames s t) :=
     \<lparr>current_composite_spd = Some (s_composite_spd (spds s d)), f_spd = Some d, f_sp = sp, f_ip = ip\<rparr>)\<rparr>) ?s2)"
    using thd_invocation_push_frames [OF st(1), of d sp ip] assms(3) st(2) s1 by simp
  ultimately show ?thesis
    using f(1,2) assms(8) c o s1 by (simp add: ipc_walk_static_cap_def Let_def invoked_def s1_def [symmetric])
qed

lemma invoked_frames:
  assumes "stack_ok s t" "length (frames s t) < MAX_SERVICE_DEPTH"
  shows "frames (invoked t c p d sp ip s) t = frames s t @
      [\<lparr>current_composite_spd = Some (s_composite_spd (spds s d)), f_spd = Some d, f_sp = sp, f_ip = ip\<rparr>]"
    "stack_ok (invoked t c p d sp ip s) t" "stack_ptr (threads (invoked t c p d sp ip s) t) = stack_ptr (threads s t) + 1"
proof -
  obtain n where n: "stack_ptr (threads s t) = int n - 1" using assms(1) by (rule stack_height)
  have thr: "threads (invoked t c p d sp ip s) t = (threads s t)\<lparr>stack_ptr := int n, stack_base := (stack_base (threads s t))(n :=
      \<lparr>current_composite_spd = Some (s_composite_spd (spds s d)), f_spd = Some d, f_sp = sp, f_ip = ip\<rparr>)\<rparr>"
    by (simp add: invoked_def Let_def n)
  show "frames (invoked t c p d sp ip s) t = frames s t @
      [\<lparr>current_composite_spd = Some (s_composite_spd (spds s d)), f_spd = Some d, f_sp = sp, f_ip = ip\<rparr>]"
    by (simp add: frames_def thr n nat_add_distrib)
  show "stack_ok (invoked t c p d sp ip s) t" "stack_ptr (threads (invoked t c p d sp ip s) t) = stack_ptr (threads s t) + 1"
    using assms(2) n by (simp_all add: stack_ok_def thr)
qed

lemma pop_ok:
  assumes "stack_ok s t" "0 < stack_ptr (threads s t)" "composite_thread s"
    and "current_composite_spd (last (butlast (frames s t))) = Some q" "current_composite_spd (last (frames s t)) = Some e" "held s e"
  shows "pop t s = Some (if f_ip (last (frames s t)) = 0 then PopRegs (FaultRegs t) else PopFrame (last (frames s t)),
    drop_ref e (upd_thd t (\<lambda>x. x\<lparr>stack_ptr := stack_ptr x - 1\<rparr>) s\<lparr>cr3 := poly_pg_tbl s q, host_pgd := poly_pg_tbl s q\<rparr>))"
proof -
  let ?s = "upd_thd t (\<lambda>x. x\<lparr>stack_ptr := stack_ptr x - 1\<rparr>) s"
  note p = frames_pop [OF assms(1,2)]
  have ok: "stack_ok ?s t" using assms(1,2) by (simp add: stack_ok_def)
  have "frames ?s t \<noteq> []" using assms(2) by (simp add: frames_def)
  then have "top_domain ?s t = Some q" using ok p(2) assms(4) by (simp add: top_domain_def)
  note f = top_domain_frame [OF this]
  have "poly_pg_tbl ?s q = poly_pg_tbl s q" by (rule poly_pg_tbl_cong) simp_all
  then have "open_close_spd_ret q ?s = Some (?s\<lparr>cr3 := poly_pg_tbl s q, host_pgd := poly_pg_tbl s q\<rparr>)"
    using assms(3) by (simp add: open_close_spd_ret_def switch_host_pg_tbls_def)
  moreover have "held (?s\<lparr>cr3 := poly_pg_tbl s q, host_pgd := poly_pg_tbl s q\<rparr>) e"
    using assms(6) by (simp add: held_def split: spd_poly.splits)
  ultimately show ?thesis
    using p f assms(5) release_held by (simp add: pop_def)
qed

lemma loaded_switch:
  assumes "loaded s t" "switch_thread_context t u s = Some s'" "top_domain s u = Some r"
  shows "loaded s' u" "ud_current_thread s' = thread_id (threads s u)"
proof -
  from assms(1) obtain q where q: "current_thread s = Some t" "top_domain s t = Some q" "cr3 s = poly_pg_tbl s q" "host_pgd s = poly_pg_tbl s q"
    by (auto simp: loaded_def)
  from assms(2) top_domain_frame(5) [OF q(2)] obtain s1 where t1: "switch_thread_context_tail t u s = Some s1"
    by (auto simp: switch_thread_context_def bind_eq_Some_conv)
  then have same: "threads s1 = threads s" "spds s1 = spds s" "mpd_descriptors s1 = mpd_descriptors s"
    "current_thread s1 = Some u" "ud_current_thread s1 = thread_id (threads s u)" "cr3 s1 = cr3 s" "host_pgd s1 = host_pgd s"
    by (auto simp: switch_thread_context_tail_def Let_def bind_eq_Some_conv set_user_data_def switch_thread_data_page_def
        thd_set_current_def thd_get_id_def split: if_splits)
  have td: "top_domain s1 u = Some r" using assms(3) same(1) top_domain_cong [of s1 u s] by simp
  then have "open_close_spd r q s1 = Some s'"
    using assms(2) t1 top_domain_frame(5) [OF q(2)] top_domain_frame(5) [of s1 u r] by (simp add: switch_thread_context_def)
  moreover have pg: "poly_pg_tbl s1 x = poly_pg_tbl s x" for x using same by (intro poly_pg_tbl_cong)
  ultimately have "s' = (if poly_pg_tbl s q \<noteq> poly_pg_tbl s r then s1\<lparr>cr3 := poly_pg_tbl s r, host_pgd := poly_pg_tbl s r\<rparr> else s1)"
    by (auto simp: open_close_spd_def switch_pg_tbls_def switch_host_pg_tbls_def split: if_splits)
  then show "loaded s' u" "ud_current_thread s' = thread_id (threads s u)"
    using td same pg q by (auto simp: loaded_def top_domain_def stack_ok_def frames_def poly_pg_tbl_def split: spd_poly.splits if_splits)
qed

lemma loaded_pop:
  assumes "loaded s t" "pop t s = Some (PopFrame f, s')" and sp: "0 < stack_ptr (threads s t)" and ct: "composite_thread s"
    and r: "current_composite_spd (last (butlast (frames s t))) = Some r" and h: "\<And>e. top_domain s t = Some e \<Longrightarrow> held s e"
  shows "loaded s' t"
proof -
  from assms(1) obtain q where q: "current_thread s = Some t" "top_domain s t = Some q" by (auto simp: loaded_def)
  have ok: "stack_ok s t" using q(2) by (auto simp: top_domain_def split: if_splits)
  let ?s = "upd_thd t (\<lambda>x. x\<lparr>stack_ptr := stack_ptr x - 1\<rparr>) s\<lparr>cr3 := poly_pg_tbl s r, host_pgd := poly_pg_tbl s r\<rparr>"
  have s': "s' = drop_ref q ?s"
    using assms(2) pop_ok [OF ok sp ct r top_domain_frame(2) [OF q(2)] h [OF q(2)]] by (auto split: if_splits)
  have "frames ?s t = butlast (frames s t)" using frames_pop(2) [OF ok sp] by (simp add: frames_def)
  moreover have "frames ?s t \<noteq> []" using sp by (simp add: frames_def)
  moreover have "stack_ok ?s t" using ok sp by (simp add: stack_ok_def)
  ultimately have "top_domain ?s t = Some r" using r by (simp add: top_domain_def)
  then have "top_domain s' t = Some r" using top_domain_cong [of s' t ?s] by (simp add: s')
  moreover have "poly_pg_tbl ?s r = poly_pg_tbl s r" by (rule poly_pg_tbl_cong) simp_all
  ultimately show ?thesis using q(1) by (simp add: loaded_def s')
qed

lemma loaded_ipc:
  assumes "loaded s t" and w: "ipc_walk_static_cap t capability sp ip s = Some (a, Some (tid, p), s')" and ct: "composite_thread s"
    and len: "length (frames s t) < MAX_SERVICE_DEPTH" and b: "top_domain s t = Some (s_composite_spd (spds s p))"
  shows "loaded s' t"
proof -
  from assms(1) obtain q where q: "current_thread s = Some t" "top_domain s t = Some q" "cr3 s = poly_pg_tbl s q" "host_pgd s = poly_pg_tbl s q"
    by (auto simp: loaded_def)
  have ok: "stack_ok s t" using q(2) by (auto simp: top_domain_def split: if_splits)
  define c where "c = unat (drop_bit 20 capability)"
  obtain d where d: "c < MAX_STATIC_CAP" "owner (invocation_capabilities s c) = Owner p" "destination (invocation_capabilities s c) = Some d"
    "thd_spd_in_composite s q p"
    using w top_domain_frame(1,2) [OF q(2)]
    by (auto simp: ipc_walk_static_cap_def Let_def bind_eq_Some_conv c_def split: if_splits cap_owner.splits option.splits)
  have s': "s' = invoked t c p d sp ip s" using w ipc_walk_ok [OF q(2) ct len c_def d] by simp
  have td: "top_domain s' t = Some (s_composite_spd (spds s d))"
    using invoked_frames [OF ok len, of c p d sp ip] by (simp add: s' top_domain_def)
  have "q = s_composite_spd (spds s p)" using b q(2) by simp
  moreover have "poly_pg_tbl s' x = poly_pg_tbl s x" for x
    by (cases x; cases "s_composite_spd (spds s d)") (auto simp: s' invoked_def Let_def poly_pg_tbl_def poly_ipc_take_def spd_mpd_ipc_take_def
        spd_mpd_take_def)
  moreover have "current_thread s' = Some t" "cr3 s' = (if poly_pg_tbl s (s_composite_spd (spds s p)) \<noteq> poly_pg_tbl s (s_composite_spd (spds s d))
      then poly_pg_tbl s (s_composite_spd (spds s d)) else cr3 s)"
    "host_pgd s' = (if poly_pg_tbl s (s_composite_spd (spds s p)) \<noteq> poly_pg_tbl s (s_composite_spd (spds s d))
      then poly_pg_tbl s (s_composite_spd (spds s d)) else host_pgd s)"
    using q(1) by (simp_all add: s' invoked_def Let_def)
  ultimately show "loaded s' t" using td q by (auto simp: loaded_def)
qed

subsection \<open>Properties\<close>

text \<open>
  An example: thread 4 is in component 2, alone in composite 8, and holds through it capability 9 to
  component 3, alone in composite 6.
\<close>

definition inv_example :: kstate where
  "inv_example = upd_thd 4 (\<lambda>x. x\<lparr>thread_id := 5, stack_base := (stack_base x)(0 :=
       \<lparr>current_composite_spd = Some (PCspd 8), f_spd = Some 2, f_sp = 0, f_ip = 0\<rparr>)\<rparr>)
     (upd_spd 2 (\<lambda>x. x\<lparr>s_composite_spd := PCspd 8\<rparr>) (upd_spd 3 (\<lambda>x. x\<lparr>s_composite_spd := PCspd 6\<rparr>)
     (upd_mpd 8 (\<lambda>x. x\<lparr>c_ref_cnt := 2, c_pg_tbl := 0x5000\<rparr>) (upd_mpd 6 (\<lambda>x. x\<lparr>c_ref_cnt := 1, c_pg_tbl := 0x7000\<rparr>)
     (upd_cap 9 (\<lambda>x. x\<lparr>owner := Owner 2, destination := Some 3, dest_entry_instruction := 0x40001234\<rparr>)
     (zero_kstate\<lparr>current_thread := Some 4, cr3 := 0x5000, host_pgd := 0x5000\<rparr>))))))"

lemma inv_example_facts:
  "top_domain inv_example 4 = Some (PCspd 8)" "composite_thread inv_example" "length (frames inv_example 4) < MAX_SERVICE_DEPTH"
  "thd_spd_in_composite inv_example (PCspd 8) 2" "owner (invocation_capabilities inv_example 9) = Owner 2"
  "destination (invocation_capabilities inv_example 9) = Some 3" "s_composite_spd (spds inv_example 3) = PCspd 6"
  "c_ref_cnt (mpd_descriptors inv_example 6) = 1" "current_thread inv_example = Some 4" "cr3 inv_example = 0x5000"
  "host_pgd inv_example = 0x5000" "poly_pg_tbl inv_example (PCspd 8) = 0x5000" "poly_pg_tbl inv_example (PCspd 6) = 0x7000"
  "s_composite_spd (spds inv_example 2) = PCspd 8" "thread_id (threads inv_example 4) = 5"
  "dest_entry_instruction (invocation_capabilities inv_example 9) = 0x40001234"
  by (simp_all add: inv_example_def top_domain_def frames_def stack_ok_def MAX_SERVICE_DEPTH_def zero_kstate_def zero_thread_def
      thd_spd_in_composite_def poly_pg_tbl_def)

lemma cap_nine: "unat (drop_bit 20 (0x900000 :: u32)) = 9" "(9::nat) < MAX_STATIC_CAP"
  by (simp_all add: MAX_STATIC_CAP_def)

text \<open>
  C3.  An invocation needs a capability that is in use and whose owner is in the protection domain of the
  thread's top frame: only then does \<^verbatim>\<open>ipc_walk_static_cap\<close> commit, and it hands the server the identity of
  that owner and continues at the entry point of the capability.  In every other case it returns 0 and
  the kernel state is unchanged.
\<close>

theorem ipc_walk_static_cap_authorised:
  assumes "ipc_walk_static_cap t capability sp ip s = Some (a, r, s')"
  shows "case r of None \<Rightarrow> a = 0 \<and> s' = s
    | Some (tid, p) \<Rightarrow> \<exists>f q d. let c = unat (drop_bit 20 capability) in
        c < MAX_STATIC_CAP \<and> owner (invocation_capabilities s c) = Owner p \<and> destination (invocation_capabilities s c) = Some d
        \<and> frame_at s t (stack_ptr (threads s t)) = Some f \<and> current_composite_spd f = Some q \<and> thd_spd_in_composite s q p
        \<and> tid = thread_id (threads s t) \<and> a = dest_entry_instruction (invocation_capabilities s c)"
proof -
  have thr: "open_close_spd o_spd c_spd s = Some u \<Longrightarrow> threads u = threads s" for o_spd c_spd u
    by (auto simp: open_close_spd_def switch_pg_tbls_def switch_host_pg_tbls_def split: if_splits)
  show ?thesis using assms
    by (auto simp: ipc_walk_static_cap_def Let_def bind_eq_Some_conv split: if_splits cap_owner.splits option.splits dest: thr)
qed

theorem ipc_walk_static_cap_authorised_witness:
  "\<exists>a r s'. ipc_walk_static_cap 4 0x900000 0x100 0x200 inv_example = Some (a, r, s') \<and> a = 0x40001234
     \<and> owner (invocation_capabilities inv_example 9) = Owner 2 \<and> (\<exists>tid. r = Some (tid, 2))"
proof -
  have w: "ipc_walk_static_cap 4 0x900000 0x100 0x200 inv_example = Some (0x40001234, Some (5, 2), invoked 4 9 2 3 0x100 0x200 inv_example)"
    using ipc_walk_ok [OF inv_example_facts(1-3) cap_nine(1) [symmetric] cap_nine(2) inv_example_facts(5,6,4)] inv_example_facts(15,16)
    by simp
  from ipc_walk_static_cap_authorised [OF w] w show ?thesis by (simp add: cap_nine(1) Let_def)
qed

text \<open>
  C4.  An invocation and its return cancel out.  For a thread with room on its stack and an authorised
  capability into a protection domain that is in use, the invocation succeeds, and the return that
  follows gives back the return address that was passed in, the same stack, the same protection domains
  with the same reference counts, and the page table of the caller's domain; of the capabilities only
  the count of the one used has grown.
\<close>

theorem ipc_walk_static_cap_pop:
  assumes "top_domain s t = Some q" "composite_thread s" "length (frames s t) < MAX_SERVICE_DEPTH"
    and "unat (drop_bit 20 capability) = c" "c < MAX_STATIC_CAP"
    and "owner (invocation_capabilities s c) = Owner p" "destination (invocation_capabilities s c) = Some d"
    and "thd_spd_in_composite s q p" "ip \<noteq> 0"
    and "case s_composite_spd (spds s d) of PCspd e \<Rightarrow> c_ref_cnt (mpd_descriptors s e) \<noteq> 0 | PSpd e \<Rightarrow> s_ref_cnt (spds s e) \<noteq> 0"
  shows "\<exists>a r s1 s2 f. ipc_walk_static_cap t capability sp ip s = Some (a, Some r, s1)
    \<and> pop t s1 = Some (PopFrame f, s2) \<and> f_sp f = sp \<and> f_ip f = ip
    \<and> frames s2 t = frames s t \<and> stack_ptr (threads s2 t) = stack_ptr (threads s t)
    \<and> mpd_descriptors s2 = mpd_descriptors s \<and> spds s2 = spds s
    \<and> cr3 s2 = poly_pg_tbl s q \<and> host_pgd s2 = poly_pg_tbl s q
    \<and> invocation_capabilities s2 = (invocation_capabilities s)(c := (invocation_capabilities s c)\<lparr>invocation_cnt := invocation_cnt (invocation_capabilities s c) + 1\<rparr>)"
proof -
  define e where "e = s_composite_spd (spds s d)"
  define s1 where "s1 = invoked t c p d sp ip s"
  have ok: "stack_ok s t" "frames s t \<noteq> []" using assms(1) by (auto simp: top_domain_def split: if_splits)
  note f = top_domain_frame [OF assms(1)]
  note i = invoked_frames [OF ok(1) assms(3), of c p d sp ip, folded s1_def e_def]
  have walk: "ipc_walk_static_cap t capability sp ip s =
      Some (dest_entry_instruction (invocation_capabilities s c), Some (thread_id (threads s t), p), s1)"
    unfolding s1_def by (rule ipc_walk_ok [OF assms(1-3)]) (use assms in simp_all)
  have ct: "composite_thread s1" using assms(2) by (simp add: s1_def invoked_def Let_def)
  have h: "held s1 e" using assms(10)
    by (auto simp: s1_def e_def [symmetric] invoked_def Let_def held_def poly_ipc_take_def spd_mpd_ipc_take_def spd_mpd_take_def
        split: spd_poly.splits)
  have pg: "poly_pg_tbl s1 r = poly_pg_tbl s r" for r
    by (cases r; cases e) (auto simp: s1_def e_def [symmetric] invoked_def Let_def poly_pg_tbl_def poly_ipc_take_def spd_mpd_ipc_take_def
        spd_mpd_take_def)
  let ?s2 = "drop_ref e (upd_thd t (\<lambda>x. x\<lparr>stack_ptr := stack_ptr x - 1\<rparr>) s1\<lparr>cr3 := poly_pg_tbl s q, host_pgd := poly_pg_tbl s q\<rparr>)"
  have pop: "pop t s1 = Some (PopFrame \<lparr>current_composite_spd = Some e, f_spd = Some d, f_sp = sp, f_ip = ip\<rparr>, ?s2)"
    using pop_ok [OF i(2) _ ct, of q e] h i(1,3) f assms(9) ok(2) by (simp add: pg)
  have "frames ?s2 t = frames s t"
    using frames_pop(2) [OF i(2)] i(1,3) f(3) by (simp add: frames_def)
  moreover have "mpd_descriptors ?s2 = mpd_descriptors s" "spds ?s2 = spds s"
    by (cases e; auto simp: fun_eq_iff drop_ref_def s1_def e_def [symmetric] invoked_def Let_def poly_ipc_take_def spd_mpd_ipc_take_def
        spd_mpd_take_def)+
  moreover have "invocation_capabilities ?s2 = (invocation_capabilities s)(c := (invocation_capabilities s c)\<lparr>invocation_cnt := invocation_cnt (invocation_capabilities s c) + 1\<rparr>)"
    by (auto simp: fun_eq_iff s1_def invoked_def Let_def)
  ultimately show ?thesis using walk pop i(3) by (intro exI) (auto simp: drop_ref_frame)
qed

theorem ipc_walk_static_cap_pop_witness:
  "\<exists>a r s1 s2 f. ipc_walk_static_cap 4 0x900000 0x100 0x200 inv_example = Some (a, Some r, s1)
     \<and> pop 4 s1 = Some (PopFrame f, s2) \<and> f_sp f = 0x100 \<and> f_ip f = 0x200 \<and> cr3 s2 = 0x5000
     \<and> mpd_descriptors s2 = mpd_descriptors inv_example"
  using ipc_walk_static_cap_pop [OF inv_example_facts(1-3) cap_nine inv_example_facts(5,6,4), of "0x200" "0x100"] inv_example_facts
  by auto



end
