(* ===== verification/Event_Queue.thy ===== *)
theory Event_Queue
  imports Kernel_Types
begin

text \<open>
  The queue of events in the page a scheduler shares with the kernel
  (\<^verbatim>\<open>struct cos_sched_events\<close> of \<^verbatim>\<open>kernel/include/shared/cos_types.h\<close>).  The kernel appends to it
  (\<^verbatim>\<open>update_evt_list\<close> of \<^verbatim>\<open>kernel/inv.c\<close>) and the scheduler takes from it
  (\<^verbatim>\<open>cos_sched_process_events\<close> of \<^verbatim>\<open>components/implementation/sched/cos_scheduler.c\<close>); this theory holds what
  both sides rely on.

  The entry \<open>d\<close> the scheduler stands on is the dummy at the head of the queue; behind it follow the posted
  events \<open>xs\<close>.  All entries without a successor have link 0.
\<close>

definition evt_chain :: "(nat \<Rightarrow> cos_sched_events) \<Rightarrow> nat \<Rightarrow> nat list \<Rightarrow> bool" where
  "evt_chain ev d xs \<longleftrightarrow> distinct (d # xs) \<and> d < NUM_SCHED_EVTS \<and> (\<forall>x \<in> set xs. 0 < x \<and> x < NUM_SCHED_EVTS)
     \<and> (\<forall>i < length xs. unat (e_next (ev ((d # xs) ! i))) = xs ! i)
     \<and> (\<forall>j < NUM_SCHED_EVTS. j \<notin> set (butlast (d # xs)) \<longrightarrow> e_next (ev j) = 0)"

lemma evt_chain_facts:
  assumes "evt_chain ev d xs"
  shows "distinct (d # xs)" "d < NUM_SCHED_EVTS" "\<And>x. x \<in> set xs \<Longrightarrow> 0 < x \<and> x < NUM_SCHED_EVTS"
    "\<And>i. i < length xs \<Longrightarrow> unat (e_next (ev ((d # xs) ! i))) = xs ! i"
    "\<And>j. j < NUM_SCHED_EVTS \<Longrightarrow> j \<notin> set (butlast (d # xs)) \<Longrightarrow> e_next (ev j) = 0"
  using assms unfolding evt_chain_def by blast+

lemma evt_chain_cong: "(\<And>j. e_next (ev' j) = e_next (ev j)) \<Longrightarrow> evt_chain ev' d xs \<longleftrightarrow> evt_chain ev d xs"
  by (simp add: evt_chain_def)

lemma evt_chain_last: "evt_chain ev d [] \<Longrightarrow> e_next (ev d) = 0"
  by (simp add: evt_chain_def)

lemma evt_chain_next: "evt_chain ev d (x # xs) \<Longrightarrow> unat (e_next (ev d)) = x"
  by (auto simp: evt_chain_def)

lemma evt_chain_bound: "evt_chain ev d xs \<Longrightarrow> last (d # xs) < NUM_SCHED_EVTS"
  using evt_chain_facts(2,3) [of ev d xs] by (cases xs rule: rev_cases) auto

text \<open>The entries with a successor are those of the queue, but for the last.\<close>

lemma evt_chain_link:
  assumes "evt_chain ev d xs" "n < NUM_SCHED_EVTS"
  shows "e_next (ev n) = 0 \<longleftrightarrow> n \<notin> set (butlast (d # xs))"
proof
  assume z: "e_next (ev n) = 0"
  show "n \<notin> set (butlast (d # xs))"
  proof
    assume "n \<in> set (butlast (d # xs))"
    then obtain i where "i < length (butlast (d # xs))" "butlast (d # xs) ! i = n" unfolding in_set_conv_nth by blast
    then have i: "i < length xs" "(d # xs) ! i = n" using nth_butlast [of i "d # xs"] length_butlast [of "d # xs"] by (simp_all del: butlast.simps)
    with evt_chain_facts(4) [OF assms(1), of i] z have "xs ! i = 0" by simp
    moreover have "0 < xs ! i" using evt_chain_facts(3) [OF assms(1)] i(1) by simp
    ultimately show False by simp
  qed
qed (use evt_chain_facts(5) [OF assms(1)] assms(2) in blast)

lemma evt_chain_tl:
  assumes "evt_chain ev d (x # xs)" "\<And>j. j \<noteq> d \<Longrightarrow> e_next (ev' j) = e_next (ev j)" "e_next (ev' d) = 0"
  shows "evt_chain ev' x xs"
  unfolding evt_chain_def
proof (intro conjI allI impI)
  note c = evt_chain_facts [OF assms(1)]
  show "distinct (x # xs)" "x < NUM_SCHED_EVTS" "\<forall>x \<in> set xs. 0 < x \<and> x < NUM_SCHED_EVTS" using c(1,3) by simp_all
  show "unat (e_next (ev' ((x # xs) ! i))) = xs ! i" if "i < length xs" for i
  proof -
    have "(x # xs) ! i \<in> set (x # xs)" using that by (intro nth_mem) simp
    moreover have "d \<notin> set (x # xs)" using c(1) by simp
    ultimately have "(x # xs) ! i \<noteq> d" by metis
    with assms(2) c(4) [of "Suc i"] that show ?thesis by simp
  qed
  show "e_next (ev' j) = 0" if "j < NUM_SCHED_EVTS" "j \<notin> set (butlast (x # xs))" for j
    using that assms(2,3) c(5) [of j] by (cases "j = d") auto
qed

lemma evt_chain_snoc:
  assumes "evt_chain ev d xs" "0 < n" "n < NUM_SCHED_EVTS" "n \<notin> set (d # xs)"
    "unat (e_next (ev' (last (d # xs)))) = n" "\<And>j. j \<noteq> last (d # xs) \<Longrightarrow> e_next (ev' j) = e_next (ev j)"
  shows "evt_chain ev' d (xs @ [n])"
  unfolding evt_chain_def
proof (intro conjI allI impI)
  note c = evt_chain_facts [OF assms(1)]
  show "distinct (d # xs @ [n])" "d < NUM_SCHED_EVTS" "\<forall>x \<in> set (xs @ [n]). 0 < x \<and> x < NUM_SCHED_EVTS"
    using c(1-3) assms(2-4) by auto
  show "unat (e_next (ev' ((d # xs @ [n]) ! i))) = (xs @ [n]) ! i" if i: "i < length (xs @ [n])" for i
  proof (cases "i = length xs")
    case True
    have "(d # xs @ [n]) ! length xs = last (d # xs)" by (cases xs rule: rev_cases) (auto simp: nth_append nth_Cons')
    with True assms(5) show ?thesis by simp
  next
    case False
    with i have i: "i < length xs" by simp
    have "(d # xs) ! i \<noteq> (d # xs) ! length xs" using c(1) i nth_eq_iff_index_eq [of "d # xs" i "length xs"] by simp
    then have "(d # xs) ! i \<noteq> last (d # xs)" using last_conv_nth [of "d # xs"] by simp
    moreover have "(d # xs @ [n]) ! i = (d # xs) ! i" using i by (cases i) (auto simp: nth_append)
    ultimately show ?thesis using assms(6) c(4) [OF i] i by (simp add: nth_append)
  qed
  show "e_next (ev' j) = 0" if j: "j < NUM_SCHED_EVTS" "j \<notin> set (butlast (d # xs @ [n]))" for j
  proof -
    have "j \<notin> set (butlast (d # xs))" "j \<noteq> last (d # xs)"
      using j(2) by (auto simp: butlast_append dest: in_set_butlastD split: if_splits)
    with assms(6) c(5) j(1) show ?thesis by simp
  qed
qed

lemma evt_chain_length: "evt_chain ev d xs \<Longrightarrow> length xs < NUM_SCHED_EVTS"
proof -
  assume "evt_chain ev d xs"
  then have "distinct xs" "set xs \<subseteq> {1..<NUM_SCHED_EVTS}" by (auto simp: evt_chain_def)
  then have "length xs \<le> card {1..<NUM_SCHED_EVTS}" by (metis card_mono distinct_card finite_atLeastLessThan)
  then show ?thesis by (simp add: NUM_SCHED_EVTS_def)
qed

end
