(* ===== verification/Scheduling.thy ===== *)
theory Scheduling
  imports Invocation Event_Queue
begin

text \<open>
  Scheduling (\<^verbatim>\<open>kernel/inv.c\<close>, second part): the chain of preempted threads, event notification to the
  schedulers, and the thread-switch system call that carries out their decisions.

  Schedulers share a page with the kernel.  Where the C code follows the user address of that page
  it reaches whatever the loaded page table maps there, and so does the model.
\<close>

subsection \<open>Constants and shared pages\<close>

definition COS_SCHED_EVT_BRAND_ACTIVE :: u16 where "COS_SCHED_EVT_BRAND_ACTIVE = 0x4"
definition COS_SCHED_EVT_BRAND_READY :: u16 where "COS_SCHED_EVT_BRAND_READY = 0x8"
definition COS_SCHED_EVT_NIL :: u16 where "COS_SCHED_EVT_NIL = 0x20"
definition COS_SCHED_TAILCALL :: u16 where "COS_SCHED_TAILCALL = 0x1"
definition COS_SCHED_SYNC_BLOCK :: u16 where "COS_SCHED_SYNC_BLOCK = 0x2"
definition COS_SCHED_SYNC_UNBLOCK :: u16 where "COS_SCHED_SYNC_UNBLOCK = 0x4"
definition COS_SCHED_BRAND_WAIT :: u16 where "COS_SCHED_BRAND_WAIT = 0x80"
definition COS_SCHED_CHILD_EVT :: u16 where "COS_SCHED_CHILD_EVT = 0x10"
definition COS_SCHED_RET_SUCCESS :: int where "COS_SCHED_RET_SUCCESS = 0"
definition COS_SCHED_RET_ERROR :: int where "COS_SCHED_RET_ERROR = -1"
definition COS_SCHED_RET_INVAL :: int where "COS_SCHED_RET_INVAL = -2"
definition COS_SCHED_RET_AGAIN :: int where "COS_SCHED_RET_AGAIN = 1"
definition COS_SCHED_RET_CEVT :: int where "COS_SCHED_RET_CEVT = 2"

lemmas sched_consts = COS_SCHED_EVT_BRAND_ACTIVE_def COS_SCHED_EVT_BRAND_READY_def COS_SCHED_EVT_NIL_def
  COS_SCHED_TAILCALL_def COS_SCHED_SYNC_BLOCK_def COS_SCHED_SYNC_UNBLOCK_def COS_SCHED_BRAND_WAIT_def
  COS_SCHED_CHILD_EVT_def COS_SCHED_RET_SUCCESS_def COS_SCHED_RET_ERROR_def COS_SCHED_RET_INVAL_def
  COS_SCHED_RET_AGAIN_def COS_SCHED_RET_CEVT_def

definition user_area :: "kstate \<Rightarrow> vaddr \<Rightarrow> vaddr option" where
  "user_area s a = (let k = pgtbl_vaddr_to_kaddr s (cr3 s) a in if k = 0 then None else Some k)"

subsection \<open>The preemption chain\<close>

definition remove_preempted_status :: "thdp \<Rightarrow> kstate \<Rightarrow> kstate option" where
  "remove_preempted_status t s = do {
     s \<leftarrow> (case preempter_thread (threads s t) of None \<Rightarrow> Some s
       | Some p \<Rightarrow> do {
           let i = interrupted_thread (threads s t);
           c_assert (interrupted_thread (threads s p) = Some t);
           let s = upd_thd p (\<lambda>x. x\<lparr>interrupted_thread := None\<rparr>) s;
           let s = (case i of None \<Rightarrow> s | Some i \<Rightarrow> upd_thd i (\<lambda>x. x\<lparr>preempter_thread := None\<rparr>) s);
           Some (upd_thd t (\<lambda>x. x\<lparr>preempter_thread := None, interrupted_thread := None\<rparr>) s) });
     Some (upd_thd t (\<lambda>x. x\<lparr>t_flags := t_flags x AND NOT THD_STATE_PREEMPTED\<rparr>) s) }"

definition break_preemption_chain :: "thdp \<Rightarrow> kstate \<Rightarrow> kstate option" where
  "break_preemption_chain t s = do {
     s \<leftarrow> (case interrupted_thread (threads s t) of None \<Rightarrow> Some s
       | Some other \<Rightarrow> do {
           c_assert (preempter_thread (threads s other) = Some t);
           let s = upd_thd t (\<lambda>x. x\<lparr>interrupted_thread := None\<rparr>) s;
           Some (upd_thd other (\<lambda>x. x\<lparr>preempter_thread := None\<rparr>) s) });
     case preempter_thread (threads s t) of None \<Rightarrow> Some s
     | Some other \<Rightarrow> do {
         c_assert (interrupted_thread (threads s other) = Some t);
         let s = upd_thd t (\<lambda>x. x\<lparr>preempter_thread := None\<rparr>) s;
         Some (upd_thd other (\<lambda>x. x\<lparr>interrupted_thread := None\<rparr>) s) } }"

subsection \<open>Events\<close>

definition upd_evt :: "vaddr \<Rightarrow> nat \<Rightarrow> (cos_sched_events \<Rightarrow> cos_sched_events) \<Rightarrow> kstate \<Rightarrow> kstate" where
  "upd_evt a i f s = upd_area a (\<lambda>x. x\<lparr>cos_events := (cos_events x)(i := f (cos_events x i))\<rparr>) s"

definition update_evt_list :: "thd_sched_info \<Rightarrow> kstate \<Rightarrow> (int \<times> kstate) option" where
  "update_evt_list tsi s = do {
     sched \<leftarrow> scheduler tsi;
     let da = kern_sched_shared_page (spds s sched);
     c_assert (da \<noteq> 0);
     let s = upd_area da (\<lambda>x. x\<lparr>next_thd_id := 0, pending_event := 1\<rparr>) s;
     let prev_evt = unat (prev_notification (spds s sched));
     let this_evt = unat (ucast (notification_offset tsi) :: u16);
     let evts = cos_events (sched_areas s da);
     if prev_evt \<ge> NUM_SCHED_EVTS \<or> this_evt \<ge> NUM_SCHED_EVTS \<or> this_evt = 0 then Some (-1, s)
     else if prev_evt \<noteq> this_evt \<and> e_next (evts this_evt) = 0
     then Some (0, upd_spd sched (\<lambda>x. x\<lparr>prev_notification := of_nat this_evt\<rparr>)
                     (upd_evt da prev_evt (\<lambda>e. e\<lparr>e_next := of_nat this_evt\<rparr>) s))
     else Some (0, s) }"

definition consume :: "u32 \<Rightarrow> u32 \<Rightarrow> u32" where
  "consume p elapsed = (let n = p + elapsed in if n < p then NOT 0 else n)"

fun update_thd_evt_state_loop :: "thdp \<Rightarrow> u16 \<Rightarrow> u32 \<Rightarrow> nat list \<Rightarrow> kstate \<Rightarrow> kstate option" where
  "update_thd_evt_state_loop t flags elapsed [] s = Some s"
| "update_thd_evt_state_loop t flags elapsed (i # is) s =
     (let tsi = sched_info (threads s t) i
      in if scheduler tsi = None then Some s
         else case thread_notifications tsi of
           None \<Rightarrow> update_thd_evt_state_loop t flags elapsed is s
         | Some (a, n) \<Rightarrow> do {
             c_assert (a \<noteq> 0);
             let s = (if elapsed \<noteq> 0 then upd_evt a n (\<lambda>e. e\<lparr>cpu_consumption := consume (cpu_consumption e) elapsed\<rparr>) s else s);
             let s = (if flags \<noteq> COS_SCHED_EVT_NIL then upd_evt a n (\<lambda>e. e\<lparr>e_flags := ucast flags\<rparr>) s else s);
             (_, s) \<leftarrow> update_evt_list tsi s;
             update_thd_evt_state_loop t flags elapsed is s })"

definition update_thd_evt_state :: "thdp \<Rightarrow> u16 \<Rightarrow> u32 \<Rightarrow> kstate \<Rightarrow> kstate option" where
  "update_thd_evt_state t flags elapsed s = update_thd_evt_state_loop t flags elapsed [0..<MAX_SCHED_HIER_DEPTH] s"

definition rdtscl :: "kstate \<Rightarrow> kstate" where
  "rdtscl s = s\<lparr>cycle_cnt := env_tsc s (env_tsc_n s), env_tsc_n := Suc (env_tsc_n s)\<rparr>"

definition update_sched_evts :: "thdp \<Rightarrow> u16 \<Rightarrow> thdp \<Rightarrow> u16 \<Rightarrow> kstate \<Rightarrow> kstate option" where
  "update_sched_evts new new_flags prev prev_flags s = do {
     let last = cycle_cnt s;
     let cyc = has (t_flags (threads s new) OR t_flags (threads s prev)) THD_STATE_CYC_CNT;
     let s = (if cyc then rdtscl s else s);
     let elapsed = (if cyc then cycle_cnt s - last else 0);
     s \<leftarrow> (if new_flags \<noteq> COS_SCHED_EVT_NIL then update_thd_evt_state new new_flags 0 s else Some s);
     if elapsed \<noteq> 0 \<or> prev_flags \<noteq> COS_SCHED_EVT_NIL then update_thd_evt_state prev prev_flags elapsed s
     else Some s }"

subsection \<open>Reading the scheduler's decision\<close>

text \<open>\<^verbatim>\<open>ret_code\<close> is passed in and out.\<close>

definition switch_thread_parse_data_area :: "vaddr \<Rightarrow> int \<Rightarrow> kstate \<Rightarrow> nat \<times> int \<times> kstate" where
  "switch_thread_parse_data_area da ret_code s =
     (if pending_event (sched_areas s da) \<noteq> 0 then (0, COS_SCHED_RET_AGAIN, s)
      else if pending_cevt (sched_areas s da) \<noteq> 0 then (0, COS_SCHED_RET_CEVT, s)
      else let next_thd = next_thd_id (sched_areas s da);
               s = upd_area da (\<lambda>x. x\<lparr>next_thd_id := 0\<rparr>) s
           in if next_thd = 0 then (0, COS_SCHED_RET_AGAIN, s) else (next_thd, ret_code, s))"

definition switch_thread_get_target :: "nat \<Rightarrow> thdp \<Rightarrow> spdp \<Rightarrow> int \<Rightarrow> kstate \<Rightarrow> (thdp option \<times> int) option" where
  "switch_thread_get_target tid cur curr_spd ret_code s =
     (case thd_get_by_id (int tid) of
        None \<Rightarrow> Some (None, if tid = 0 then COS_SCHED_RET_AGAIN else COS_SCHED_RET_INVAL)
      | Some t \<Rightarrow>
          if t = cur then Some (None, COS_SCHED_RET_AGAIN)
          else do {
            b1 \<leftarrow> thd_scheduled_by s cur curr_spd;
            b2 \<leftarrow> thd_scheduled_by s t curr_spd;
            if \<not> b1 \<or> \<not> b2 then Some (None, COS_SCHED_RET_ERROR)
            else if has (t_flags (threads s t)) THD_STATE_READY_UPCALL then Some (None, COS_SCHED_RET_INVAL)
            else Some (Some t, ret_code) })"

definition switch_thread_update_flags :: "kstate \<Rightarrow> vaddr \<Rightarrow> u16 \<Rightarrow> u16" where
  "switch_thread_update_flags s da flags =
     (if \<not> has (next_thd_flags (sched_areas s da)) COS_SCHED_CHILD_EVT then flags AND NOT COS_SCHED_CHILD_EVT
      else flags OR COS_SCHED_CHILD_EVT)"

subsection \<open>Completed upcalls\<close>

definition sched_tailcall_adjust_invstk :: "thdp \<Rightarrow> kstate \<Rightarrow> (int \<times> kstate) option" where
  "sched_tailcall_adjust_invstk t s = do {
     c_assert (has (t_flags (threads s t)) THD_STATE_ACTIVE_UPCALL \<and> thread_brand (threads s t) \<noteq> None);
     let (i, s) = thd_invocation_pop t s;
     i \<leftarrow> i;
     tif \<leftarrow> frame_at s t i;
     let s = upd_thd t (\<lambda>x. x\<lparr>regs := (regs x)\<lparr>r_ip := f_ip tif, r_dx := f_ip tif, r_sp := f_sp tif, r_cx := f_sp tif\<rparr>\<rparr>) s;
     case thd_invstk_top s t of None \<Rightarrow> Some (-1, s)
     | Some j \<Rightarrow> do {
         ntif \<leftarrow> frame_at s t j;
         nspd \<leftarrow> current_composite_spd ntif;
         cspd \<leftarrow> current_composite_spd tif;
         s \<leftarrow> open_close_spd nspd cspd s;
         s \<leftarrow> poly_ipc_release cspd s;
         p \<leftarrow> f_spd tif;
         Some (int p, s) } }"

definition sched_tailcall_pending_upcall_thd :: "thdp \<Rightarrow> spd_poly option \<Rightarrow> kstate \<Rightarrow> kstate option" where
  "sched_tailcall_pending_upcall_thd uc cur s = do {
     brand \<leftarrow> thread_brand (threads s uc);
     c_assert (pending_upcall_requests (threads s brand) > 0);
     c_assert (has (t_flags (threads s uc)) THD_STATE_ACTIVE_UPCALL \<and> \<not> has (t_flags (threads s uc)) THD_STATE_READY_UPCALL);
     let s = upd_thd brand (\<lambda>x. x\<lparr>pending_upcall_requests := pending_upcall_requests x - 1\<rparr>) s;
     cspd \<leftarrow> thd_get_thd_spdpoly s uc;
     s \<leftarrow> upcall_execute uc cspd None cur s;
     Some (upd_thd uc (\<lambda>x. x\<lparr>regs := (regs x)\<lparr>r_ax := 0\<rparr>\<rparr>) s) }"

definition sched_tailcall_pending_upcall :: "thdp \<Rightarrow> spd_poly option \<Rightarrow> kstate \<Rightarrow> (regs_ptr \<times> kstate) option" where
  "sched_tailcall_pending_upcall uc cur s = do { s \<leftarrow> sched_tailcall_pending_upcall_thd uc cur s; Some (TRegs uc, s) }"

subsection \<open>Switching threads\<close>

text \<open>
  The slow path returns the thread to switch to, \<^verbatim>\<open>ret_code\<close> and the event flags for the current
  thread.  Its two stages that can end it early are definitions of their own: leaving an upcall, and
  the synchronisation and child-event flags.
\<close>

datatype slow_ret = Stop int kstate | Go int u16 kstate

definition slowpath_tailcall :: "thdp \<Rightarrow> u16 \<Rightarrow> spdp \<Rightarrow> int \<Rightarrow> u16 \<Rightarrow> kstate \<Rightarrow> slow_ret option" where
  "slowpath_tailcall cur flags curr_spd ret_code curr_flags s =
     (if \<not> has flags (COS_SCHED_TAILCALL OR COS_SCHED_BRAND_WAIT) then Some (Go ret_code curr_flags s)
      else if \<not> has (t_flags (threads s cur)) THD_STATE_ACTIVE_UPCALL then Some (Stop ret_code s)
      else do {
        c_assert (\<not> has (t_flags (threads s cur)) THD_STATE_READY_UPCALL);
        if has flags (COS_SCHED_SYNC_BLOCK OR COS_SCHED_SYNC_UNBLOCK) then Some (Stop ret_code s)
        else do {
          (ok, s) \<leftarrow> (if has flags COS_SCHED_TAILCALL
            then do { (i, s) \<leftarrow> sched_tailcall_adjust_invstk cur s; Some (int curr_spd = i, s) }
            else Some (True, s));
          if \<not> ok then Some (Stop ret_code s)
          else do {
            brand \<leftarrow> thread_brand (threads s cur);
            if pending_upcall_requests (threads s brand) \<noteq> 0
            then do {
              s \<leftarrow> sched_tailcall_pending_upcall_thd cur (Some (s_composite_spd (spds s curr_spd))) s;
              Some (Stop COS_SCHED_RET_SUCCESS s) }
            else Some (Go ret_code COS_SCHED_EVT_BRAND_READY
              (upd_thd cur (\<lambda>x. x\<lparr>t_flags := (t_flags x AND NOT THD_STATE_ACTIVE_UPCALL) OR THD_STATE_READY_UPCALL\<rparr>) s)) } } })"

definition slowpath_sync :: "thdp \<Rightarrow> u16 \<Rightarrow> nat \<Rightarrow> vaddr \<Rightarrow> int \<Rightarrow> u16 \<Rightarrow> kstate \<Rightarrow> slow_ret option" where
  "slowpath_sync cur flags next_thd da ret_code curr_flags s =
     (if has flags COS_SCHED_SYNC_BLOCK
      then do {
        k \<leftarrow> user_area s da;
        if owner_thd (sched_areas s k) \<noteq> next_thd then Some (Stop COS_SCHED_RET_SUCCESS s)
        else Some (Go ret_code curr_flags (upd_area k (\<lambda>x. x\<lparr>queued_thd := thd_get_id s cur\<rparr>) s)) }
      else Some (Go ret_code curr_flags s))"

definition slowpath_child :: "thdp \<Rightarrow> u16 \<Rightarrow> spdp \<Rightarrow> int \<Rightarrow> u16 \<Rightarrow> kstate \<Rightarrow> slow_ret option" where
  "slowpath_child t flags curr_spd ret_code curr_flags s =
     (if \<not> has flags COS_SCHED_CHILD_EVT then Some (Go ret_code curr_flags s)
      else do {
        tsi \<leftarrow> thd_get_sched_info s t (sched_depth (spds s curr_spd) + 1);
        case scheduler tsi of None \<Rightarrow> Some (Stop ret_code s)
        | Some child \<Rightarrow> do {
            let cda = sched_shared_page (spds s child);
            c_assert (cda \<noteq> 0);
            k \<leftarrow> user_area s cda;
            Some (Go ret_code curr_flags (upd_area k (\<lambda>x. x\<lparr>pending_cevt := 1\<rparr>) s)) } })"

definition switch_thread_slowpath ::
  "thdp \<Rightarrow> u16 \<Rightarrow> spdp \<Rightarrow> nat \<Rightarrow> vaddr \<Rightarrow> int \<Rightarrow> u16 \<Rightarrow> kstate \<Rightarrow> (thdp \<times> int \<times> u16 \<times> kstate) option" where
  "switch_thread_slowpath cur flags curr_spd rthd_id da ret_code curr_flags s = do {
     (next_thd, ret_code, s) \<leftarrow>
       (if has flags (COS_SCHED_SYNC_BLOCK OR COS_SCHED_SYNC_UNBLOCK) then Some (rthd_id, ret_code, s)
        else do { k \<leftarrow> user_area s da; Some (switch_thread_parse_data_area k ret_code s) });
     if next_thd = 0 \<and> \<not> has flags (COS_SCHED_SYNC_BLOCK OR COS_SCHED_SYNC_UNBLOCK) then Some (cur, ret_code, curr_flags, s)
     else do {
       (t, ret_code) \<leftarrow> switch_thread_get_target next_thd cur curr_spd ret_code s;
       case t of None \<Rightarrow> Some (cur, ret_code, curr_flags, s)
       | Some t \<Rightarrow> do {
           r \<leftarrow> slowpath_tailcall cur flags curr_spd ret_code curr_flags s;
           case r of Stop rc s \<Rightarrow> Some (cur, rc, curr_flags, s)
           | Go rc cf s \<Rightarrow> do {
               r \<leftarrow> slowpath_sync cur flags next_thd da rc cf s;
               case r of Stop rc s \<Rightarrow> Some (cur, rc, cf, s)
               | Go rc cf s \<Rightarrow> do {
                   r \<leftarrow> slowpath_child t flags curr_spd rc cf s;
                   case r of Stop rc s \<Rightarrow> Some (cur, rc, cf, s)
                   | Go rc cf s \<Rightarrow> Some (t, rc, cf, s) } } } } }"

definition set_ax :: "thdp \<Rightarrow> u32 \<Rightarrow> kstate \<Rightarrow> kstate" where
  "set_ax t v s = upd_thd t (\<lambda>x. x\<lparr>regs := (regs x)\<lparr>r_ax := v\<rparr>\<rparr>) s"

definition switch_thread_to :: "thdp \<Rightarrow> thdp \<Rightarrow> u16 \<Rightarrow> u16 \<Rightarrow> kstate \<Rightarrow> (regs_ptr \<times> int \<times> kstate) option" where
  "switch_thread_to cur t curr_sched_flags thd_sched_flags s = do {
     s \<leftarrow> break_preemption_chain cur s;
     s \<leftarrow> switch_thread_context cur t s;
     (preempt, s) \<leftarrow> (if has (t_flags (threads s t)) THD_STATE_PREEMPTED
       then do { s \<leftarrow> remove_preempted_status t s; Some (1, s) } else Some (0, s));
     s \<leftarrow> update_sched_evts t thd_sched_flags cur curr_sched_flags s;
     Some (TRegs t, preempt, set_ax cur (word_of_int COS_SCHED_RET_SUCCESS) s) }"

definition cos_syscall_switch_thread_cont :: "int \<Rightarrow> nat \<Rightarrow> u16 \<Rightarrow> kstate \<Rightarrow> (regs_ptr \<times> int \<times> kstate) option" where
  "cos_syscall_switch_thread_cont spd_id rthd_id rflags s = do {
     cur \<leftarrow> thd_get_current s;
     let err = (\<lambda>rc s. Some (TRegs cur, 0, set_ax cur (word_of_int rc) s));
     q \<leftarrow> thd_validate_get_current_spd s cur spd_id;
     case q of None \<Rightarrow> err COS_SCHED_RET_ERROR s
     | Some curr_spd \<Rightarrow> do {
         c_assert (\<not> has (t_flags (threads s cur)) THD_STATE_PREEMPTED);
         let da = sched_shared_page (spds s curr_spd);
         if da = 0 then err COS_SCHED_RET_ERROR s
         else do {
           k \<leftarrow> user_area s da;
           let flags = switch_thread_update_flags s k rflags;
           if flags \<noteq> 0
           then do {
             (t, rc, cf, s) \<leftarrow> switch_thread_slowpath cur flags curr_spd rthd_id da COS_SCHED_RET_ERROR COS_SCHED_EVT_NIL s;
             if rc = COS_SCHED_RET_SUCCESS \<and> t = cur then Some (TRegs cur, 0, s)
             else if t = cur then err rc s
             else switch_thread_to cur t cf COS_SCHED_EVT_NIL s }
           else do {
             let (next_thd, rc, s) = switch_thread_parse_data_area k COS_SCHED_RET_ERROR s;
             if next_thd = 0 then err rc s
             else do {
               (t, rc) \<leftarrow> switch_thread_get_target next_thd cur curr_spd rc s;
               case t of None \<Rightarrow> err rc s
               | Some t \<Rightarrow> switch_thread_to cur t COS_SCHED_EVT_NIL COS_SCHED_EVT_NIL s } } } } }"

subsection \<open>The chain of preempted threads\<close>

text \<open>The two links agree.\<close>

definition chain_ok :: "kstate \<Rightarrow> bool" where
  "chain_ok s \<longleftrightarrow> (\<forall>t u. interrupted_thread (threads s t) = Some u \<longleftrightarrow> preempter_thread (threads s u) = Some t)"

text \<open>The links after thread \<open>t\<close> has left the chain.\<close>

definition left_chain :: "thdp \<Rightarrow> kstate \<Rightarrow> kstate \<Rightarrow> bool" where
  "left_chain t s s' \<longleftrightarrow>
     (\<forall>u. interrupted_thread (threads s' u) =
        (if u = t \<or> preempter_thread (threads s t) = Some u then None else interrupted_thread (threads s u)))
   \<and> (\<forall>u. preempter_thread (threads s' u) =
        (if u = t \<or> interrupted_thread (threads s t) = Some u then None else preempter_thread (threads s u)))"

lemma left_chain_ok:
  assumes "chain_ok s" "left_chain t s s'"
  shows "chain_ok s'"
proof -
  have c: "interrupted_thread (threads s a) = Some b \<longleftrightarrow> preempter_thread (threads s b) = Some a" for a b
    using assms(1) by (simp add: chain_ok_def)
  have l: "interrupted_thread (threads s' u) = (if u = t \<or> preempter_thread (threads s t) = Some u then None else interrupted_thread (threads s u))"
    "preempter_thread (threads s' u) = (if u = t \<or> interrupted_thread (threads s t) = Some u then None else preempter_thread (threads s u))" for u
    using assms(2) by (simp_all add: left_chain_def)
  show ?thesis unfolding chain_ok_def
  proof (intro allI)
    fix a b
    have "preempter_thread (threads s t) = Some a \<longleftrightarrow> interrupted_thread (threads s a) = Some t"
      "interrupted_thread (threads s t) = Some b \<longleftrightarrow> preempter_thread (threads s b) = Some t" by (simp_all add: c)
    then show "interrupted_thread (threads s' a) = Some b \<longleftrightarrow> preempter_thread (threads s' b) = Some a"
      using c [of a b] by (auto simp: l)
  qed
qed

lemma break_preemption_chain_left:
  assumes "chain_ok s"
  shows "\<exists>s'. break_preemption_chain t s = Some s' \<and> left_chain t s s'"
proof -
  let ?m = "case interrupted_thread (threads s t) of None \<Rightarrow> s
    | Some i \<Rightarrow> upd_thd i (\<lambda>x. x\<lparr>preempter_thread := None\<rparr>) (upd_thd t (\<lambda>x. x\<lparr>interrupted_thread := None\<rparr>) s)"
  let ?e = "case preempter_thread (threads ?m t) of None \<Rightarrow> ?m
    | Some p \<Rightarrow> upd_thd p (\<lambda>x. x\<lparr>interrupted_thread := None\<rparr>) (upd_thd t (\<lambda>x. x\<lparr>preempter_thread := None\<rparr>) ?m)"
  have c: "interrupted_thread (threads s t) = Some b \<Longrightarrow> preempter_thread (threads s b) = Some t"
    "preempter_thread (threads s t) = Some b \<Longrightarrow> interrupted_thread (threads s b) = Some t" for b
    using assms by (simp_all add: chain_ok_def)
  have "break_preemption_chain t s = Some ?e"
    using c by (auto simp: break_preemption_chain_def Let_def split: option.splits if_splits)
  moreover have "left_chain t s ?e" using c(1) [of t] by (auto simp: left_chain_def split: option.splits)
  ultimately show ?thesis by blast
qed

lemma remove_preempted_status_ok:
  assumes "chain_ok s"
  shows "\<exists>s'. remove_preempted_status t s = Some s' \<and> chain_ok s' \<and> \<not> has (t_flags (threads s' t)) THD_STATE_PREEMPTED"
proof -
  have n: "\<not> has (w AND NOT THD_STATE_PREEMPTED) THD_STATE_PREEMPTED" for w :: u16
    by (simp add: has_def THD_STATE_PREEMPTED_def and.assoc)
  have c: "preempter_thread (threads s t) = Some b \<Longrightarrow> interrupted_thread (threads s b) = Some t" for b
    using assms by (simp add: chain_ok_def)
  show ?thesis
  proof (cases "preempter_thread (threads s t)")
    case None
    then show ?thesis using assms n by (auto simp: remove_preempted_status_def chain_ok_def)
  next
    case (Some p)
    then have "\<exists>s'. remove_preempted_status t s = Some s' \<and> left_chain t s s' \<and> \<not> has (t_flags (threads s' t)) THD_STATE_PREEMPTED"
      using c n by (cases "interrupted_thread (threads s t)") (auto simp: remove_preempted_status_def Let_def left_chain_def)
    with left_chain_ok [OF assms] show ?thesis by blast
  qed
qed

subsection \<open>The list of events in a scheduler's page\<close>

text \<open>
  The events \<open>xs\<close> are linked from entry \<open>d\<close>, on which the scheduler stands, and the kernel remembers the
  last one.
\<close>

definition evt_queue :: "kstate \<Rightarrow> spdp \<Rightarrow> nat \<Rightarrow> nat list \<Rightarrow> bool" where
  "evt_queue s p d xs \<longleftrightarrow> evt_chain (cos_events (sched_areas s (kern_sched_shared_page (spds s p)))) d xs
     \<and> unat (prev_notification (spds s p)) = last (d # xs)"

lemma update_evt_list_queue:
  assumes q: "evt_queue s p d xs" and t: "scheduler tsi = Some p" "kern_sched_shared_page (spds s p) \<noteq> 0"
    and n: "unat (ucast (notification_offset tsi) :: u16) = n" "0 < n" "n < NUM_SCHED_EVTS"
  shows "\<exists>s'. update_evt_list tsi s = Some (0, s') \<and> evt_queue s' p d (if n \<in> set (d # xs) then xs else xs @ [n])
    \<and> pending_event (sched_areas s' (kern_sched_shared_page (spds s p))) = 1
    \<and> next_thd_id (sched_areas s' (kern_sched_shared_page (spds s p))) = 0
    \<and> kern_sched_shared_page (spds s' p) = kern_sched_shared_page (spds s p)
    \<and> (\<forall>j. e_flags (cos_events (sched_areas s' (kern_sched_shared_page (spds s p))) j) = e_flags (cos_events (sched_areas s (kern_sched_shared_page (spds s p))) j)
         \<and> cpu_consumption (cos_events (sched_areas s' (kern_sched_shared_page (spds s p))) j) = cpu_consumption (cos_events (sched_areas s (kern_sched_shared_page (spds s p))) j))"
proof -
  let ?da = "kern_sched_shared_page (spds s p)"
  define s1 where "s1 = upd_area ?da (\<lambda>x. x\<lparr>next_thd_id := 0, pending_event := 1\<rparr>) s"
  have c: "evt_chain (cos_events (sched_areas s ?da)) d xs" and prev: "unat (prev_notification (spds s p)) = last (d # xs)"
    using q by (simp_all add: evt_queue_def)
  have q1: "evt_queue s1 p d xs" using q by (simp add: s1_def evt_queue_def)
  have mem: "n \<in> set (d # xs) \<longleftrightarrow> last (d # xs) = n \<or> n \<in> set (butlast (d # xs))"
    using append_butlast_last_id [of "d # xs"] by (metis Un_iff empty_iff insert_iff list.distinct(1) list.set(1,2) set_append)
  note nx = evt_chain_link [OF c n(3)] and bound = evt_chain_bound [OF c]
  show ?thesis
  proof (cases "n \<in> set (d # xs)")
    case True
    then have "update_evt_list tsi s = Some (0, s1)"
      using t n bound prev nx mem by (auto simp: update_evt_list_def Let_def s1_def)
    with q1 True show ?thesis by (simp add: s1_def)
  next
    case False
    define s2 where "s2 = upd_spd p (\<lambda>x. x\<lparr>prev_notification := of_nat n\<rparr>) (upd_evt ?da (last (d # xs)) (\<lambda>e. e\<lparr>e_next := of_nat n\<rparr>) s1)"
    have up: "update_evt_list tsi s = Some (0, s2)"
      using t n bound prev nx mem False by (auto simp: update_evt_list_def Let_def s1_def s2_def)
    have n8: "unat (of_nat n :: u8) = n" "unat (of_nat n :: u16) = n"
      using n(3) by (simp_all add: NUM_SCHED_EVTS_def of_nat_inverse)
    have "evt_chain (cos_events (sched_areas s2 ?da)) d (xs @ [n])"
      by (rule evt_chain_snoc [OF c n(2,3) False]) (use n8 in \<open>simp_all add: s2_def s1_def upd_evt_def\<close>)
    then have "evt_queue s2 p d (xs @ [n])" using n8 by (simp add: evt_queue_def s2_def s1_def upd_evt_def)
    with up False show ?thesis by (auto simp: s2_def s1_def upd_evt_def)
  qed
qed

subsection \<open>Who may be switched to\<close>

definition may_switch :: "kstate \<Rightarrow> thdp \<Rightarrow> thdp \<Rightarrow> spdp \<Rightarrow> bool" where
  "may_switch s cur t p \<longleftrightarrow> thd_scheduled_by s cur p = Some True \<and> thd_scheduled_by s t p = Some True
     \<and> \<not> has (t_flags (threads s t)) THD_STATE_READY_UPCALL"

lemma get_target_may_switch:
  "switch_thread_get_target tid cur p rc s = Some (Some t, rc') \<Longrightarrow> may_switch s cur t p \<and> t \<noteq> cur"
  by (auto simp: switch_thread_get_target_def may_switch_def bind_eq_Some_conv split: option.splits if_splits)

lemma thd_scheduled_by_area [simp]: "thd_scheduled_by (upd_area a f s) t p = thd_scheduled_by s t p"
  by (simp add: thd_scheduled_by_def thd_get_sched_info_def)

lemma may_switch_area [simp]: "may_switch (upd_area a f s) cur t p = may_switch s cur t p"
  by (simp add: may_switch_def)

lemma parse_data_area_may_switch:
  "switch_thread_parse_data_area da rc s = (n, rc', s') \<Longrightarrow> may_switch s' cur t p = may_switch s cur t p"
  by (auto simp: switch_thread_parse_data_area_def Let_def split: if_splits)

lemma option_case_eq_Some:
  "(case x of None \<Rightarrow> a | Some v \<Rightarrow> f v) = Some y \<longleftrightarrow> (x = None \<and> a = Some y) \<or> (\<exists>v. x = Some v \<and> f v = Some y)"
  by (cases x) auto

lemma slow_ret_eq_Some:
  "(case r of Stop a b \<Rightarrow> f a b | Go a b c \<Rightarrow> g a b c) = Some y \<longleftrightarrow>
     (\<exists>a b. r = Stop a b \<and> f a b = Some y) \<or> (\<exists>a b c. r = Go a b c \<and> g a b c = Some y)"
  by (cases r) auto

lemma slowpath_may_switch:
  assumes "switch_thread_slowpath cur flags p rthd da rc cf s = Some (t, rc', cf', s')" "t \<noteq> cur"
  shows "may_switch s cur t p"
  using assms
  by (auto simp: switch_thread_slowpath_def bind_eq_Some_conv slow_ret_eq_Some split: if_splits option.splits prod.splits
      dest!: get_target_may_switch parse_data_area_may_switch)

lemma update_evt_list_current: "update_evt_list tsi s = Some (r, s') \<Longrightarrow> current_thread s' = current_thread s"
  by (auto simp: update_evt_list_def Let_def bind_eq_Some_conv upd_evt_def split: if_splits)

lemma update_thd_evt_state_loop_current:
  "update_thd_evt_state_loop t fl el is s = Some s' \<Longrightarrow> current_thread s' = current_thread s"
proof (induction "is" arbitrary: s)
  case (Cons i "is")
  then show ?case
    by (auto simp: Let_def bind_eq_Some_conv upd_evt_def split: if_splits option.splits dest!: update_evt_list_current)
qed simp

lemma update_sched_evts_current: "update_sched_evts a fa b fb s = Some s' \<Longrightarrow> current_thread s' = current_thread s"
  by (auto simp: update_sched_evts_def update_thd_evt_state_def Let_def bind_eq_Some_conv rdtscl_def split: if_splits
      dest!: update_thd_evt_state_loop_current)

lemma switch_thread_context_current: "switch_thread_context a b s = Some s' \<Longrightarrow> current_thread s' = Some b"
  by (auto simp: switch_thread_context_def switch_thread_context_tail_def switch_thread_data_page_def set_user_data_def
      thd_set_current_def open_close_spd_def switch_pg_tbls_def switch_host_pg_tbls_def Let_def bind_eq_Some_conv split: if_splits)

lemma remove_preempted_status_current: "remove_preempted_status t s = Some s' \<Longrightarrow> current_thread s' = current_thread s"
  by (auto simp: remove_preempted_status_def Let_def bind_eq_Some_conv split: option.splits if_splits)

lemma switch_thread_to_current:
  "switch_thread_to cur t a b s = Some (r, pre, s') \<Longrightarrow> r = TRegs t \<and> current_thread s' = Some t"
  by (auto simp: switch_thread_to_def bind_eq_Some_conv set_ax_def split: if_splits
      dest!: switch_thread_context_current remove_preempted_status_current update_sched_evts_current)

subsection \<open>Properties\<close>

text \<open>
  C12.  Only a scheduler of both threads can cause a switch between them.  When the thread-switch system
  call continues with another thread than the caller, then the component it was made for is one in whose
  protection domain the caller executes, that component schedules the caller and the thread switched to, the thread
  switched to is not a finished upcall thread waiting for its next interrupt, and it is the kernel's current thread
  afterwards.  A call for a component outside the caller's protection domain changes nothing
  but the error code in the caller's registers.
\<close>

theorem switch_thread_authorised:
  assumes "thd_get_current s = Some cur" "cos_syscall_switch_thread_cont spd_id rthd_id rflags s = Some (TRegs t, pre, s')"
  shows "(t \<noteq> cur \<longrightarrow> current_thread s' = Some t \<and> (\<exists>p. thd_validate_get_current_spd s cur spd_id = Some (Some p)
      \<and> thd_scheduled_by s cur p = Some True \<and> thd_scheduled_by s t p = Some True
      \<and> \<not> has (t_flags (threads s t)) THD_STATE_READY_UPCALL))
    \<and> (thd_validate_get_current_spd s cur spd_id = Some None \<longrightarrow> t = cur \<and> s' = set_ax cur (word_of_int COS_SCHED_RET_ERROR) s)"
  using assms
  by (auto simp: cos_syscall_switch_thread_cont_def Let_def bind_eq_Some_conv may_switch_def option_case_eq_Some split: if_splits prod.splits
      dest!: switch_thread_to_current slowpath_may_switch get_target_may_switch parse_data_area_may_switch)

definition sched_example :: kstate where
  "sched_example = upd_thd 4 (\<lambda>x. x\<lparr>sched_info := (sched_info x)(0 := zero_tsi\<lparr>scheduler := Some 2\<rparr>)\<rparr>)
     (upd_thd 6 (\<lambda>x. x\<lparr>thread_id := 7, sched_info := (sched_info x)(0 := zero_tsi\<lparr>scheduler := Some 2\<rparr>),
        stack_base := (stack_base x)(0 := \<lparr>current_composite_spd = Some (PCspd 6), f_spd = Some 3, f_sp = 0, f_ip = 0\<rparr>)\<rparr>)
     (upd_spd 2 (\<lambda>x. x\<lparr>s_flags := 0, sched_depth := 0, sched_shared_page := 0x40001000, kern_sched_shared_page := 0xC000A000\<rparr>)
     (upd_area 0xC000A000 (\<lambda>x. x\<lparr>next_thd_id := 7\<rparr>)
     (set_pmem 0x5000 0x100 0x9003 (set_pmem 0x9000 1 0xA003 inv_example)))))"

lemma sched_example_facts:
  "current_thread sched_example = Some 4" "sched_shared_page (spds sched_example 2) = 0x40001000"
  "user_area sched_example 0x40001000 = Some 0xC000A000" "next_thd_id (sched_areas sched_example 0xC000A000) = 7"
  by (simp_all add: sched_example_def set_pmem_def inv_example_def user_area_def pgtbl_vaddr_to_kaddr_def pgtbl_lookup_address_def
     zero_kstate_def zero_spd_def pgd_index_def pte_index_def PG_LARGE_def PTE_MASK_def pa_to_va_def PAGE_MASK_def HPAGE_SHIFT_def PAGE_SHIFT_def KERN_BASE_ADDR_def has_def PG_PRESENT_def Let_def)

lemma sched_example_scheduled:
  "thd_scheduled_by sched_example 4 2 = Some True" "thd_scheduled_by sched_example 6 2 = Some True"
  by (simp_all add: sched_example_def set_pmem_def inv_example_def thd_scheduled_by_def thd_get_sched_info_def
      u16_of_def MAX_SCHED_HIER_DEPTH_def)

lemma sched_example_flags:
  "t_flags (threads sched_example t) = 0" "next_thd_flags (sched_areas sched_example k) = 0"
  "pending_event (sched_areas sched_example k) = 0" "pending_cevt (sched_areas sched_example k) = 0"
  by (simp_all add: sched_example_def set_pmem_def inv_example_def zero_kstate_def zero_defs upd_area_def)

lemma sched_example_valid: "thd_validate_get_current_spd sched_example 4 2 = Some (Some 2)"
  by (simp add: sched_example_def set_pmem_def inv_example_def thd_validate_get_current_spd_def spd_get_by_index_def spd_is_free_def
      thd_spd_in_current_composite_def thd_get_thd_spdpoly_def thd_invstk_top_def thd_spd_in_composite_def frame_at_def u16_of_def
      zero_kstate_def zero_thread_def zero_spd_def MAX_NUM_SPDS_def MAX_SERVICE_DEPTH_def SPD_FREE_def has_def Let_def)

lemma sched_example_switch: "\<exists>s'. switch_thread_to 4 6 COS_SCHED_EVT_NIL COS_SCHED_EVT_NIL
    (upd_area 0xC000A000 (\<lambda>x. x\<lparr>next_thd_id := 0\<rparr>) sched_example) = Some (TRegs 6, 0, s')"
  by (simp add: sched_example_def set_pmem_def inv_example_def switch_thread_to_def break_preemption_chain_def switch_thread_context_def
      switch_thread_context_tail_def switch_thread_data_page_def set_user_data_def thd_get_current_def thd_set_current_def thd_get_id_def
      update_sched_evts_def open_close_spd_def switch_pg_tbls_def switch_host_pg_tbls_def
      thd_get_thd_spdpoly_def thd_invstk_top_def frame_at_def zero_kstate_def zero_thread_def MAX_SERVICE_DEPTH_def has_def Let_def)

theorem switch_thread_authorised_witness:
  "thd_get_current sched_example = Some 4 \<and> (\<exists>s'. cos_syscall_switch_thread_cont 2 0 0 sched_example = Some (TRegs 6, 0, s')
     \<and> current_thread s' = Some 6 \<and> thd_scheduled_by sched_example 6 2 = Some True)"
proof -
  have c: "thd_get_current sched_example = Some 4" by (simp add: thd_get_current_def sched_example_facts)
  obtain s' where w: "cos_syscall_switch_thread_cont 2 0 0 sched_example = Some (TRegs 6, 0, s')"
    using sched_example_switch sched_example_facts sched_example_scheduled
    by (auto simp: cos_syscall_switch_thread_cont_def c sched_example_valid switch_thread_parse_data_area_def switch_thread_get_target_def
        switch_thread_update_flags_def sched_example_flags thd_get_by_id_def MAX_NUM_THREADS_def has_def Let_def)
  from switch_thread_authorised [OF c w] w c show ?thesis by (auto simp: sched_example_valid)
qed

text \<open>
  C32.  The chain of preempted threads stays doubly linked.  From a consistent chain neither
  \<^verbatim>\<open>break_preemption_chain\<close> nor \<^verbatim>\<open>remove_preempted_status\<close> fails an assertion, and both leave a consistent
  chain.  After the first, the thread has no link in either direction and the links of threads that were
  not its neighbours are as before; after the second, the thread is no longer marked as preempted.
\<close>

theorem preemption_chain_consistent:
  assumes "chain_ok s"
  shows "(\<exists>s'. break_preemption_chain t s = Some s' \<and> chain_ok s'
      \<and> interrupted_thread (threads s' t) = None \<and> preempter_thread (threads s' t) = None
      \<and> (\<forall>u. u \<noteq> t \<and> preempter_thread (threads s t) \<noteq> Some u \<and> interrupted_thread (threads s t) \<noteq> Some u \<longrightarrow>
          interrupted_thread (threads s' u) = interrupted_thread (threads s u)
          \<and> preempter_thread (threads s' u) = preempter_thread (threads s u)))
    \<and> (\<exists>s'. remove_preempted_status t s = Some s' \<and> chain_ok s' \<and> \<not> has (t_flags (threads s' t)) THD_STATE_PREEMPTED)"
proof
  obtain s' where s': "break_preemption_chain t s = Some s'" "left_chain t s s'" using break_preemption_chain_left [OF assms] by blast
  then have "chain_ok s'" using left_chain_ok [OF assms] by blast
  with s' show "\<exists>s'. break_preemption_chain t s = Some s' \<and> chain_ok s'
      \<and> interrupted_thread (threads s' t) = None \<and> preempter_thread (threads s' t) = None
      \<and> (\<forall>u. u \<noteq> t \<and> preempter_thread (threads s t) \<noteq> Some u \<and> interrupted_thread (threads s t) \<noteq> Some u \<longrightarrow>
          interrupted_thread (threads s' u) = interrupted_thread (threads s u)
          \<and> preempter_thread (threads s' u) = preempter_thread (threads s u))"
    unfolding left_chain_def by simp
  show "\<exists>s'. remove_preempted_status t s = Some s' \<and> chain_ok s' \<and> \<not> has (t_flags (threads s' t)) THD_STATE_PREEMPTED"
    by (rule remove_preempted_status_ok [OF assms])
qed

text \<open>Thread 5 preempted 4, and 6 preempted 5.\<close>

definition chain_example :: kstate where
  "chain_example = upd_thd 4 (\<lambda>x. x\<lparr>preempter_thread := Some 5\<rparr>)
     (upd_thd 5 (\<lambda>x. x\<lparr>interrupted_thread := Some 4, preempter_thread := Some 6\<rparr>)
     (upd_thd 6 (\<lambda>x. x\<lparr>interrupted_thread := Some 5\<rparr>) zero_kstate))"

theorem preemption_chain_consistent_witness:
  "chain_ok chain_example \<and> preempter_thread (threads chain_example 5) = Some 6
   \<and> (\<exists>s'. break_preemption_chain 5 chain_example = Some s' \<and> chain_ok s' \<and> preempter_thread (threads s' 5) = None)"
proof -
  have "chain_ok chain_example" by (auto simp: chain_ok_def chain_example_def zero_kstate_def zero_thread_def)
  then show ?thesis using preemption_chain_consistent [of chain_example 5] by (auto simp: chain_example_def)
qed

text \<open>
  C16.  The kernel's side of the event list of a scheduler is a queue without duplicates, wherever in it the
  scheduler stands.  Posting an event appends it at the end unless it is already queued or is the entry on
  which the scheduler stands; the events before it keep their order.  An event number that is 0 or outside the array is refused with the queue unchanged.  In
  every case the scheduler's page says that an event is pending and its last decision is withdrawn.
\<close>

theorem update_evt_list_refines_queue:
  assumes "evt_queue s p d xs" "scheduler tsi = Some p" "kern_sched_shared_page (spds s p) \<noteq> 0"
    and "unat (ucast (notification_offset tsi) :: u16) = n"
  shows "\<exists>r s'. update_evt_list tsi s = Some (r, s') \<and> r = (if 0 < n \<and> n < NUM_SCHED_EVTS then 0 else -1)
    \<and> evt_queue s' p d (if 0 < n \<and> n < NUM_SCHED_EVTS \<and> n \<notin> set (d # xs) then xs @ [n] else xs)
    \<and> pending_event (sched_areas s' (kern_sched_shared_page (spds s p))) = 1
    \<and> next_thd_id (sched_areas s' (kern_sched_shared_page (spds s p))) = 0"
proof (cases "0 < n \<and> n < NUM_SCHED_EVTS")
  case True
  then show ?thesis using update_evt_list_queue [OF assms(1-4)] by (cases "n \<in> set (d # xs)") auto
next
  case False
  then have "update_evt_list tsi s = Some (-1, upd_area (kern_sched_shared_page (spds s p)) (\<lambda>x. x\<lparr>next_thd_id := 0, pending_event := 1\<rparr>) s)"
    using assms(2-4) by (auto simp: update_evt_list_def Let_def)
  with False assms(1) show ?thesis by (auto simp: evt_queue_def)
qed

text \<open>The scheduler of component 2 stands on event 4; event 3 was posted.\<close>

definition evt_example :: kstate where
  "evt_example = upd_area 0xC000A000 (\<lambda>x. x\<lparr>next_thd_id := 7, cos_events := (cos_events x)(4 := (cos_events x 4)\<lparr>e_next := 3\<rparr>)\<rparr>)
     (upd_spd 2 (\<lambda>x. x\<lparr>kern_sched_shared_page := 0xC000A000, prev_notification := 3\<rparr>) zero_kstate)"

theorem update_evt_list_refines_queue_witness:
  "evt_queue evt_example 2 4 [3] \<and> (\<exists>r s'. update_evt_list (zero_tsi\<lparr>scheduler := Some 2, notification_offset := 9\<rparr>) evt_example = Some (r, s')
     \<and> evt_queue s' 2 4 [3, 9])"
proof -
  have q: "evt_queue evt_example 2 4 [3]"
    by (simp add: evt_queue_def evt_chain_def evt_example_def NUM_SCHED_EVTS_def zero_kstate_def zero_area_def)
  show ?thesis
    using q update_evt_list_refines_queue [OF q, of "zero_tsi\<lparr>scheduler := Some 2, notification_offset := 9\<rparr>" 9]
    by (auto simp: evt_example_def NUM_SCHED_EVTS_def)
qed

end
