(* ===== verification/Brands.thy ===== *)
theory Brands
  imports Scheduling "HOL-Library.Sublist"
begin

text \<open>
  Brands and upcalls (\<^verbatim>\<open>kernel/inv.c\<close>, third part): completion of an upcall, the decision whether a
  branded upcall preempts the running thread, the system calls that create and wait for brands, and
  the system call with which schedulers manage threads.
\<close>

subsection \<open>Completing an upcall\<close>

definition brand_completion_switch_to :: "thdp \<Rightarrow> thdp \<Rightarrow> kstate \<Rightarrow> kstate option" where
  "brand_completion_switch_to cur prev s = do {
     s \<leftarrow> break_preemption_chain cur s;
     let s = upd_thd cur (\<lambda>x. x\<lparr>t_flags := (t_flags x AND NOT THD_STATE_ACTIVE_UPCALL) OR THD_STATE_READY_UPCALL\<rparr>) s;
     s \<leftarrow> switch_thread_context cur prev s;
     s \<leftarrow> (if has (t_flags (threads s prev)) THD_STATE_PREEMPTED then remove_preempted_status prev s else Some s);
     update_sched_evts prev COS_SCHED_EVT_NIL cur COS_SCHED_EVT_BRAND_READY s }"

text \<open>The result is the register set to load and \<^verbatim>\<open>*preempt\<close>.\<close>

definition brand_execution_completion :: "thdp \<Rightarrow> kstate \<Rightarrow> (regs_ptr \<times> int \<times> kstate) option" where
  "brand_execution_completion cur s = do {
     q \<leftarrow> thd_get_thd_spdpoly s cur;
     c_assert (has (t_flags (threads s cur)) THD_STATE_ACTIVE_UPCALL \<and> \<not> has (t_flags (threads s cur)) THD_STATE_READY_UPCALL);
     brand \<leftarrow> thread_brand (threads s cur);
     cspd \<leftarrow> q;
     if pending_upcall_requests (threads s brand) \<noteq> 0
     then do { (r, s) \<leftarrow> sched_tailcall_pending_upcall cur (Some cspd) s; Some (r, 0, s) }
     else case interrupted_thread (threads s cur) of
       None \<Rightarrow> do {
         c_assert (scheduler (sched_info (threads s brand) 0) \<noteq> None);
         tsi \<leftarrow> scheduler_find_leaf_loop s brand (Some 0) [1..<MAX_SCHED_HIER_DEPTH];
         dest \<leftarrow> scheduler (sched_info (threads s brand) tsi);
         s \<leftarrow> upcall_inv_setup cur dest COS_UPCALL_BRAND_COMPLETE 0 0 0 s;
         s \<leftarrow> upcall_execute cur (Some (s_composite_spd (spds s dest))) None (Some cspd) s;
         Some (TRegs cur, 0, s) }
     | Some prev \<Rightarrow> do {
         s \<leftarrow> brand_completion_switch_to cur prev s;
         Some (TRegs prev, 1, s) } }"

text \<open>\<^verbatim>\<open>*preempt\<close> is left as it was on the error paths; \<open>pre\<close> is its value on entry.\<close>

definition cos_syscall_brand_wait_cont :: "int \<Rightarrow> nat \<Rightarrow> int \<Rightarrow> kstate \<Rightarrow> (regs_ptr \<times> int \<times> kstate) option" where
  "cos_syscall_brand_wait_cont spd_id bid pre s = do {
     cur \<leftarrow> thd_get_current s;
     let err = Some (TRegs cur, pre, set_ax cur (-1) s);
     q \<leftarrow> thd_validate_get_current_spd s cur spd_id;
     case q of None \<Rightarrow> err
     | Some curr_spd \<Rightarrow>
         (case thd_get_by_id (int bid) of None \<Rightarrow> err
          | Some brand \<Rightarrow>
              if thread_brand (threads s cur) \<noteq> Some brand then err
              else do {
                i \<leftarrow> thd_invstk_top s brand;
                f \<leftarrow> frame_at s brand i;
                if f_spd f \<noteq> Some curr_spd then err else brand_execution_completion cur s }) }"

subsection \<open>Deciding whether an upcall runs\<close>

fun most_common_loop :: "kstate \<Rightarrow> thdp \<Rightarrow> thdp \<Rightarrow> nat list \<Rightarrow> nat option" where
  "most_common_loop s t1 t2 [] = Some (MAX_SCHED_HIER_DEPTH - 1)"
| "most_common_loop s t1 t2 (i # is) = do {
     s1 \<leftarrow> thd_get_depth_sched s t1 (int i);
     s2 \<leftarrow> thd_get_depth_sched s t2 (int i);
     if s1 = None \<or> s1 \<noteq> s2 then Some (i - 1) else most_common_loop s t1 t2 is }"

definition most_common_sched_depth :: "kstate \<Rightarrow> thdp \<Rightarrow> thdp \<Rightarrow> nat option" where
  "most_common_sched_depth s t1 t2 = do {
     r1 \<leftarrow> thd_get_depth_sched s t1 0;
     r2 \<leftarrow> thd_get_depth_sched s t2 0;
     c_assert (r1 = r2);
     most_common_loop s t1 t2 [1..<MAX_SCHED_HIER_DEPTH] }"

definition brand_higher_urgency :: "thdp \<Rightarrow> thdp \<Rightarrow> kstate \<Rightarrow> (bool \<times> kstate) option" where
  "brand_higher_urgency upcall prev s = do {
     c_assert (thread_brand (threads s upcall) \<noteq> None \<and> has (t_flags (threads s upcall)) THD_STATE_UPCALL);
     d \<leftarrow> most_common_sched_depth s upcall prev;
     ptsi \<leftarrow> thd_get_sched_info s prev (int d);
     utsi \<leftarrow> thd_get_sched_info s upcall (int d);
     if thread_notifications ptsi = None then Some (thread_notifications utsi \<noteq> None, s)
     else do {
       u_urg \<leftarrow> thd_get_depth_urg s upcall (int d);
       p_urg \<leftarrow> thd_get_depth_urg s prev (int d);
       if u_urg < p_urg
       then do { s \<leftarrow> update_sched_evts upcall COS_SCHED_EVT_BRAND_ACTIVE prev COS_SCHED_EVT_NIL s; Some (True, s) }
       else do { s \<leftarrow> update_thd_evt_state upcall COS_SCHED_EVT_BRAND_ACTIVE 1 s; Some (False, s) } } }"

definition host_can_switch_pgtbls :: "kstate \<Rightarrow> bool" where
  "host_can_switch_pgtbls s \<longleftrightarrow> env_composite_current s"

definition preempt_links :: "thdp \<Rightarrow> thdp \<Rightarrow> int \<Rightarrow> kstate \<Rightarrow> kstate" where
  "preempt_links upcall preempted preempt s =
     (if preempt \<noteq> 0
      then let s = (if preempt = 1 then upd_thd preempted (\<lambda>x. x\<lparr>t_flags := t_flags x OR THD_STATE_PREEMPTED\<rparr>) s else s);
               s = upd_thd preempted (\<lambda>x. x\<lparr>preempter_thread := Some upcall\<rparr>) s
           in upd_thd upcall (\<lambda>x. x\<lparr>interrupted_thread := Some preempted\<rparr>) s
      else upd_thd upcall (\<lambda>x. x\<lparr>interrupted_thread := None\<rparr>) s)"

definition brand_next_thread :: "thdp \<Rightarrow> thdp \<Rightarrow> int \<Rightarrow> kstate \<Rightarrow> (thdp \<times> kstate) option" where
  "brand_next_thread brand preempted preempt s = do {
     c_assert (has (t_flags (threads s brand)) (THD_STATE_BRAND OR THD_STATE_HW_BRAND));
     upcall \<leftarrow> upcall_threads (threads s brand);
     c_assert (thread_brand (threads s upcall) = Some brand);
     if has (t_flags (threads s upcall)) THD_STATE_ACTIVE_UPCALL
     then do {
       c_assert (\<not> has (t_flags (threads s upcall)) THD_STATE_READY_UPCALL);
       Some (preempted, upd_thd brand (\<lambda>x. x\<lparr>pending_upcall_requests := pending_upcall_requests x + 1\<rparr>) s) }
     else do {
       c_assert (has (t_flags (threads s upcall)) THD_STATE_READY_UPCALL);
       let s = upd_thd upcall (\<lambda>x. x\<lparr>t_flags := (t_flags x OR THD_STATE_ACTIVE_UPCALL) AND NOT THD_STATE_READY_UPCALL\<rparr>) s;
       (higher, s) \<leftarrow> brand_higher_urgency upcall preempted s;
       if higher
       then
         if has (t_flags (threads s preempted)) THD_STATE_PREEMPTED then Some (preempted, s)
         else if preempter_thread (threads s preempted) \<noteq> None then Some (preempted, s)
         else do {
           let s = preempt_links upcall preempted preempt s;
           s \<leftarrow> (if host_can_switch_pgtbls s
             then do {
               n \<leftarrow> thd_get_thd_spdpoly s upcall;
               p \<leftarrow> thd_get_thd_spdpoly s preempted;
               upcall_execute upcall n (Some preempted) p s }
             else upcall_execute_no_vas_switch upcall (Some preempted) s);
           b \<leftarrow> thread_brand (threads s upcall);
           Some (upcall, set_ax upcall (pending_upcall_requests (threads s b)) s) }
       else do {
         s \<leftarrow> (if has (t_flags (threads s preempted)) THD_STATE_ACTIVE_UPCALL then break_preemption_chain preempted s
              else Some s);
         Some (preempted, s) } } }"

definition cos_syscall_brand_upcall_cont :: "int \<Rightarrow> int \<Rightarrow> u32 \<Rightarrow> u32 \<Rightarrow> kstate \<Rightarrow> (regs_ptr \<times> kstate) option" where
  "cos_syscall_brand_upcall_cont spd_id thread_id_flags arg1 arg2 s = do {
     let tid = s16_of (thread_id_flags div 65536);
     curr_thd \<leftarrow> thd_get_current s;
     let err = Some (TRegs curr_thd, set_ax curr_thd (-1) s);
     q \<leftarrow> thd_validate_get_current_spd s curr_thd spd_id;
     case q of None \<Rightarrow> err
     | Some _ \<Rightarrow>
         (case thd_get_by_id tid of None \<Rightarrow> err
          | Some brand_thd \<Rightarrow>
              if \<not> has (t_flags (threads s brand_thd)) THD_STATE_BRAND \<or> upcall_threads (threads s brand_thd) = None then err
              else do {
                (next_thd, s) \<leftarrow> brand_next_thread brand_thd curr_thd 2 s;
                let s = (if next_thd = curr_thd then set_ax curr_thd 0 s
                         else set_ax curr_thd 1 (upd_thd next_thd (\<lambda>x. x\<lparr>regs := (regs x)\<lparr>r_bx := arg1, r_di := arg2\<rparr>\<rparr>) s));
                Some (TRegs next_thd, s) }) }"

subsection \<open>Creating brands\<close>

definition verify_brand_thd :: "nat \<Rightarrow> kstate \<Rightarrow> thdp option" where
  "verify_brand_thd thd_id s =
     (case thd_get_by_id (int thd_id) of None \<Rightarrow> None
      | Some b \<Rightarrow> if \<not> (has (t_flags (threads s b)) THD_STATE_BRAND \<or> has (t_flags (threads s b)) THD_STATE_HW_BRAND)
                  then None else Some b)"

text \<open>Below the scheduler that makes the brand the brand has no schedulers.\<close>

fun clear_below_loop :: "thdp \<Rightarrow> spdp \<Rightarrow> bool \<Rightarrow> nat list \<Rightarrow> kstate \<Rightarrow> kstate" where
  "clear_below_loop t p clear [] s = s"
| "clear_below_loop t p clear (i # is) s =
     (if clear then clear_below_loop t p clear is (upd_tsi t i (\<lambda>x. x\<lparr>scheduler := None, thread_notifications := None\<rparr>) s)
      else clear_below_loop t p (scheduler (sched_info (threads s t) i) = Some p) is s)"

definition brand_create :: "u16 \<Rightarrow> thdp \<Rightarrow> spdp \<Rightarrow> int \<Rightarrow> kstate \<Rightarrow> (int \<times> kstate) option" where
  "brand_create flags curr_thd curr_spd dest s = do {
     (r, s) \<leftarrow> thd_alloc curr_spd s;
     case r of None \<Rightarrow> Some (-1, s)
     | Some new_thd \<Rightarrow> do {
         let s = upd_thd new_thd (\<lambda>x. x\<lparr>stack_base := (\<lambda>i. if i < MAX_SERVICE_DEPTH then stack_base (threads s curr_thd) i else stack_base x i),
           cpu_id := cpu_id (threads s curr_thd), t_flags := t_flags x OR (THD_STATE_BRAND OR flags)\<rparr>) s;
         q \<leftarrow> spd_get_by_index s dest;
         case q of None \<Rightarrow> do { s \<leftarrow> thd_free (Some new_thd) s; Some (-1, s) }
         | Some p \<Rightarrow> do {
             depth \<leftarrow> thd_validate_spd_in_callpath s curr_thd p;
             if depth = -1 then do { s \<leftarrow> thd_free (Some new_thd) s; Some (-1, s) }
             else do {
               let s = upd_thd new_thd (\<lambda>x. x\<lparr>stack_ptr := stack_ptr (threads s curr_thd) - depth\<rparr>) s;
               f \<leftarrow> frame_at s new_thd (stack_ptr (threads s new_thd));
               cmp \<leftarrow> current_composite_spd f;
               c_assert (thd_spd_in_composite s cmp p);
               s \<leftarrow> set_frame new_thd (stack_ptr (threads s new_thd)) (\<lambda>f. f\<lparr>f_spd := Some p\<rparr>) s;
               s \<leftarrow> copy_sched_info new_thd curr_thd s;
               let s = clear_below_loop new_thd curr_spd False [0..<MAX_SCHED_HIER_DEPTH] s;
               let s = upd_thd new_thd (\<lambda>x. x\<lparr>t_flags := t_flags x OR THD_STATE_CYC_CNT\<rparr>) s;
               Some (int (thread_id (threads s new_thd)), s) } } } }"

definition brand_add_thd :: "nat \<Rightarrow> nat \<Rightarrow> kstate \<Rightarrow> (int \<times> kstate) option" where
  "brand_add_thd bid tid s =
     (case (thd_get_by_id (int tid), verify_brand_thd bid s) of
        (Some t, Some brand_thd) \<Rightarrow>
          if thread_brand (threads s t) \<noteq> None then Some (-1, s)
          else if upcall_threads (threads s brand_thd) \<noteq> None then Some (-1, s)
          else do {
            c_assert (\<not> has (t_flags (threads s t)) THD_STATE_UPCALL);
            let s = upd_thd t (\<lambda>x. x\<lparr>t_flags := t_flags x OR (THD_STATE_UPCALL OR THD_STATE_ACTIVE_UPCALL),
              thread_brand := Some brand_thd, upcall_threads := upcall_threads (threads s brand_thd)\<rparr>) s;
            let s = upd_thd brand_thd (\<lambda>x. x\<lparr>upcall_threads := Some t\<rparr>) s;
            s \<leftarrow> break_preemption_chain t s;
            let s = upd_thd t (\<lambda>x. x\<lparr>t_flags := t_flags x OR THD_STATE_CYC_CNT\<rparr>) s;
            Some (int (thread_id (threads s t)), s) }
      | _ \<Rightarrow> Some (-1, s))"

datatype brand_op = COS_BRAND_CREATE | COS_BRAND_ADD_THD | COS_BRAND_CREATE_HW

definition brand_ops :: "brand_op list" where
  "brand_ops = [COS_BRAND_CREATE, COS_BRAND_ADD_THD, COS_BRAND_CREATE_HW]"

definition cos_syscall_brand_cntl :: "int \<Rightarrow> int \<Rightarrow> u32 \<Rightarrow> u16 \<Rightarrow> kstate \<Rightarrow> (int \<times> kstate) option" where
  "cos_syscall_brand_cntl spd_id opn bid_tid dest s = do {
     let bid = unat (drop_bit 16 bid_tid);
     let tid = unat (bid_tid AND 0xFFFF);
     curr_thd \<leftarrow> thd_get_current s;
     q \<leftarrow> thd_validate_get_current_spd s curr_thd spd_id;
     case q of None \<Rightarrow> Some (-1, s)
     | Some curr_spd \<Rightarrow>
         (case enum_op brand_ops opn of
            Some COS_BRAND_CREATE_HW \<Rightarrow> brand_create THD_STATE_HW_BRAND curr_thd curr_spd (int (unat dest)) s
          | Some COS_BRAND_CREATE \<Rightarrow> brand_create 0 curr_thd curr_spd (int (unat dest)) s
          | Some COS_BRAND_ADD_THD \<Rightarrow> brand_add_thd bid tid s
          | None \<Rightarrow> Some (-1, s)) }"

subsection \<open>Upcalls into a component\<close>

fun verify_trust_loop :: "kstate \<Rightarrow> spdp \<Rightarrow> nat list \<Rightarrow> int option" where
  "verify_trust_loop s trustee [] = Some (-1)"
| "verify_trust_loop s trustee (i # is) = do {
     c_assert (i < MAX_STATIC_CAP);
     if destination (invocation_capabilities s i) = Some trustee then Some 0 else verify_trust_loop s trustee is }"

definition verify_trust :: "kstate \<Rightarrow> spdp \<Rightarrow> spdp \<Rightarrow> int option" where
  "verify_trust s truster trustee = do {
     let cap_no = cap_base (spds s truster);
     let max_cap = cap_range (spds s truster) + cap_no;
     verify_trust_loop s trustee [unat cap_no..<unat max_cap] }"

text \<open>The composite of the current frame is released; the caller keeps its place on no stack.\<close>

definition cos_syscall_upcall_cont :: "int \<Rightarrow> int \<Rightarrow> kstate \<Rightarrow> (int \<times> regs_ptr option \<times> kstate) option" where
  "cos_syscall_upcall_cont this_spd_id spd_id s = do {
     d \<leftarrow> spd_get_by_index s spd_id;
     t \<leftarrow> thd_get_current s;
     q \<leftarrow> thd_validate_get_current_spd s t this_spd_id;
     case (d, q) of
       (Some dest, Some curr_spd) \<Rightarrow> do {
         r \<leftarrow> verify_trust s dest curr_spd;
         if r \<noteq> 0 \<and> sched_depth (spds s curr_spd) \<noteq> 0 then Some (-1, None, s)
         else do {
           s \<leftarrow> open_close_spd (s_composite_spd (spds s dest)) (s_composite_spd (spds s curr_spd)) s;
           q \<leftarrow> thd_get_thd_spdpoly s t;
           cspd \<leftarrow> q;
           s \<leftarrow> poly_ipc_release cspd s;
           s \<leftarrow> upcall_setup t dest COS_UPCALL_BOOTSTRAP 0 0 0 s;
           Some (int (thd_get_id s t), Some (TRegs t), s) } }
     | _ \<Rightarrow> Some (-1, None, s) }"

subsection \<open>Scheduler control\<close>

datatype sched_op = COS_SCHED_EVT_REGION | COS_SCHED_THD_EVT | COS_SCHED_PROMOTE_CHLD | COS_SCHED_GRANT_SCHED
  | COS_SCHED_REVOKE_SCHED | COS_SCHED_REMOVE_THD | COS_SCHED_BREAK_PREEMPTION_CHAIN

definition sched_ops :: "sched_op list" where
  "sched_ops = [COS_SCHED_EVT_REGION, COS_SCHED_THD_EVT, COS_SCHED_PROMOTE_CHLD, COS_SCHED_GRANT_SCHED,
     COS_SCHED_REVOKE_SCHED, COS_SCHED_REMOVE_THD, COS_SCHED_BREAK_PREEMPTION_CHAIN]"

definition sched_evt_region :: "spdp \<Rightarrow> u32 \<Rightarrow> kstate \<Rightarrow> (int \<times> kstate) option" where
  "sched_evt_region p region s =
     (let loc = location (spds s p) 0
      in if region < lowest_addr loc \<or> region + of_nat PAGE_SIZE \<ge> lowest_addr loc + loc_size loc then Some (-1, s)
         else Some (0, upd_spd p (\<lambda>x. x\<lparr>sched_shared_page := region,
           kern_sched_shared_page := pgtbl_vaddr_to_kaddr s (s_pg_tbl (spds s p)) region, prev_notification := 0\<rparr>) s))"

text \<open>Every upcall thread of a brand shares its scheduling information.\<close>

partial_function (option) copy_to_upcalls :: "thdp \<Rightarrow> thdp option \<Rightarrow> kstate \<Rightarrow> kstate option" where
  "copy_to_upcalls brand t s =
     (case t of None \<Rightarrow> Some s
      | Some t \<Rightarrow> do {
          s \<leftarrow> copy_sched_info t brand s;
          copy_to_upcalls brand (upcall_threads (threads s t)) s })"

text \<open>Only the upper limit of the index is checked; a negative one leaves the event array.\<close>

definition sched_thd_evt :: "spdp \<Rightarrow> int \<Rightarrow> int \<Rightarrow> kstate \<Rightarrow> (int \<times> kstate) option" where
  "sched_thd_evt p thd_id idx s =
     (case thd_get_by_id thd_id of None \<Rightarrow> Some (-1, s)
      | Some t \<Rightarrow> do {
          tsi \<leftarrow> thd_get_sched_info s t (sched_depth (spds s p));
          let d = u16_of (sched_depth (spds s p));
          if scheduler tsi \<noteq> Some p then Some (-1, s)
          else if idx \<ge> int NUM_SCHED_EVTS then Some (-1, s)
          else do {
            c_assert (0 \<le> idx);
            let page = kern_sched_shared_page (spds s p);
            if idx = 0
            then do {
              c_assert (page \<noteq> 0);
              let s = upd_evt page 0 (\<lambda>e. e\<lparr>e_next := 0, e_flags := 0, cpu_consumption := 0\<rparr>) s;
              Some (0, upd_tsi t d (\<lambda>x. x\<lparr>thread_notifications := None, notification_offset := 0\<rparr>) s) }
            else do {
              let s = upd_tsi t d (\<lambda>x. x\<lparr>thread_notifications := Some (page, nat idx), notification_offset := word_of_int idx\<rparr>) s;
              s \<leftarrow> (if has (t_flags (threads s t)) THD_STATE_BRAND then copy_to_upcalls t (upcall_threads (threads s t)) s
                   else Some s);
              Some (0, s) } } })"

definition sched_promote_chld :: "spdp \<Rightarrow> int \<Rightarrow> kstate \<Rightarrow> (int \<times> kstate) option" where
  "sched_promote_chld p option s = do {
     let sched_lvl = sched_depth (spds s p) + 1;
     q \<leftarrow> spd_get_by_index s option;
     if sched_lvl \<ge> int MAX_SCHED_HIER_DEPTH then Some (-1, s)
     else do {
       child \<leftarrow> q;
       if parent_sched (spds s child) \<noteq> None then Some (-1, s)
       else Some (0, upd_spd child (\<lambda>x. x\<lparr>parent_sched := Some p, sched_depth := sched_lvl\<rparr>) s) } }"

text \<open>
  Granting and revoking, as far as the end of their block: the result is a return value or, when the
  block runs to its end, nothing, and the code falls through into the next case.
\<close>

definition sched_grant_revoke :: "bool \<Rightarrow> spdp \<Rightarrow> int \<Rightarrow> int \<Rightarrow> kstate \<Rightarrow> (int option \<times> kstate) option" where
  "sched_grant_revoke grant p thd_id option s = do {
     q \<leftarrow> spd_get_by_index s option;
     case (thd_get_by_id thd_id, q) of
       (Some t, Some child) \<Rightarrow>
         if parent_sched (spds s child) \<noteq> Some p then Some (Some (-1), s)
         else do {
           by_me \<leftarrow> thd_scheduled_by s t p;
           if \<not> by_me then Some (Some (-1), s)
           else do {
             tsi \<leftarrow> thd_get_sched_info s t (sched_depth (spds s child));
             let d = u16_of (sched_depth (spds s child));
             if \<not> grant \<and> scheduler tsi \<noteq> Some child then Some (Some (-1), s)
             else do {
               let s = upd_tsi t d (\<lambda>x. x\<lparr>scheduler := (if grant then Some child else None)\<rparr>) s;
               s \<leftarrow> fold_opt (\<lambda>i s. do {
                      c_assert (u16_of i < MAX_SCHED_HIER_DEPTH);
                      Some (upd_tsi t (u16_of i) (\<lambda>x. x\<lparr>scheduler := None\<rparr>) s) })
                    [sched_depth (spds s child) + 1..int MAX_SCHED_HIER_DEPTH - 1] s;
               Some (None, s) } } }
     | _ \<Rightarrow> Some (Some (-1), s) }"

definition sched_break_chain :: "thdp \<Rightarrow> kstate \<Rightarrow> (int \<times> kstate) option" where
  "sched_break_chain t s = do { s \<leftarrow> break_preemption_chain t s; Some (0, s) }"

definition cos_syscall_sched_cntl :: "int \<Rightarrow> int \<Rightarrow> int \<Rightarrow> int \<Rightarrow> kstate \<Rightarrow> (int \<times> kstate) option" where
  "cos_syscall_sched_cntl spd_id operation thd_id option s = do {
     t \<leftarrow> thd_get_current s;
     q \<leftarrow> thd_validate_get_current_spd s t spd_id;
     case q of None \<Rightarrow> Some (-1, s)
     | Some p \<Rightarrow>
         if sched_depth (spds s p) < 0 then Some (-1, s)
         else (case enum_op sched_ops operation of
             Some COS_SCHED_EVT_REGION \<Rightarrow> sched_evt_region p (word_of_int option) s
           | Some COS_SCHED_THD_EVT \<Rightarrow> sched_thd_evt p thd_id option s
           | Some COS_SCHED_PROMOTE_CHLD \<Rightarrow> sched_promote_chld p option s
           | Some COS_SCHED_GRANT_SCHED \<Rightarrow> do {
               (r, s) \<leftarrow> sched_grant_revoke True p thd_id option s;
               case r of Some v \<Rightarrow> Some (v, s) | None \<Rightarrow> sched_break_chain t s }
           | Some COS_SCHED_REVOKE_SCHED \<Rightarrow> do {
               (r, s) \<leftarrow> sched_grant_revoke False p thd_id option s;
               case r of Some v \<Rightarrow> Some (v, s) | None \<Rightarrow> sched_break_chain t s }
           | Some COS_SCHED_BREAK_PREEMPTION_CHAIN \<Rightarrow> sched_break_chain t s
           | _ \<Rightarrow> Some (-1, s)) }"

subsection \<open>The schedulers of a thread\<close>

text \<open>The schedulers of a thread, from the root down to the first level that has none.\<close>

definition sched_path :: "kstate \<Rightarrow> thdp \<Rightarrow> nat list \<Rightarrow> spdp option list" where
  "sched_path s t ds = takeWhile (\<lambda>x. x \<noteq> None) (map (\<lambda>d. scheduler (sched_info (threads s t) d)) ds)"

lemma thd_get_depth_sched_eq: "d < MAX_SCHED_HIER_DEPTH \<Longrightarrow> thd_get_depth_sched s t (int d) = Some (scheduler (sched_info (threads s t) d))"
  by (simp add: thd_get_depth_sched_def thd_get_sched_info_def u16_of_def MAX_SCHED_HIER_DEPTH_def)

lemma most_common_loop_prefix:
  "0 < i \<Longrightarrow> i + n = MAX_SCHED_HIER_DEPTH \<Longrightarrow> most_common_loop s t1 t2 [i..<i + n] =
     Some (i - 1 + length (longest_common_prefix (sched_path s t1 [i..<i + n]) (sched_path s t2 [i..<i + n])))"
proof (induction n arbitrary: i)
  case (Suc n)
  have e: "[i..<i + Suc n] = i # [Suc i..<Suc i + n]" by (simp add: upt_conv_Cons)
  show ?case using Suc.prems Suc.IH [of "Suc i"] unfolding e
    by (auto simp: thd_get_depth_sched_eq sched_path_def)
qed (simp add: sched_path_def)

text \<open>
  The tree of schedulers: a scheduler with a parent is one level below it.  The schedulers of a thread
  are a path of this tree, each at the depth at which the thread has it.
\<close>

definition hier_ok :: "kstate \<Rightarrow> bool" where
  "hier_ok s \<longleftrightarrow>
     (\<forall>c p. parent_sched (spds s c) = Some p \<longrightarrow>
        0 \<le> sched_depth (spds s p) \<and> sched_depth (spds s c) = sched_depth (spds s p) + 1
        \<and> sched_depth (spds s c) < int MAX_SCHED_HIER_DEPTH)
   \<and> (\<forall>t d p. d < MAX_SCHED_HIER_DEPTH \<longrightarrow> scheduler (sched_info (threads s t) d) = Some p \<longrightarrow>
        sched_depth (spds s p) = int d
        \<and> (0 < d \<longrightarrow> (\<exists>q. parent_sched (spds s p) = Some q \<and> scheduler (sched_info (threads s t) (d - 1)) = Some q)))"

lemma clear_levels:
  assumes "fold_opt (\<lambda>i s. do { c_assert (u16_of i < MAX_SCHED_HIER_DEPTH);
      Some (upd_tsi t (u16_of i) (\<lambda>x. x\<lparr>scheduler := None\<rparr>) s) }) is s = Some s'"
    and "\<forall>i \<in> set is. 0 \<le> i \<and> i < int MAX_SCHED_HIER_DEPTH"
  shows "spds s' = spds s \<and> (\<forall>u j. scheduler (sched_info (threads s' u) j) =
      (if u = t \<and> int j \<in> set is then None else scheduler (sched_info (threads s u) j)))"
  using assms
proof (induction "is" arbitrary: s)
  case (Cons i "is")
  have u: "u16_of i = nat i" using Cons.prems(2) by (simp add: u16_of_def MAX_SCHED_HIER_DEPTH_def)
  have "int j = i \<longleftrightarrow> j = nat i" for j using Cons.prems(2) by auto
  with Cons.prems Cons.IH [of "upd_tsi t (nat i) (\<lambda>x. x\<lparr>scheduler := None\<rparr>) s"] u show ?case
    by (auto simp: upd_tsi_def split: if_splits)
qed simp

text \<open>Putting a scheduler at level \<open>d\<close> of a thread and none below.\<close>

lemma hier_ok_set_level:
  assumes "hier_ok s" "spds s' = spds s"
    and "\<And>u j. j < MAX_SCHED_HIER_DEPTH \<Longrightarrow> scheduler (sched_info (threads s' u) j) =
      (if u = t \<and> d < j then None else if u = t \<and> j = d then v else scheduler (sched_info (threads s u) j))"
    and "\<And>c. v = Some c \<Longrightarrow> sched_depth (spds s c) = int d \<and> (0 < d \<longrightarrow>
      (\<exists>q. parent_sched (spds s c) = Some q \<and> scheduler (sched_info (threads s t) (d - 1)) = Some q))"
  shows "hier_ok s'"
  unfolding hier_ok_def
proof (intro conjI)
  show "\<forall>c p. parent_sched (spds s' c) = Some p \<longrightarrow> 0 \<le> sched_depth (spds s' p)
      \<and> sched_depth (spds s' c) = sched_depth (spds s' p) + 1 \<and> sched_depth (spds s' c) < int MAX_SCHED_HIER_DEPTH"
    using assms(1) unfolding hier_ok_def assms(2) by blast
  have p: "scheduler (sched_info (threads s u) j) = Some p \<Longrightarrow> j < MAX_SCHED_HIER_DEPTH \<Longrightarrow> sched_depth (spds s p) = int j
      \<and> (0 < j \<longrightarrow> (\<exists>q. parent_sched (spds s p) = Some q \<and> scheduler (sched_info (threads s u) (j - 1)) = Some q))" for u j p
    using assms(1) by (simp add: hier_ok_def)
  show "\<forall>u j p. j < MAX_SCHED_HIER_DEPTH \<longrightarrow> scheduler (sched_info (threads s' u) j) = Some p \<longrightarrow>
      sched_depth (spds s' p) = int j
      \<and> (0 < j \<longrightarrow> (\<exists>q. parent_sched (spds s' p) = Some q \<and> scheduler (sched_info (threads s' u) (j - 1)) = Some q))"
  proof (intro allI impI)
    fix u j p assume j: "j < MAX_SCHED_HIER_DEPTH" and sc: "scheduler (sched_info (threads s' u) j) = Some p"
    have j1: "j - 1 < MAX_SCHED_HIER_DEPTH" using j by simp
    show "sched_depth (spds s' p) = int j
        \<and> (0 < j \<longrightarrow> (\<exists>q. parent_sched (spds s' p) = Some q \<and> scheduler (sched_info (threads s' u) (j - 1)) = Some q))"
    proof (cases "u = t \<and> j = d")
      case True
      with sc assms(3) [OF j, of u] have "v = Some p" by simp
      from assms(4) [OF this] True show ?thesis using assms(3) [OF j1, of u] by (auto simp: assms(2))
    next
      case False
      with sc assms(3) [OF j, of u] have "scheduler (sched_info (threads s u) j) = Some p" "\<not> (u = t \<and> d < j)"
        by (auto split: if_splits)
      with p [OF this(1) j] False show ?thesis using assms(3) [OF j1, of u] by (auto simp: assms(2))
    qed
  qed
qed

lemma upd_tsi_spds [simp]: "spds (upd_tsi t i f s) = spds s"
  by (simp add: upd_tsi_def)

lemma grant_revoke_hier:
  assumes h: "hier_ok s" and g: "sched_grant_revoke grant p thd_id opt s = Some (r, s')"
  shows "hier_ok s'"
proof (cases "s' = s")
  case False
  obtain t child tsi where c: "parent_sched (spds s child) = Some p" "thd_scheduled_by s t p = Some True"
    and f: "fold_opt (\<lambda>i s. do { c_assert (u16_of i < MAX_SCHED_HIER_DEPTH);
        Some (upd_tsi t (u16_of i) (\<lambda>x. x\<lparr>scheduler := None\<rparr>) s) })
      [sched_depth (spds s child) + 1..int MAX_SCHED_HIER_DEPTH - 1]
      (upd_tsi t (u16_of (sched_depth (spds s child))) (\<lambda>x. x\<lparr>scheduler := (if grant then Some child else None)\<rparr>) s) = Some s'"
    using g False by (auto simp: sched_grant_revoke_def Let_def bind_eq_Some_conv option_case_eq_Some split: if_splits)
  have "0 \<le> sched_depth (spds s p)" "sched_depth (spds s child) = sched_depth (spds s p) + 1"
    "sched_depth (spds s child) < int MAX_SCHED_HIER_DEPTH"
    using h c(1) unfolding hier_ok_def by blast+
  then obtain d where d: "sched_depth (spds s p) = int d" "sched_depth (spds s child) = int (Suc d)" "Suc d < MAX_SCHED_HIER_DEPTH"
    by (metis nonneg_int_cases of_nat_Suc add.commute of_nat_less_iff)
  then have u: "u16_of (int d) = d" "u16_of (int (Suc d)) = Suc d" by (simp_all add: u16_of_def MAX_SCHED_HIER_DEPTH_def)
  have up: "scheduler (sched_info (threads s t) d) = Some p"
    using c(2) d u by (simp add: thd_scheduled_by_def thd_get_sched_info_def)
  note cl = clear_levels [OF f [unfolded d(2) u(2)]]
  show ?thesis
    by (rule hier_ok_set_level [OF h, of _ t "Suc d" "if grant then Some child else None"])
      (use cl up d c(1) in \<open>auto simp: upd_tsi_def split: if_splits\<close>)
qed (use h in simp)

lemma break_chain_hier:
  assumes "hier_ok s" "break_preemption_chain t s = Some s'"
  shows "hier_ok s'"
proof -
  have eq: "spds s' = spds s" "\<And>u. sched_info (threads s' u) = sched_info (threads s u)"
    using assms(2) by (auto simp: break_preemption_chain_def Let_def split: option.splits if_splits)
  from assms(1) show ?thesis unfolding hier_ok_def eq .
qed

lemma promote_hier:
  assumes h: "hier_ok s" and d: "0 \<le> sched_depth (spds s p)" and pr: "sched_promote_chld p opt s = Some (r, s')"
    and fresh: "\<And>c. spd_get_by_index s opt = Some (Some c) \<Longrightarrow> parent_sched (spds s c) = None \<Longrightarrow> sched_depth (spds s c) < 0"
  shows "hier_ok s'"
proof (cases "s' = s")
  case False
  then obtain c where c: "spd_get_by_index s opt = Some (Some c)" "parent_sched (spds s c) = None"
      "sched_depth (spds s p) + 1 < int MAX_SCHED_HIER_DEPTH"
      "s' = upd_spd c (\<lambda>x. x\<lparr>parent_sched := Some p, sched_depth := sched_depth (spds s p) + 1\<rparr>) s"
    using pr by (auto simp: sched_promote_chld_def Let_def bind_eq_Some_conv split: if_splits)
  have n: "sched_depth (spds s c) < 0" by (rule fresh [OF c(1,2)])
  have a: "parent_sched (spds s e) = Some c \<Longrightarrow> False" "d < MAX_SCHED_HIER_DEPTH \<Longrightarrow> scheduler (sched_info (threads s t) d) = Some c \<Longrightarrow> False"
    for e t d using h n unfolding hier_ok_def by fastforce+
  have "p \<noteq> c" using n d by auto
  with h c(3) d a show ?thesis unfolding hier_ok_def c(4) by (auto; fastforce)
qed (use h in simp)

subsection \<open>Interrupts that arrive while the upcall thread is busy\<close>

fun arrivals :: "nat \<Rightarrow> thdp \<Rightarrow> thdp \<Rightarrow> kstate \<Rightarrow> kstate option" where
  "arrivals 0 brand preempted s = Some s"
| "arrivals (Suc n) brand preempted s = do {
     (t, s) \<leftarrow> brand_next_thread brand preempted 1 s;
     c_assert (t = preempted);
     arrivals n brand preempted s }"

fun completions :: "nat \<Rightarrow> thdp \<Rightarrow> kstate \<Rightarrow> kstate option" where
  "completions 0 t s = Some s"
| "completions (Suc n) t s = do {
     (r, _, s) \<leftarrow> brand_execution_completion t s;
     c_assert (r = TRegs t);
     completions n t s }"

text \<open>The upcall thread \<open>t\<close> of \<open>brand\<close> is executing an upcall.\<close>

definition busy :: "kstate \<Rightarrow> thdp \<Rightarrow> thdp \<Rightarrow> bool" where
  "busy s brand t \<longleftrightarrow> has (t_flags (threads s brand)) (THD_STATE_BRAND OR THD_STATE_HW_BRAND)
     \<and> upcall_threads (threads s brand) = Some t \<and> thread_brand (threads s t) = Some brand
     \<and> has (t_flags (threads s t)) THD_STATE_ACTIVE_UPCALL \<and> \<not> has (t_flags (threads s t)) THD_STATE_READY_UPCALL
     \<and> (\<exists>q. thd_get_thd_spdpoly s t = Some (Some q))"

definition set_pending :: "thdp \<Rightarrow> u32 \<Rightarrow> kstate \<Rightarrow> kstate" where
  "set_pending brand v s = upd_thd brand (\<lambda>x. x\<lparr>pending_upcall_requests := v\<rparr>) s"

lemma spdpoly_set [simp]:
  "thd_get_thd_spdpoly (set_pending b v s) t = thd_get_thd_spdpoly s t" "thd_get_thd_spdpoly (set_ax u w s) t = thd_get_thd_spdpoly s t"
  by (simp_all add: thd_get_thd_spdpoly_def thd_invstk_top_def frame_at_def set_pending_def set_ax_def)

lemma set_pending_thread [simp]:
  "t_flags (threads (set_pending b v s) t) = t_flags (threads s t)" "thread_brand (threads (set_pending b v s) t) = thread_brand (threads s t)"
  "upcall_threads (threads (set_pending b v s) t) = upcall_threads (threads s t)"
  "pending_upcall_requests (threads (set_pending b v s) b) = v"
  by (simp_all add: set_pending_def)

lemma set_ax_thread [simp]:
  "t_flags (threads (set_ax u w s) t) = t_flags (threads s t)" "thread_brand (threads (set_ax u w s) t) = thread_brand (threads s t)"
  "upcall_threads (threads (set_ax u w s) t) = upcall_threads (threads s t)"
  "pending_upcall_requests (threads (set_ax u w s) t) = pending_upcall_requests (threads s t)"
  by (simp_all add: set_ax_def)

lemma busy_set [simp]: "busy (set_pending b v s) brand t = busy s brand t" "busy (set_ax u w s) brand t = busy s brand t"
  by (simp_all add: busy_def)

lemma pending_update: "upd_thd b (\<lambda>x. x\<lparr>pending_upcall_requests := f (pending_upcall_requests x)\<rparr>) s =
    set_pending b (f (pending_upcall_requests (threads s b))) s"
  by (simp add: set_pending_def upd_thd_def)

lemma arrival_busy: "busy s brand t \<Longrightarrow> brand_next_thread brand preempted pre s =
    Some (preempted, set_pending brand (pending_upcall_requests (threads s brand) + 1) s)"
  using pending_update [of brand "\<lambda>x. x + 1" s] by (auto simp: busy_def brand_next_thread_def)

lemma completion_busy:
  assumes "busy s brand t" "pending_upcall_requests (threads s brand) \<noteq> 0"
  shows "brand_execution_completion t s =
    Some (TRegs t, 0, set_ax t 0 (set_pending brand (pending_upcall_requests (threads s brand) - 1) s))"
proof -
  obtain q where q: "thd_get_thd_spdpoly s t = Some (Some q)" "thread_brand (threads s t) = Some brand"
    "has (t_flags (threads s t)) THD_STATE_ACTIVE_UPCALL" "\<not> has (t_flags (threads s t)) THD_STATE_READY_UPCALL"
    using assms(1) by (auto simp: busy_def)
  then have "sched_tailcall_pending_upcall t (Some q) s =
      Some (TRegs t, set_ax t 0 (set_pending brand (pending_upcall_requests (threads s brand) - 1) s))"
    using assms(2) pending_update [of brand "\<lambda>x. x - 1" s]
    by (simp add: sched_tailcall_pending_upcall_def sched_tailcall_pending_upcall_thd_def upcall_execute_def Let_def
        set_ax_def [symmetric] word_gt_0)
  with q assms(2) show ?thesis by (simp add: brand_execution_completion_def)
qed

lemma arrivals_busy:
  "busy s brand t \<Longrightarrow> \<exists>s'. arrivals n brand preempted s = Some s' \<and> busy s' brand t
     \<and> pending_upcall_requests (threads s' brand) = pending_upcall_requests (threads s brand) + of_nat n"
proof (induction n arbitrary: s)
  case (Suc n)
  from Suc.IH [of "set_pending brand (pending_upcall_requests (threads s brand) + 1) s"] Suc.prems
  show ?case by (auto simp: arrival_busy add.assoc add.commute [of 1])
qed simp

lemma completions_busy:
  "busy s brand t \<Longrightarrow> n \<le> unat (pending_upcall_requests (threads s brand)) \<Longrightarrow> \<exists>s'. completions n t s = Some s' \<and> busy s' brand t
     \<and> pending_upcall_requests (threads s' brand) = pending_upcall_requests (threads s brand) - of_nat n"
proof (induction n arbitrary: s)
  case (Suc n)
  let ?s = "set_ax t 0 (set_pending brand (pending_upcall_requests (threads s brand) - 1) s)"
  have nz: "pending_upcall_requests (threads s brand) \<noteq> 0" using Suc.prems(2) by auto
  then have "unat (pending_upcall_requests (threads s brand) - 1) = unat (pending_upcall_requests (threads s brand)) - 1"
    by (rule unat_minus_one)
  with Suc.IH [of ?s] Suc.prems show ?case by (auto simp: completion_busy nz algebra_simps)
qed simp

subsection \<open>Properties\<close>


definition hier_example :: kstate where
  "hier_example = upd_spd 3 (\<lambda>x. x\<lparr>s_flags := 0, parent_sched := Some 2, sched_depth := 1\<rparr>) sched_example"

lemma hier_example_valid: "thd_validate_get_current_spd hier_example 4 2 = Some (Some 2)"
  by (simp add: hier_example_def sched_example_def set_pmem_def inv_example_def thd_validate_get_current_spd_def spd_get_by_index_def
      spd_is_free_def thd_spd_in_current_composite_def thd_get_thd_spdpoly_def thd_invstk_top_def thd_spd_in_composite_def frame_at_def
      u16_of_def zero_kstate_def zero_thread_def zero_spd_def MAX_NUM_SPDS_def MAX_SERVICE_DEPTH_def SPD_FREE_def has_def Let_def)

lemma hier_example_ok: "hier_ok hier_example"
  by (auto simp: hier_ok_def hier_example_def sched_example_def set_pmem_def inv_example_def zero_kstate_def zero_defs MAX_SCHED_HIER_DEPTH_def
      split: if_splits)


text \<open>
  The level at which two threads are compared is the depth of the last scheduler they share:
  \<^verbatim>\<open>most_common_sched_depth\<close> computes the length of the longest common prefix of the two threads' paths in the
  scheduler tree, less one.
\<close>

theorem most_common_sched_depth_prefix:
  assumes "scheduler (sched_info (threads s t1) 0) = Some r" "scheduler (sched_info (threads s t2) 0) = Some r"
  shows "most_common_sched_depth s t1 t2 = Some (length (longest_common_prefix
     (sched_path s t1 [0..<MAX_SCHED_HIER_DEPTH]) (sched_path s t2 [0..<MAX_SCHED_HIER_DEPTH])) - 1)"
proof -
  have "[0..<MAX_SCHED_HIER_DEPTH] = 0 # [1..<1 + 3]" by (simp add: MAX_SCHED_HIER_DEPTH_def upt_conv_Cons)
  moreover have "[1..<MAX_SCHED_HIER_DEPTH] = [1..<1 + 3]" "(0::nat) < MAX_SCHED_HIER_DEPTH" by (simp_all add: MAX_SCHED_HIER_DEPTH_def)
  ultimately show ?thesis using assms most_common_loop_prefix [of 1 3 s t1 t2] thd_get_depth_sched_eq [of 0 s]
    by (simp add: most_common_sched_depth_def sched_path_def MAX_SCHED_HIER_DEPTH_def)
qed

theorem most_common_sched_depth_prefix_witness:
  "scheduler (sched_info (threads sched_example 4) 0) = Some 2 \<and> scheduler (sched_info (threads sched_example 6) 0) = Some 2
   \<and> most_common_sched_depth sched_example 4 6 = Some 0"
proof -
  have "scheduler (sched_info (threads sched_example 4) 0) = Some 2" "scheduler (sched_info (threads sched_example 6) 0) = Some 2"
    "sched_path sched_example 4 [0..<MAX_SCHED_HIER_DEPTH] = [Some 2]"
    by (simp_all add: sched_example_def inv_example_def set_pmem_def sched_path_def MAX_SCHED_HIER_DEPTH_def upt_rec zero_kstate_def
        zero_thread_def zero_tsi_def)
  with most_common_sched_depth_prefix [of sched_example 4 2 6] show ?thesis
    by (cases "sched_path sched_example 6 [0..<MAX_SCHED_HIER_DEPTH]") auto
qed

text \<open>
  C17.  No interrupt is lost while an upcall thread is busy.  Each of \<open>n\<close> interrupts that arrive during an
  upcall lets the interrupted thread go on and is counted, as long as the 32-bit counter does not overflow,
  and the upcall thread then runs once for each request: every completion starts the next upcall in the same
  thread until the counter is back to 0.
\<close>

theorem pending_upcalls_all_run:
  assumes "busy s brand t" "unat (pending_upcall_requests (threads s brand)) + n < 2 ^ 32"
  shows "\<exists>s1 s2. arrivals n brand preempted s = Some s1
    \<and> unat (pending_upcall_requests (threads s1 brand)) = unat (pending_upcall_requests (threads s brand)) + n
    \<and> completions (unat (pending_upcall_requests (threads s brand)) + n) t s1 = Some s2
    \<and> pending_upcall_requests (threads s2 brand) = 0 \<and> busy s2 brand t"
proof -
  obtain s1 where s1: "arrivals n brand preempted s = Some s1" "busy s1 brand t"
      "pending_upcall_requests (threads s1 brand) = pending_upcall_requests (threads s brand) + of_nat n"
    using arrivals_busy [OF assms(1)] by blast
  have n: "unat (pending_upcall_requests (threads s1 brand)) = unat (pending_upcall_requests (threads s brand)) + n"
    unfolding s1(3) using assms(2) by (simp add: unat_word_ariths unat_of_nat)
  with completions_busy [OF s1(2), of "unat (pending_upcall_requests (threads s1 brand))"] s1(1,3) show ?thesis by auto
qed

definition brand_example :: kstate where
  "brand_example = upd_thd 8 (\<lambda>x. x\<lparr>t_flags := THD_STATE_BRAND, upcall_threads := Some 4\<rparr>)
     (upd_thd 4 (\<lambda>x. x\<lparr>t_flags := THD_STATE_ACTIVE_UPCALL, thread_brand := Some 8\<rparr>) inv_example)"

theorem pending_upcalls_all_run_witness:
  "busy brand_example 8 4 \<and> (\<exists>s1 s2. arrivals 3 8 6 brand_example = Some s1 \<and> unat (pending_upcall_requests (threads s1 8)) = 3
     \<and> completions 3 4 s1 = Some s2 \<and> pending_upcall_requests (threads s2 8) = 0)"
proof -
  have "busy brand_example 8 4" "pending_upcall_requests (threads brand_example 8) = 0"
    by (simp_all add: brand_example_def inv_example_def busy_def has_def THD_STATE_BRAND_def THD_STATE_HW_BRAND_def
        THD_STATE_ACTIVE_UPCALL_def THD_STATE_READY_UPCALL_def thd_get_thd_spdpoly_def thd_invstk_top_def frame_at_def
        zero_kstate_def zero_thread_def MAX_SERVICE_DEPTH_def)
  with pending_upcalls_all_run [of brand_example 8 4 3 6] show ?thesis by auto
qed

end
