(* ===== verification/Protection.thy ===== *)
theory Protection
  imports Brands
begin

text \<open>
  The system calls on components, their capabilities, memory and protection domains (\<^verbatim>\<open>kernel/inv.c\<close>,
  last part): splitting and merging composite protection domains, mapping pages, configuring
  capabilities, building components and changing address spaces.
\<close>

subsection \<open>Splitting a protection domain\<close>

definition as_cspd :: "spd_poly \<Rightarrow> cspdp option" where
  "as_cspd q = (case q of PCspd c \<Rightarrow> Some c | PSpd _ \<Rightarrow> None)"

partial_function (option) move_members :: "cspdp \<Rightarrow> cspdp \<Rightarrow> bool \<Rightarrow> kstate \<Rightarrow> (int \<times> kstate) option" where
  "move_members from dest remove_mappings s =
     (case members (mpd_descriptors s from) of None \<Rightarrow> Some (0, s)
      | Some p \<Rightarrow> do {
          (r, s) \<leftarrow> spd_composite_move_member dest p remove_mappings s;
          if r \<noteq> 0 then Some (-1, s)
          else do {
            c_assert (members (mpd_descriptors s from) \<noteq> Some p);
            move_members from dest remove_mappings s } })"

definition mpd_split_composite_populate ::
  "cspdp \<Rightarrow> cspdp option \<Rightarrow> spdp \<Rightarrow> cspdp \<Rightarrow> kstate \<Rightarrow> (int \<times> kstate) option" where
  "mpd_split_composite_populate new1 new2 p cspd s = do {
     c_assert (spd_is_composite s (PCspd cspd));
     c_assert (spd_is_composite s (PCspd new1));
     c_assert (spd_is_member s p cspd);
     c_assert (new1 \<noteq> cspd);
     (_, s) \<leftarrow> spd_composite_remove_member p (new2 = None) s;
     (r, s) \<leftarrow> spd_composite_add_member new1 p s;
     if r \<noteq> 0 then Some (-1, s)
     else case new2 of
       None \<Rightarrow> do { c_assert (c_ref_cnt (mpd_descriptors s cspd) = 1); Some (1, s) }
     | Some n2 \<Rightarrow> do { c_assert (new1 \<noteq> n2); move_members cspd n2 False s } }"

text \<open>The result is the return value and, on success, the two indices \<^verbatim>\<open>*new\<close> and \<^verbatim>\<open>*old\<close>.\<close>

definition mpd_split :: "cspdp \<Rightarrow> spdp \<Rightarrow> kstate \<Rightarrow> (int \<times> (int \<times> int) option \<times> kstate) option" where
  "mpd_split cspd p s = do {
     c_assert (\<not> spd_mpd_is_depricated s cspd);
     c_assert (spd_is_composite s (PCspd cspd));
     c_assert (spd_is_member s p cspd);
     n \<leftarrow> spd_composite_num_members s cspd;
     c_assert (n > 1);
     (d1, s) \<leftarrow> spd_alloc_mpd_desc s;
     if d1 < 0 then Some (-1, None, s)
     else do {
       q \<leftarrow> spd_mpd_by_idx d1;
       new1 \<leftarrow> q;
       if c_ref_cnt (mpd_descriptors s cspd) = 1
       then do {
         (r, s) \<leftarrow> mpd_split_composite_populate new1 None p cspd s;
         if r \<noteq> 1 then do { s \<leftarrow> spd_mpd_depricate new1 s; Some (-1, None, s) }
         else Some (0, Some (d1, spd_mpd_index cspd), s) }
       else do {
         (d2, s) \<leftarrow> spd_alloc_mpd_desc s;
         if d2 < 0 then do { s \<leftarrow> spd_mpd_depricate new1 s; Some (-1, None, s) }
         else do {
           q \<leftarrow> spd_mpd_by_idx d2;
           new2 \<leftarrow> q;
           (r, s) \<leftarrow> mpd_split_composite_populate new1 (Some new2) p cspd s;
           if r \<noteq> 0
           then do { s \<leftarrow> spd_mpd_depricate new2 s; s \<leftarrow> spd_mpd_depricate new1 s; Some (-1, None, s) }
           else do {
             s \<leftarrow> spd_mpd_depricate cspd s;
             c_assert (\<not> spd_mpd_is_depricated s new1 \<and> \<not> spd_mpd_is_depricated s new2);
             Some (0, Some (d1, d2), s) } } } } }"

subsection \<open>Merging protection domains\<close>

definition get_spd_to_subordinate :: "kstate \<Rightarrow> cspdp \<Rightarrow> cspdp \<Rightarrow> cspdp option" where
  "get_spd_to_subordinate s c1 c2 =
     (if c_ref_cnt (mpd_descriptors s c1) = 1 \<and> c_ref_cnt (mpd_descriptors s c2) \<noteq> 1 then Some c1
      else do {
        members1 \<leftarrow> spd_composite_num_members s c1;
        members2 \<leftarrow> spd_composite_num_members s c2;
        c_assert (members1 > 0 \<and> members2 > 0);
        Some (if members1 < members2 then c1 else c2) })"

text \<open>A failed move ends in \<^verbatim>\<open>assert(0)\<close>.\<close>

definition mpd_merge :: "cspdp \<Rightarrow> cspdp \<Rightarrow> kstate \<Rightarrow> (cspdp \<times> kstate) option" where
  "mpd_merge c1 c2 s = do {
     c_assert (spd_is_composite s (PCspd c1) \<and> spd_is_composite s (PCspd c2));
     c_assert (\<not> spd_mpd_is_depricated s c1 \<and> \<not> spd_mpd_is_depricated s c2);
     c_assert (\<not> spd_mpd_is_subordinate s c1 \<and> \<not> spd_mpd_is_subordinate s c2);
     c_assert (c1 \<noteq> c2);
     other \<leftarrow> get_spd_to_subordinate s c1 c2;
     let dest = (if other = c1 then c2 else c1);
     (r, s) \<leftarrow> move_members other dest True s;
     c_assert (r = 0);
     s \<leftarrow> spd_mpd_make_subordinate dest other s;
     c_assert (\<not> spd_mpd_is_depricated s dest \<and> \<not> spd_mpd_is_subordinate s dest);
     Some (dest, s) }"

subsection \<open>Protection-domain control\<close>

datatype mpd_op = COS_MPD_SPLIT | COS_MPD_MERGE | COS_MPD_DEACTIVATE | COS_MPD_REAP | COS_MPD_UPDATE

definition mpd_ops :: "mpd_op list" where
  "mpd_ops = [COS_MPD_SPLIT, COS_MPD_MERGE, COS_MPD_DEACTIVATE, COS_MPD_REAP, COS_MPD_UPDATE]"

text \<open>
  One case of the switch: whether the call returns at once, and the return value.  Only the
  mismatched split skips the page-table switch at the end.
\<close>

definition mpd_do_split :: "cspdp option \<Rightarrow> int \<Rightarrow> kstate \<Rightarrow> (bool \<times> int \<times> kstate) option" where
  "mpd_do_split prev spd2 s =
     (case prev of None \<Rightarrow> Some (False, -1, s)
      | Some prev \<Rightarrow> do {
          q \<leftarrow> spd_get_by_index s spd2;
          case q of None \<Rightarrow> Some (False, -1, s)
          | Some transitory \<Rightarrow> do {
              c_assert (spd_is_composite s (s_composite_spd (spds s transitory)));
              trans_cspd \<leftarrow> as_cspd (s_composite_spd (spds s transitory));
              c_assert (\<not> spd_mpd_is_depricated s trans_cspd \<and> \<not> spd_mpd_is_subordinate s trans_cspd);
              n \<leftarrow> spd_composite_num_members s prev;
              c_assert (n > 0);
              if trans_cspd \<noteq> prev then Some (True, -1, s)
              else if n = 1 then Some (False, -1, s)
              else do { (r, _, s) \<leftarrow> mpd_split prev transitory s; Some (False, r, s) } } })"

definition mpd_do_merge :: "cspdp option \<Rightarrow> int \<Rightarrow> kstate \<Rightarrow> (bool \<times> int \<times> kstate) option" where
  "mpd_do_merge prev spd2 s =
     (case prev of None \<Rightarrow> Some (False, -1, s)
      | Some prev \<Rightarrow> do {
          q \<leftarrow> spd_get_by_index s spd2;
          case q of None \<Rightarrow> Some (False, -1, s)
          | Some second \<Rightarrow> do {
              c_assert (spd_is_composite s (s_composite_spd (spds s second)));
              other \<leftarrow> as_cspd (s_composite_spd (spds s second));
              c_assert (\<not> spd_mpd_is_depricated s other \<and> \<not> spd_mpd_is_subordinate s other);
              if prev = other then Some (False, 0, s)
              else do { (_, s) \<leftarrow> mpd_merge prev other s; Some (False, 0, s) } } })"

definition mpd_do_update :: "thdp \<Rightarrow> int \<Rightarrow> kstate \<Rightarrow> (bool \<times> int \<times> kstate) option" where
  "mpd_do_update t spd_id s = do {
     q \<leftarrow> thd_validate_get_current_spd s t spd_id;
     case q of None \<Rightarrow> Some (False, -1, s)
     | Some p \<Rightarrow> do {
         i \<leftarrow> thd_invstk_top s t;
         tif \<leftarrow> frame_at s t i;
         if f_spd tif \<noteq> Some p then Some (False, 0, s)
         else do {
           poly \<leftarrow> current_composite_spd tif;
           if \<not> has (poly_flags s poly) (SPD_DEPRICATED OR SPD_SUBORDINATE) then Some (False, 0, s)
           else do {
             active_cspd \<leftarrow> as_cspd poly;
             stale \<leftarrow> (if spd_mpd_is_depricated s active_cspd then Some True
               else do { m \<leftarrow> master_spd (mpd_descriptors s active_cspd); Some (spd_mpd_is_depricated s m) });
             if \<not> stale then Some (False, 0, s)
             else do {
               c_assert (spd_is_composite s poly);
               let curr_cspd = s_composite_spd (spds s p);
               let s = poly_ipc_take curr_cspd s;
               s \<leftarrow> set_frame t i (\<lambda>f. f\<lparr>current_composite_spd := Some curr_cspd\<rparr>) s;
               s \<leftarrow> poly_ipc_release poly s;
               Some (False, 0, s) } } } } }"

definition cos_syscall_mpd_cntl :: "int \<Rightarrow> int \<Rightarrow> u16 \<Rightarrow> u16 \<Rightarrow> kstate \<Rightarrow> (int \<times> kstate) option" where
  "cos_syscall_mpd_cntl spd_id operation spd1 spd2 s = do {
     from \<leftarrow> (if spd1 = 0 then Some None else spd_get_by_index s (int (unat spd1)));
     if spd1 \<noteq> 0 \<and> from = None then Some (-1, s)
     else do {
       prev \<leftarrow> (case from of None \<Rightarrow> Some None
         | Some p \<Rightarrow> do {
             c_assert (spd_is_composite s (s_composite_spd (spds s p)));
             c \<leftarrow> as_cspd (s_composite_spd (spds s p));
             c_assert (\<not> spd_mpd_is_subordinate s c \<and> \<not> spd_mpd_is_depricated s c);
             Some (Some c) });
       t \<leftarrow> thd_get_current s;
       q \<leftarrow> thd_get_thd_spdpoly s t;
       cur \<leftarrow> q;
       let curr_pg_tbl = poly_pg_tbl s cur;
       (done, ret, s) \<leftarrow>
         (case enum_op mpd_ops operation of
            Some COS_MPD_SPLIT \<Rightarrow> mpd_do_split prev (int (unat spd2)) s
          | Some COS_MPD_MERGE \<Rightarrow> mpd_do_merge prev (int (unat spd2)) s
          | Some COS_MPD_UPDATE \<Rightarrow> mpd_do_update t spd_id s
          | _ \<Rightarrow> Some (False, -1, s));
       if done then Some (ret, s)
       else do {
         q \<leftarrow> thd_get_thd_spdpoly s t;
         cur \<leftarrow> q;
         s \<leftarrow> switch_pg_tbls (poly_pg_tbl s cur) curr_pg_tbl s;
         Some (ret, s) } } }"

subsection \<open>Memory\<close>

definition cos_syscall_mmap_cntl :: "int \<Rightarrow> int \<Rightarrow> vaddr \<Rightarrow> u32 \<Rightarrow> kstate \<Rightarrow> (int \<times> kstate) option" where
  "cos_syscall_mmap_cntl spdid op_flags_dspd daddr mem_id s = do {
     let opn = s16_of (op_flags_dspd div 2 ^ 24);
     let dspd_id = s16_of (op_flags_dspd mod 65536);
     q \<leftarrow> spd_get_by_index s dspd_id;
     case q of None \<Rightarrow> Some (-1, s)
     | Some p \<Rightarrow> do {
         v \<leftarrow> composite_vas (spds s p);
         if virtual_namespace_query s daddr v \<noteq> Some p then Some (-1, s)
         else if opn = 0
         then do {
           (page, s) \<leftarrow> cos_access_page (unat mem_id) s;
           if page = 0 then Some (-1, s)
           else let (r, s) = pgtbl_add_entry (s_pg_tbl (spds s p)) daddr page s
                in Some (if r \<noteq> 0 then -1 else 0, s) }
         else if opn = 1
         then let (pa, s) = pgtbl_rem_ret (s_pg_tbl (spds s p)) daddr s
              in Some (if pa = 0 then 0 else int (cos_paddr_to_cap pa s), s)
         else Some (-1, s) } }"

subsection \<open>Capabilities\<close>

datatype cap_op = COS_CAP_SET_CSTUB | COS_CAP_SET_SSTUB | COS_CAP_SET_SERV_FN | COS_CAP_ACTIVATE
  | COS_CAP_GET_INVCNT | COS_CAP_SET_FAULT

definition cap_ops :: "cap_op list" where
  "cap_ops = [COS_CAP_SET_CSTUB, COS_CAP_SET_SSTUB, COS_CAP_SET_SERV_FN, COS_CAP_ACTIVATE,
     COS_CAP_GET_INVCNT, COS_CAP_SET_FAULT]"

definition as_ret :: "(int \<times> kstate) option \<Rightarrow> (int \<times> kstate) option" where
  "as_ret m = do { (r, s) \<leftarrow> m; Some (if r \<noteq> 0 then -1 else 0, s) }"

definition cap_do_invcnt :: "spdp \<Rightarrow> int \<Rightarrow> kstate \<Rightarrow> (int \<times> kstate) option" where
  "cap_do_invcnt cspd sspdid s = do {
     q \<leftarrow> spd_get_by_index s sspdid;
     case q of None \<Rightarrow> Some (-1, s)
     | Some sspd \<Rightarrow> do {
         let va = pgtbl_vaddr_to_kaddr s (s_pg_tbl (spds s cspd)) (user_vaddr_cap_tbl (spds s cspd));
         c_assert (user_cap_tbl (spds s cspd) = va);
         (n, s) \<leftarrow> spd_read_reset_invocation_cnt cspd sspd s;
         Some (sint n, s) } }"

definition cap_do_activate :: "spdp \<Rightarrow> int \<Rightarrow> u32 \<Rightarrow> kstate \<Rightarrow> (int \<times> kstate) option" where
  "cap_do_activate cspd capid arg2 s =
     (if \<not> spd_is_active s cspd \<or> arg2 = 0 then Some (-1, s)
      else do {
        q \<leftarrow> spd_get_by_index s (int (unat (ucast arg2 :: u16)));
        case q of None \<Rightarrow> Some (-1, s)
        | Some sspd \<Rightarrow> do {
            (r, s) \<leftarrow> spd_cap_set_dest cspd capid (Some sspd) s;
            if r \<noteq> 0 then Some (-1, s) else as_ret (spd_cap_activate cspd capid s) } })"

definition cos_syscall_cap_cntl :: "int \<Rightarrow> int \<Rightarrow> u32 \<Rightarrow> u32 \<Rightarrow> kstate \<Rightarrow> (int \<times> kstate) option" where
  "cos_syscall_cap_cntl spdid option arg1 arg2 s = do {
     q \<leftarrow> spd_get_by_index s (int (unat (drop_bit 16 arg1)));
     let lo = int (unat (arg1 AND 0xFFFF));
     case q of None \<Rightarrow> Some (-1, s)
     | Some cspd \<Rightarrow>
         (case enum_op cap_ops option of
            Some COS_CAP_GET_INVCNT \<Rightarrow> cap_do_invcnt cspd lo s
          | Some COS_CAP_SET_FAULT \<Rightarrow> as_ret (spd_cap_set_fault_handler cspd lo (sint arg2) s)
          | Some COS_CAP_SET_CSTUB \<Rightarrow> as_ret (spd_cap_set_cstub cspd lo arg2 s)
          | Some COS_CAP_SET_SSTUB \<Rightarrow> as_ret (spd_cap_set_sstub cspd lo arg2 s)
          | Some COS_CAP_SET_SERV_FN \<Rightarrow> as_ret (spd_cap_set_sfn cspd lo arg2 s)
          | Some COS_CAP_ACTIVATE \<Rightarrow> cap_do_activate cspd lo arg2 s
          | None \<Rightarrow> Some (-1, s)) }"

subsection \<open>Components\<close>

datatype spd_op = COS_SPD_CREATE | COS_SPD_DELETE | COS_SPD_RESERVE_CAPS | COS_SPD_RELEASE_CAPS | COS_SPD_LOCATION
  | COS_SPD_ATOMIC_SECT | COS_SPD_UCAP_TBL | COS_SPD_UPCALL_ADDR | COS_SPD_ACTIVATE

definition spd_ops :: "spd_op list" where
  "spd_ops = [COS_SPD_CREATE, COS_SPD_DELETE, COS_SPD_RESERVE_CAPS, COS_SPD_RELEASE_CAPS, COS_SPD_LOCATION,
     COS_SPD_ATOMIC_SECT, COS_SPD_UCAP_TBL, COS_SPD_UPCALL_ADDR, COS_SPD_ACTIVATE]"

definition spd_do_create :: "int \<Rightarrow> kstate \<Rightarrow> (int \<times> kstate) option" where
  "spd_do_create arg1 s = do {
     (pa, s) \<leftarrow> spd_alloc_pgtbl s;
     if pa = 0 then Some (-1, s)
     else do {
       (r, s) \<leftarrow> spd_alloc 0 0 0 arg1 s;
       case r of None \<Rightarrow> do { s \<leftarrow> spd_free_pgtbl pa s; Some (-1, s) }
       | Some p \<Rightarrow> Some (int p, upd_spd p (\<lambda>x. x\<lparr>s_pg_tbl := pa\<rparr>) s) } }"

definition spd_do_activate :: "spdp \<Rightarrow> kstate \<Rightarrow> (int \<times> kstate) option" where
  "spd_do_activate p s = do {
     let x = spds s p;
     let uaddr = user_vaddr_cap_tbl x;
     let tblsz = (16 * ucast (cap_range x) :: u32);
     let loc = location x 0;
     if uaddr = 0 \<or> s_pg_tbl x = 0 \<or> lowest_addr loc = 0 \<or> cap_base x = 0 \<or> cap_range x = 0 then Some (-1, s)
     else if uaddr < lowest_addr loc \<or> uaddr + tblsz > lowest_addr loc + loc_size loc
       \<or> \<not> user_struct_fits_on_page uaddr tblsz then Some (-1, s)
     else do {
       let kaddr = pgtbl_vaddr_to_kaddr s (s_pg_tbl x) uaddr;
       if kaddr = 0 then Some (-1, s)
       else do {
         let s = upd_spd p (\<lambda>x. x\<lparr>user_cap_tbl := kaddr\<rparr>) s;
         (_, s) \<leftarrow> spd_add_static_cap (Some p) 0 (Some p) 0 s;
         (c, s) \<leftarrow> spd_alloc_mpd s;
         case c of None \<Rightarrow> Some (-1, upd_spd p (\<lambda>x. x\<lparr>user_cap_tbl := 0\<rparr>) s)
         | Some cspd \<Rightarrow> do {
             (r, s) \<leftarrow> spd_composite_add_member cspd p s;
             if r \<noteq> 0
             then do { s \<leftarrow> spd_mpd_release cspd s; Some (-1, upd_spd p (\<lambda>x. x\<lparr>user_cap_tbl := 0\<rparr>) s) }
             else Some (0, spd_make_active p s) } } } }"

fun spd_cntl_op :: "spd_op \<Rightarrow> spdp \<Rightarrow> u32 \<Rightarrow> u32 \<Rightarrow> kstate \<Rightarrow> (int \<times> kstate) option" where
  "spd_cntl_op COS_SPD_CREATE p arg1 arg2 s = spd_do_create (sint arg1) s"
| "spd_cntl_op COS_SPD_DELETE p arg1 arg2 s = do {
     s \<leftarrow> spd_free_pgtbl (s_pg_tbl (spds s p)) s;
     s \<leftarrow> spd_free p (upd_spd p (\<lambda>x. x\<lparr>s_pg_tbl := 0\<rparr>) s);
     Some (0, s) }"
| "spd_cntl_op COS_SPD_RESERVE_CAPS p arg1 arg2 s = do {
     (r, s) \<leftarrow> spd_reserve_cap_range p (sint arg1) s;
     Some (if r = -1 then -1 else 0, s) }"
| "spd_cntl_op COS_SPD_RELEASE_CAPS p arg1 arg2 s = do {
     (r, s) \<leftarrow> spd_release_cap_range p s;
     Some (if r = -1 then -1 else 0, s) }"
| "spd_cntl_op COS_SPD_LOCATION p arg1 arg2 s =
     (if loc_size (location (spds s p) 0) \<noteq> 0 then Some (-1, s) else as_ret (spd_add_location p arg1 arg2 s))"
| "spd_cntl_op COS_SPD_UCAP_TBL p arg1 arg2 s =
     (if user_vaddr_cap_tbl (spds s p) \<noteq> 0 then Some (-1, s)
      else Some (0, upd_spd p (\<lambda>x. x\<lparr>user_vaddr_cap_tbl := arg1\<rparr>) s))"
| "spd_cntl_op COS_SPD_ATOMIC_SECT p arg1 arg2 s =
     (if sint arg2 \<ge> int COS_NUM_ATOMIC_SECTIONS \<or> sint arg2 < 0 then Some (-1, s)
      else Some (0, upd_spd p (\<lambda>x. x\<lparr>atomic_sections := (atomic_sections x)(nat (sint arg2) := arg1)\<rparr>) s))"
| "spd_cntl_op COS_SPD_UPCALL_ADDR p arg1 arg2 s = Some (0, upd_spd p (\<lambda>x. x\<lparr>upcall_entry := arg1\<rparr>) s)"
| "spd_cntl_op COS_SPD_ACTIVATE p arg1 arg2 s = spd_do_activate p s"

definition cos_syscall_spd_cntl :: "int \<Rightarrow> int \<Rightarrow> u32 \<Rightarrow> u32 \<Rightarrow> kstate \<Rightarrow> (int \<times> kstate) option" where
  "cos_syscall_spd_cntl i op_spdid arg1 arg2 s = do {
     let opn = s16_of (op_spdid div 65536);
     let spd_id = op_spdid mod 65536;
     q \<leftarrow> (if opn \<noteq> 0 then spd_get_by_index s spd_id else Some None);
     if opn \<noteq> 0 \<and> q = None then Some (-1, s)
     else (case enum_op spd_ops opn of None \<Rightarrow> Some (-1, s)
           | Some opr \<Rightarrow> spd_cntl_op opr (case q of Some p \<Rightarrow> p | None \<Rightarrow> 0) arg1 arg2 s) }"

subsection \<open>Address spaces\<close>

datatype vas_op = COS_VAS_CREATE | COS_VAS_DELETE | COS_VAS_SPD_ADD | COS_VAS_SPD_REM | COS_VAS_SPD_EXPAND
  | COS_VAS_SPD_RETRACT

definition vas_ops :: "vas_op list" where
  "vas_ops = [COS_VAS_CREATE, COS_VAS_DELETE, COS_VAS_SPD_ADD, COS_VAS_SPD_REM, COS_VAS_SPD_EXPAND, COS_VAS_SPD_RETRACT]"

definition spd_vas_id :: "kstate \<Rightarrow> spdp \<Rightarrow> int option" where
  "spd_vas_id s p = do { v \<leftarrow> composite_vas (spds s p); Some (vas_id (vas_list s v)) }"

definition cos_syscall_vas_cntl :: "int \<Rightarrow> int \<Rightarrow> u32 \<Rightarrow> u32 \<Rightarrow> kstate \<Rightarrow> (int \<times> kstate) option" where
  "cos_syscall_vas_cntl i op_spdid addr sz s = do {
     let opn = s16_of (op_spdid div 65536);
     q \<leftarrow> spd_get_by_index s (op_spdid mod 65536);
     case q of None \<Rightarrow> Some (-1, s)
     | Some p \<Rightarrow>
         (case enum_op vas_ops opn of
            Some COS_VAS_CREATE \<Rightarrow> vas_new s
          | Some COS_VAS_DELETE \<Rightarrow> vas_delete (sint addr) s
          | Some COS_VAS_SPD_ADD \<Rightarrow> vas_spd_add (sint addr) p s
          | Some COS_VAS_SPD_REM \<Rightarrow> do { v \<leftarrow> spd_vas_id s p; vas_spd_remove v p s }
          | Some COS_VAS_SPD_EXPAND \<Rightarrow> do {
              (r, s) \<leftarrow> spd_add_location p addr sz s;
              if r \<noteq> 0 then Some (-1, s) else do { v \<leftarrow> spd_vas_id s p; vas_expand v p s } }
          | Some COS_VAS_SPD_RETRACT \<Rightarrow> do {
              (r, s) \<leftarrow> spd_rem_location p addr sz s;
              if r \<noteq> 0 then Some (-1, s) else do { v \<leftarrow> spd_vas_id s p; vas_retract v p s } }
          | None \<Rightarrow> Some (-1, s)) }"

subsection \<open>Mapping and unmapping through the system call\<close>

text \<open>The operation is in the upper eight bits, the component in the lower sixteen.\<close>

definition mmap_word :: "nat \<Rightarrow> spdp \<Rightarrow> int" where
  "mmap_word opn p = int opn * 16777216 + int p"

lemma mmap_word_decode:
  assumes "opn < 2" "p < MAX_NUM_SPDS"
  shows "s16_of (mmap_word opn p div 16777216) = int opn" "s16_of (mmap_word opn p mod 65536) = int p"
proof -
  have p: "0 \<le> int p" "int p < 32768" using assms(2) by (simp_all add: MAX_NUM_SPDS_def)
  have o: "opn = 0 \<or> opn = 1" using assms(1) by auto
  have w: "mmap_word opn p = int p + int opn * 16777216" "mmap_word opn p = int p + (int opn * 256) * 65536"
    by (simp_all add: mmap_word_def)
  have "mmap_word opn p div 16777216 = int opn" unfolding w(1) using p by (subst div_mult_self1) simp_all
  moreover have "mmap_word opn p mod 65536 = int p" unfolding w(2) using p by (subst mod_mult_self1) simp_all
  ultimately show "s16_of (mmap_word opn p div 16777216) = int opn" "s16_of (mmap_word opn p mod 65536) = int p"
    using o p by (auto simp: s16_of_def)
qed

lemma spd_get_by_index_used:
  "p < MAX_NUM_SPDS \<Longrightarrow> \<not> spd_is_free s p \<Longrightarrow> spd_get_by_index s (int p) = Some (Some p)"
  by (simp add: spd_get_by_index_def)

lemma mmap_refused:
  assumes "p < MAX_NUM_SPDS" "\<not> spd_is_free s p" "composite_vas (spds s p) = Some v" "virtual_namespace_query s daddr v \<noteq> Some p" "opn < 2"
  shows "cos_syscall_mmap_cntl spdid (mmap_word opn p) daddr m s = Some (-1, s)"
  using assms by (simp add: cos_syscall_mmap_cntl_def mmap_word_decode spd_get_by_index_used)

lemma mmap_grant:
  assumes "p < MAX_NUM_SPDS" "\<not> spd_is_free s p" "composite_vas (spds s p) = Some v" "virtual_namespace_query s daddr v = Some p"
    and "unat m < COS_MAX_MEMORY" "cos_pages s (unat m) \<noteq> 0"
  shows "cos_syscall_mmap_cntl spdid (mmap_word 0 p) daddr m s =
    (let (r, s) = pgtbl_add_entry (s_pg_tbl (spds s p)) daddr (cos_pages s (unat m)) s in Some (if r \<noteq> 0 then -1 else 0, s))"
  using assms by (simp add: cos_syscall_mmap_cntl_def mmap_word_decode spd_get_by_index_used cos_access_page_def Let_def)

lemma mmap_revoke:
  assumes "p < MAX_NUM_SPDS" "\<not> spd_is_free s p" "composite_vas (spds s p) = Some v" "virtual_namespace_query s daddr v = Some p"
  shows "cos_syscall_mmap_cntl spdid (mmap_word 1 p) daddr m s =
    (let (pa, s) = pgtbl_rem_ret (s_pg_tbl (spds s p)) daddr s in Some (if pa = 0 then 0 else int (cos_paddr_to_cap pa s), s))"
  using assms by (simp add: cos_syscall_mmap_cntl_def mmap_word_decode spd_get_by_index_used Let_def)

lemma set_pmem_same [simp]:
  "spd_is_free (set_pmem f i w s) p = spd_is_free s p" "spds (set_pmem f i w s) = spds s" "cos_pages (set_pmem f i w s) = cos_pages s"
  "virtual_namespace_query (set_pmem f i w s) a v = virtual_namespace_query s a v" "set_pmem f i z (set_pmem f i w s) = set_pmem f i z s"
  by (simp_all add: set_pmem_def spd_is_free_def virtual_namespace_query_def fun_eq_iff)

subsection \<open>Properties\<close>

text \<open>
  C33.  Granting and revoking memory through \<^verbatim>\<open>cos_syscall_mmap_cntl\<close>.  Outside the address range of a
  component both are refused.  Inside it, granting a frame that is in use maps exactly that frame at exactly
  that address, a second grant at the same address is refused, and revoking returns the index of the
  frame that was granted and leaves the entry clear and everything else as it was before.
\<close>

theorem mmap_grant_revoke:
  assumes "p < MAX_NUM_SPDS" "\<not> spd_is_free s p" "composite_vas (spds s p) = Some v"
    and "pgtbl_lookup_address s (s_pg_tbl (spds s p)) daddr = Some (f, i)" "f \<noteq> s_pg_tbl (spds s p)" "\<not> has (pmem s f i) PG_PRESENT"
    and "unat m < COS_MAX_MEMORY" "cos_pages s (unat m) = pa" "pa \<noteq> 0" "pa AND PTE_MASK = pa"
    and "pages_inv s"
  shows "(virtual_namespace_query s daddr v \<noteq> Some p \<longrightarrow>
      cos_syscall_mmap_cntl spdid (mmap_word 0 p) daddr m s = Some (-1, s) \<and> cos_syscall_mmap_cntl spdid (mmap_word 1 p) daddr m s = Some (-1, s))
    \<and> (virtual_namespace_query s daddr v = Some p \<longrightarrow>
      (\<exists>s1. cos_syscall_mmap_cntl spdid (mmap_word 0 p) daddr m s = Some (0, s1)
        \<and> pgtbl_vaddr_to_kaddr s1 (s_pg_tbl (spds s p)) daddr = pa_to_va pa + (NOT PAGE_MASK AND daddr)
        \<and> cos_syscall_mmap_cntl spdid (mmap_word 0 p) daddr m s1 = Some (-1, s1)
        \<and> cos_syscall_mmap_cntl spdid (mmap_word 1 p) daddr 0 s1 = Some (int (unat m), set_pmem f i 0 s)))"
proof (intro conjI impI)
  assume "virtual_namespace_query s daddr v \<noteq> Some p"
  then show "cos_syscall_mmap_cntl spdid (mmap_word 0 p) daddr m s = Some (-1, s)"
    "cos_syscall_mmap_cntl spdid (mmap_word 1 p) daddr m s = Some (-1, s)"
    using mmap_refused [OF assms(1-3)] by simp_all
next
  assume q: "virtual_namespace_query s daddr v = Some p"
  let ?s1 = "set_pmem f i (pa OR PG_USER_FLAGS) s" and ?tbl = "s_pg_tbl (spds s p)"
  have l: "pgtbl_lookup_address ?s1 ?tbl daddr = Some (f, i)" using pgtbl_lookup_set_pmem [OF assms(4,5)] assms(4) by simp
  have cap: "cos_paddr_to_cap pa (set_pmem f i 0 s) = unat m"
    by (rule cos_paddr_to_cap_unique) (use assms in \<open>auto simp: pages_inv_def\<close>)
  have "cos_syscall_mmap_cntl spdid (mmap_word 0 p) daddr m s = Some (0, ?s1)"
    using mmap_grant [OF assms(1-3) q assms(7)] assms by (simp add: pgtbl_add_entry_def)
  moreover have "cos_syscall_mmap_cntl spdid (mmap_word 0 p) daddr m ?s1 = Some (-1, ?s1)"
    using mmap_grant [of p ?s1 v daddr m spdid] assms q l by (simp add: pgtbl_add_entry_def PG_bits)
  moreover have "cos_syscall_mmap_cntl spdid (mmap_word 1 p) daddr 0 ?s1 = Some (int (unat m), set_pmem f i 0 s)"
    using mmap_revoke [of p ?s1 v daddr spdid 0] assms q l cap by (simp add: pgtbl_rem_ret_def PG_bits PG_addr)
  moreover have "pgtbl_vaddr_to_kaddr ?s1 ?tbl daddr = pa_to_va pa + (NOT PAGE_MASK AND daddr)"
    using l assms(10) by (simp add: pgtbl_vaddr_to_kaddr_def PG_bits PG_addr)
  ultimately show "\<exists>s1. cos_syscall_mmap_cntl spdid (mmap_word 0 p) daddr m s = Some (0, s1)
        \<and> pgtbl_vaddr_to_kaddr s1 ?tbl daddr = pa_to_va pa + (NOT PAGE_MASK AND daddr)
        \<and> cos_syscall_mmap_cntl spdid (mmap_word 0 p) daddr m s1 = Some (-1, s1)
        \<and> cos_syscall_mmap_cntl spdid (mmap_word 1 p) daddr 0 s1 = Some (int (unat m), set_pmem f i 0 s)" by blast
qed

definition mmap_example :: kstate where
  "mmap_example = set_pmem 0x5000 0x100 0x9003 (upd_spd 2 (\<lambda>x. x\<lparr>s_flags := 0, composite_vas := Some 0, s_pg_tbl := 0x5000\<rparr>)
     (zero_kstate\<lparr>cos_pages := (\<lambda>_. 0)(3 := 0xA000),
        vas_list := (vas_list zero_kstate)(0 := (vas_list zero_kstate 0)\<lparr>virtual_spd_layout := (\<lambda>_. None)(0x100 := Some 2)\<rparr>)\<rparr>))"

theorem mmap_grant_revoke_witness:
  "virtual_namespace_query mmap_example 0x40001000 0 = Some 2
   \<and> (\<exists>s1. cos_syscall_mmap_cntl 0 (mmap_word 0 2) 0x40001000 3 mmap_example = Some (0, s1)
     \<and> cos_syscall_mmap_cntl 0 (mmap_word 1 2) 0x40001000 0 s1 = Some (3, set_pmem 0x9000 1 0 mmap_example))"
proof -
  have l: "pgtbl_lookup_address mmap_example 0x5000 0x40001000 = Some (0x9000, 1)"
    by (simp add: mmap_example_def pgtbl_lookup_address_def pgd_index_def pte_index_def HPAGE_SHIFT_def PAGE_SHIFT_def PG_LARGE_def
        PTE_MASK_def Let_def)
  have f: "\<not> spd_is_free mmap_example 2" "composite_vas (spds mmap_example 2) = Some 0" "s_pg_tbl (spds mmap_example 2) = 0x5000"
      "\<not> has (pmem mmap_example 0x9000 1) PG_PRESENT" "cos_pages mmap_example 3 = 0xA000" "pages_inv mmap_example"
      "virtual_namespace_query mmap_example 0x40001000 0 = Some 2"
    by (auto simp: mmap_example_def set_pmem_def spd_is_free_def has_def zero_kstate_def pages_inv_def virtual_namespace_query_def pgd_index_def
        HPAGE_SHIFT_def split: if_splits)
  show ?thesis
    using mmap_grant_revoke [of 2 mmap_example 0 "0x40001000" "0x9000" 1 3 "0xA000" 0] l f
    by (auto simp: MAX_NUM_SPDS_def COS_MAX_MEMORY_def PTE_MASK_def)
qed

text \<open>
  A component built through \<^verbatim>\<open>cos_syscall_spd_cntl\<close> whose capabilities start at entry 0 can never be
  activated.  When the first entries of the table are free, reserving capabilities for a component that has
  none succeeds with the range that starts at 0; but activation takes a range that starts at 0 for a range
  that was not reserved, so in every state in which the component still has this range activation fails.
\<close>

theorem spd_activate_refuses_first_range:
  assumes "p < MAX_NUM_SPDS" "\<not> spd_is_free s p" "cap_range (spds s p) = 0" "fits s (n + 1) 0" "sint m = int n"
  shows "\<exists>s1. cos_syscall_spd_cntl i (2 * 65536 + int p) m a s = Some (0, s1)
    \<and> cap_base (spds s1 p) = 0 \<and> unat (cap_range (spds s1 p)) = n + 1
    \<and> (\<forall>s2 b c. cap_base (spds s2 p) = 0 \<longrightarrow> \<not> spd_is_free s2 p \<longrightarrow> cos_syscall_spd_cntl i (8 * 65536 + int p) b c s2 = Some (-1, s2))"
proof -
  have p: "0 \<le> int p" "int p < 65536" using assms(1) by (simp_all add: MAX_NUM_SPDS_def)
  have d: "(k * 65536 + int p) div 65536 = k" "(k * 65536 + int p) mod 65536 = int p" for k
    using p by (simp_all add: add.commute)
  note d = d [of 2, simplified] d [of 8, simplified]
  have n: "n + 1 \<le> MAX_STATIC_CAP" using assms(4) by (simp add: fits_def)
  then have ff: "first_fit s (n + 1) = Some 0" using assms(4) by (simp add: first_fit_Some)
  have "unat (word_of_int (int n + 1) :: u16) = n + 1" using n unat_u16_small [of "int n + 1"] by simp
  moreover have "spd_alloc_capability_range (int n + 1) s = Some (0, mark_caps [0..<n + 1] s)"
    using ff spd_alloc_capability_range_eq [of "n + 1" s] by (simp add: alloc_spec_def add.commute)
  ultimately have "\<exists>s1. cos_syscall_spd_cntl i (2 * 65536 + int p) m a s = Some (0, s1) \<and> cap_base (spds s1 p) = 0 \<and> unat (cap_range (spds s1 p)) = n + 1"
    using assms
    by (simp add: cos_syscall_spd_cntl_def d s16_of_def spd_get_by_index_used enum_op_def spd_ops_def spd_reserve_cap_range_def)
  moreover have "cos_syscall_spd_cntl i (8 * 65536 + int p) b c s2 = Some (-1, s2)" if "cap_base (spds s2 p) = 0" "\<not> spd_is_free s2 p" for s2 b c
    using that assms(1) by (simp add: cos_syscall_spd_cntl_def d s16_of_def spd_get_by_index_used enum_op_def spd_ops_def spd_do_activate_def Let_def)
  ultimately show ?thesis by blast
qed

theorem spd_activate_refuses_first_range_witness:
  "\<exists>s1. cos_syscall_spd_cntl 0 (2 * 65536 + 2) 4 0 mmap_example = Some (0, s1) \<and> cap_base (spds s1 2) = 0
     \<and> unat (cap_range (spds s1 2)) = 5"
proof -
  have "\<not> spd_is_free mmap_example 2" "cap_range (spds mmap_example 2) = 0" "fits mmap_example (4 + 1) 0"
    by (simp_all add: mmap_example_def set_pmem_def spd_is_free_def has_def fits_def kconsts list_all_iff cap_free_def zero_kstate_def zero_defs)
  with spd_activate_refuses_first_range [of 2 mmap_example 4 4 0 0] show ?thesis by (auto simp: MAX_NUM_SPDS_def)
qed

end
