(* ===== verification/Host.thy ===== *)
theory Host
  imports Protection
begin

text \<open>
  Where the kernel meets Linux: receive rings (\<^verbatim>\<open>kernel/ring_buff.c\<close>), network brands and buffer
  management (\<^verbatim>\<open>kernel/inv.c\<close>), and the interrupt, idle and page-fault paths of
  \<^verbatim>\<open>platform/linux/module/hijack.c\<close>.

  The state adds the variables of these files to the kernel's.  Packet payloads go into memory that
  the kernel never reads back; they are kept as a list of writes.  The callbacks of the network
  driver are values of the state: functions whose answers the model does not restrict.
\<close>

record cos_brand_info =
  brand_port :: u16
  bi_brand :: "thdp option"

record gather_item =
  gi_data :: vaddr
  gi_len :: int

record cos_net_xmit_headers_t =
  xh_len :: int
  gather_len :: int
  headers :: "u8 list"
  gather_list :: "nat \<Rightarrow> gather_item"

record cos_net_callbacks =
  xmit_packet :: "(u8 list \<Rightarrow> int \<Rightarrow> gather_item list \<Rightarrow> int \<Rightarrow> int \<Rightarrow> int) option"
  create_brand :: "(cos_brand_info \<Rightarrow> int) option"
  remove_brand :: "(cos_brand_info \<Rightarrow> int) option"
  get_packet :: bool

datatype idle_status_t = IDLE_AWAKE | IDLE_ASLEEP | IDLE_WAKING

record hstate =
  kern :: kstate
  in_syscall :: bool
  idle_status :: idle_status_t
  cos_timer_brand_thd :: "thdp option"
  cos_upcall_notif_thd :: "thdp option"
  active_net_brands :: nat
  cos_net_brand :: "nat \<Rightarrow> cos_brand_info"
  cos_net_fns :: "cos_net_callbacks option"
  xmit_areas :: "vaddr \<Rightarrow> cos_net_xmit_headers_t"
  payloads :: "(vaddr \<times> int \<times> u8 list) list"

definition NUM_NET_BRANDS :: nat where "NUM_NET_BRANDS = 2"
definition XMIT_HEADERS_GATHER_LEN :: nat where "XMIT_HEADERS_GATHER_LEN = 32"

subsection \<open>Receive rings\<close>

definition upd_ring :: "vaddr \<Rightarrow> nat \<Rightarrow> (rb_buff \<Rightarrow> rb_buff) \<Rightarrow> kstate \<Rightarrow> kstate" where
  "upd_ring a i f s = s\<lparr>rings := (rings s)(a := (rings s a)(i := f (rings s a i)))\<rparr>"

text \<open>The buffer and its length are results of a successful call only; \<open>junk\<close> as for \<^verbatim>\<open>thd_get_thd_spd\<close>.\<close>

definition rb_retrieve_buff ::
  "spdp option \<Rightarrow> thdp \<Rightarrow> int \<Rightarrow> kstate \<Rightarrow> (int \<times> (vaddr \<times> u16) option \<times> kstate) option" where
  "rb_retrieve_buff junk brand desired_len s = do {
     let rb = k_rb (threads s brand);
     if rb = 0 then Some (-1, None, s)
     else do {
       let position = rb_next (threads s brand);
       c_assert (position < RB_SIZE);
       let b = rings s rb position;
       let nxt = (position + 1) mod RB_SIZE;
       if rb_stat b \<noteq> RB_READY \<or> rb_ptr b = 0 then Some (1, None, s)
       else if int (unat (rb_len b)) < desired_len then Some (-1, None, s)
       else do {
         q \<leftarrow> thd_get_thd_spd junk s brand;
         bspd \<leftarrow> q;
         let kaddr = pgtbl_vaddr_to_kaddr s (s_pg_tbl (spds s bspd)) (rb_ptr b);
         if kaddr = 0 \<or> \<not> user_struct_fits_on_page kaddr (ucast (rb_len b))
         then Some (-1, None, upd_thd brand (\<lambda>x. x\<lparr>rb_next := nxt\<rparr>) (upd_ring rb position (\<lambda>b. b\<lparr>rb_stat := RB_ERR\<rparr>) s))
         else Some (0, Some (kaddr, rb_len b),
                upd_thd brand (\<lambda>x. x\<lparr>rb_next := nxt\<rparr>) (upd_ring rb position (\<lambda>b. b\<lparr>rb_stat := RB_USED\<rparr>) s)) } } }"

definition rb_setup :: "thdp \<Rightarrow> vaddr \<Rightarrow> vaddr \<Rightarrow> kstate \<Rightarrow> (int \<times> kstate) option" where
  "rb_setup brand user_rb kern_rb s = do {
     c_assert (user_rb \<noteq> 0 \<and> kern_rb \<noteq> 0);
     Some (0, upd_thd brand (\<lambda>x. x\<lparr>u_rb := user_rb, k_rb := kern_rb, rb_next := 0\<rparr>) s) }"

subsection \<open>Idling and interrupts\<close>

definition host_in_syscall :: "hstate \<Rightarrow> bool" where "host_in_syscall h \<longleftrightarrow> in_syscall h"
definition host_start_syscall :: "hstate \<Rightarrow> hstate" where "host_start_syscall h = h\<lparr>in_syscall := True\<rparr>"
definition host_end_syscall :: "hstate \<Rightarrow> hstate" where "host_end_syscall h = h\<lparr>in_syscall := False\<rparr>"
definition host_in_idle :: "hstate \<Rightarrow> bool" where "host_in_idle h \<longleftrightarrow> IDLE_AWAKE \<noteq> idle_status h"

text \<open>\<open>schedule\<close> is what Linux runs until the thread is chosen again.\<close>

definition host_idle :: "(hstate \<Rightarrow> hstate) \<Rightarrow> hstate \<Rightarrow> hstate option" where
  "host_idle schedule h = do {
     c_assert (IDLE_AWAKE = idle_status h);
     let h = schedule (h\<lparr>idle_status := IDLE_ASLEEP\<rparr>);
     Some (h\<lparr>idle_status := IDLE_AWAKE\<rparr>) }"

definition host_idle_wakeup :: "hstate \<Rightarrow> hstate option" where
  "host_idle_wakeup h = do {
     c_assert (host_in_idle h);
     if composite_thread (kern h)
     then do {
       let h = (if IDLE_ASLEEP = idle_status h then h\<lparr>idle_status := IDLE_WAKING\<rparr> else h);
       c_assert (IDLE_WAKING = idle_status h);
       Some h }
     else Some h }"

definition cos_syscall_idle_cont :: "(hstate \<Rightarrow> hstate) \<Rightarrow> int \<Rightarrow> hstate \<Rightarrow> (int \<times> hstate) option" where
  "cos_syscall_idle_cont schedule spdid h = do {
     let c = thd_get_current (kern h);
     h \<leftarrow> host_idle schedule h;
     Some (if c \<noteq> thd_get_current (kern h) then COS_SCHED_RET_AGAIN else COS_SCHED_RET_SUCCESS, h) }"

text \<open>
  \<open>rg\<close> are the interrupted user registers, returned as the interrupt leaves them.  A thread that is
  preempted while the host is in a system call or idle is not put into a preemption chain.
\<close>

definition host_attempt_brand :: "spdp option \<Rightarrow> thdp \<Rightarrow> pt_regs \<Rightarrow> hstate \<Rightarrow> (pt_regs \<times> hstate) option" where
  "host_attempt_brand junk brand rg h =
     (if \<not> composite_thread (kern h) then Some (rg, h)
      else if host_in_syscall h \<or> host_in_idle h
      then do {
        cos_current \<leftarrow> thd_get_current (kern h);
        (next, s) \<leftarrow> brand_next_thread brand cos_current 0 (kern h);
        s \<leftarrow> (if next \<noteq> cos_current
          then do {
            c_assert (thd_get_current s = Some next);
            (_, s) \<leftarrow> thd_check_atomic_preempt (host_in_syscall h \<or> host_in_idle h) junk cos_current s;
            Some s }
          else Some s);
        let h = h\<lparr>kern := s\<rparr>;
        h \<leftarrow> (if host_in_syscall h then Some h else host_idle_wakeup h);
        Some (rg, h) }
      else if \<not> (r_sp rg = 0 \<and> r_ss rg = 0)
      then do {
        cos_current \<leftarrow> thd_get_current (kern h);
        (next, s) \<leftarrow> brand_next_thread brand cos_current 1 (kern h);
        if next \<noteq> cos_current
        then do {
          let s = thd_save_preempted_state cos_current rg s;
          (_, s) \<leftarrow> thd_check_atomic_preempt (host_in_syscall h \<or> host_in_idle h) junk cos_current s;
          let n = regs (threads s next);
          Some (rg\<lparr>r_bx := r_bx n, r_di := r_di n, r_si := r_si n, r_cx := r_cx n, r_ip := r_ip n, r_dx := r_dx n,
                   r_ax := r_ax n, r_orig_ax := r_ax n, r_sp := r_sp n, r_bp := r_bp n\<rparr>, h\<lparr>kern := s\<rparr>) }
        else Some (rg, h\<lparr>kern := s\<rparr>) }
      else Some (rg, h))"

definition timer_interrupt :: "spdp option \<Rightarrow> pt_regs \<Rightarrow> hstate \<Rightarrow> (pt_regs \<times> hstate) option" where
  "timer_interrupt junk rg h = do {
     c_assert (composite_thread (kern h));
     case cos_timer_brand_thd h of None \<Rightarrow> Some (rg, h)
     | Some b \<Rightarrow> if upcall_threads (threads (kern h) b) = None then Some (rg, h) else host_attempt_brand junk b rg h }"

definition deregister_timers :: "hstate \<Rightarrow> hstate" where
  "deregister_timers h = h\<lparr>cos_timer_brand_thd := None\<rparr>"

subsection \<open>Faults in a stale protection domain\<close>

text \<open>
  \<^verbatim>\<open>origin\<close> is never assigned; \<open>None\<close> stands for a wild pointer.  The second result is what is
  saved in the shared data page.
\<close>

definition stale_domain :: "kstate \<Rightarrow> spd_poly \<Rightarrow> bool option" where
  "stale_domain s active =
     (if \<not> has (poly_flags s active) (SPD_DEPRICATED OR SPD_SUBORDINATE) then Some False
      else do {
        c \<leftarrow> as_cspd active;
        if spd_mpd_is_depricated s c then Some True
        else do { m \<leftarrow> master_spd (mpd_descriptors s c); Some (spd_mpd_is_depricated s m) } })"

definition cos_prelinux_handle_page_fault ::
  "spdp option \<Rightarrow> thdp \<Rightarrow> pt_regs \<Rightarrow> vaddr \<Rightarrow> kstate \<Rightarrow> (int \<times> pt_regs option \<times> kstate) option" where
  "cos_prelinux_handle_page_fault origin t rg fault_addr s = do {
     q \<leftarrow> thd_get_thd_spdpoly s t;
     active \<leftarrow> q;
     stale \<leftarrow> stale_domain s active;
     if \<not> stale then Some (0, None, s)
     else do {
       c_assert (spd_is_composite s active);
       p \<leftarrow> origin;
       let cur = s_composite_spd (spds s p);
       if pgtbl_entry_absent s (poly_pg_tbl s active) (r_ax rg) then Some (0, None, s)
       else if \<not> pgtbl_entry_absent s (poly_pg_tbl s active) fault_addr then Some (0, None, s)
       else if pgtbl_entry_absent s (poly_pg_tbl s cur) fault_addr then Some (0, None, s)
       else do {
         s \<leftarrow> copy_pgtbl_range (poly_pg_tbl s active) (poly_pg_tbl s cur) fault_addr HPAGE_SIZE s;
         Some (1, Some rg, s) } } }"

subsection \<open>Network brands\<close>

definition no_brand :: cos_brand_info where
  "no_brand = \<lparr>brand_port = 0, bi_brand = None\<rparr>"

definition cos_net_init :: "hstate \<Rightarrow> hstate" where
  "cos_net_init h = h\<lparr>active_net_brands := 0,
     cos_net_brand := fold (\<lambda>i m. m(i := no_brand)) [0..<NUM_NET_BRANDS] (cos_net_brand h)\<rparr>"

definition cos_net_brand_info :: "hstate \<Rightarrow> thdp \<Rightarrow> nat option" where
  "cos_net_brand_info h t = find (\<lambda>i. bi_brand (cos_net_brand h i) = Some t) [0..<NUM_NET_BRANDS]"

text \<open>A brand that cannot be deregistered is reported and dropped all the same.\<close>

definition cos_net_finish :: "hstate \<Rightarrow> hstate" where
  "cos_net_finish h = h\<lparr>active_net_brands := 0,
     cos_net_brand := fold (\<lambda>i m. m(i := no_brand)) [0..<NUM_NET_BRANDS] (cos_net_brand h)\<rparr>"

definition cos_net_register :: "cos_net_callbacks \<Rightarrow> hstate \<Rightarrow> hstate option" where
  "cos_net_register cb h = do {
     c_assert (get_packet cb \<and> create_brand cb \<noteq> None);
     Some (h\<lparr>cos_net_fns := Some cb\<rparr>) }"

definition cos_net_deregister :: "cos_net_callbacks \<Rightarrow> hstate \<Rightarrow> hstate option" where
  "cos_net_deregister cb h = do {
     c_assert (cos_net_fns h = Some cb);
     Some (h\<lparr>cos_net_fns := None\<rparr>) }"

definition cos_net_try_brand :: "spdp option \<Rightarrow> thdp \<Rightarrow> u8 list \<Rightarrow> int \<Rightarrow> pt_regs \<Rightarrow> hstate \<Rightarrow> (int \<times> pt_regs \<times> hstate) option" where
  "cos_net_try_brand junk t data len rg h = do {
     (r, found, s) \<leftarrow> rb_retrieve_buff junk t (len + 4) (kern h);
     let h = h\<lparr>kern := s\<rparr>;
     case found of None \<Rightarrow> Some (-1, rg, h)
     | Some (buff, l) \<Rightarrow> do {
         let h = h\<lparr>payloads := payloads h @ [(buff, len, take (nat len) data)]\<rparr>;
         (rg, h) \<leftarrow> host_attempt_brand junk t rg h;
         Some (0, rg, h) } }"

definition cos_net_notify_drop :: "thdp option \<Rightarrow> hstate \<Rightarrow> int" where
  "cos_net_notify_drop brand h =
     (case brand of None \<Rightarrow> -1
      | Some b \<Rightarrow> if upcall_threads (threads (kern h) b) \<noteq> None then 0 else -1)"

datatype hw_op = COS_HW_TIMER | COS_HW_NET | COS_UC_NOTIF

definition hw_ops :: "hw_op list" where
  "hw_ops = [COS_HW_TIMER, COS_HW_NET, COS_UC_NOTIF]"

definition wire_net :: "thdp \<Rightarrow> int \<Rightarrow> hstate \<Rightarrow> int \<times> hstate" where
  "wire_net b data h =
     (if active_net_brands h \<ge> NUM_NET_BRANDS \<or> cos_net_fns h = None then (-1, h)
      else let n = active_net_brands h;
               bi = \<lparr>brand_port = word_of_int data, bi_brand = Some b\<rparr>;
               h = h\<lparr>cos_net_brand := (cos_net_brand h)(n := bi)\<rparr>
           in case Option.bind (cos_net_fns h) create_brand of
                Some f \<Rightarrow> if f bi \<noteq> 0 then (-1, h) else (0, h\<lparr>active_net_brands := n + 1\<rparr>)
              | None \<Rightarrow> (-1, h))"

definition cos_syscall_brand_wire :: "int \<Rightarrow> int \<Rightarrow> int \<Rightarrow> int \<Rightarrow> hstate \<Rightarrow> (int \<times> hstate) option" where
  "cos_syscall_brand_wire spd_id thd_id option data h = do {
     let s = kern h;
     curr_thd \<leftarrow> thd_get_current s;
     q \<leftarrow> thd_validate_get_current_spd s curr_thd spd_id;
     case (q, verify_brand_thd (u16_of thd_id) s) of
       (Some _, Some b) \<Rightarrow>
         if \<not> has (t_flags (threads s b)) THD_STATE_HW_BRAND then Some (-1, h)
         else (case enum_op hw_ops option of
             Some COS_HW_TIMER \<Rightarrow> Some (0, h\<lparr>cos_timer_brand_thd := Some b\<rparr>)
           | Some COS_HW_NET \<Rightarrow> Some (wire_net b data h)
           | Some COS_UC_NOTIF \<Rightarrow> Some (0, h\<lparr>cos_upcall_notif_thd := Some b\<rparr>)
           | None \<Rightarrow> Some (-1, h))
     | _ \<Rightarrow> Some (-1, h) }"

subsection \<open>Buffer management\<close>

text \<open>The gather list with kernel addresses and its total length; \<open>None\<close> when a buffer is refused.\<close>

fun gather_loop :: "hstate \<Rightarrow> spdp \<Rightarrow> gather_item list \<Rightarrow> (gather_item list \<times> int) option" where
  "gather_loop h p [] = Some ([], 0)"
| "gather_loop h p (g # gs) =
     (if \<not> user_struct_fits_on_page (gi_data g) (word_of_int (gi_len g)) then None
      else let kaddr = (if gi_data g AND PAGE_MASK = ud_argument_region (kern h) then gi_data g
                        else pgtbl_vaddr_to_kaddr (kern h) (s_pg_tbl (spds (kern h) p)) (gi_data g))
           in if gi_data g AND PAGE_MASK \<noteq> ud_argument_region (kern h) \<and> kaddr = 0 then None
              else do { (gis, tot) \<leftarrow> gather_loop h p gs;
                        Some (g\<lparr>gi_data := kaddr\<rparr> # gis, gi_len g + tot) })"

definition bm_xmit :: "spdp \<Rightarrow> hstate \<Rightarrow> int" where
  "bm_xmit p h =
     (let a = cos_net_xmit_headers (spds (kern h) p); x = xmit_areas h a; n = gather_len x
      in if a = 0 then -1
         else if n > int XMIT_HEADERS_GATHER_LEN then -1
         else case gather_loop h p (map (gather_list x) [0..<nat n]) of None \<Rightarrow> -1
         | Some (gi, tot_len) \<Rightarrow>
             (case Option.bind (cos_net_fns h) xmit_packet of
                Some f \<Rightarrow> f (headers x) (xh_len x) gi n tot_len
              | None \<Rightarrow> 0))"

definition bm_xmit_region :: "spdp \<Rightarrow> vaddr \<Rightarrow> vaddr \<Rightarrow> u16 \<Rightarrow> hstate \<Rightarrow> int \<times> hstate" where
  "bm_xmit_region p addr kaddr len h =
     (if len \<noteq> 4096 then (-1, h)
      else if \<not> user_struct_fits_on_page addr (ucast len) then (-1, h)
      else (0, h\<lparr>kern := upd_spd p (\<lambda>x. x\<lparr>cos_net_xmit_headers := kaddr\<rparr>) (kern h)\<rparr>))"

definition bm_recv_ring :: "vaddr \<Rightarrow> vaddr \<Rightarrow> u32 \<Rightarrow> u16 \<Rightarrow> hstate \<Rightarrow> (int \<times> hstate) option" where
  "bm_recv_ring addr kaddr thd_id len h =
     (let s = kern h
      in if addr AND NOT PAGE_MASK \<noteq> 0 \<or> unat len \<noteq> PAGE_SIZE then Some (-1, h)
         else case thd_get_by_id (sint thd_id) of None \<Rightarrow> Some (-1, h)
         | Some b \<Rightarrow> do {
             b \<leftarrow> (if has (t_flags (threads s b)) THD_STATE_UPCALL then thread_brand (threads s b) else Some b);
             if \<not> (has (t_flags (threads s b)) THD_STATE_BRAND \<or> has (t_flags (threads s b)) THD_STATE_HW_BRAND)
             then Some (-1, h)
             else do {
               (r, s) \<leftarrow> rb_setup b addr kaddr s;
               Some (if r \<noteq> 0 then -1 else 0, h\<lparr>kern := s\<rparr>) } })"

definition cos_syscall_buff_mgmt_cont :: "int \<Rightarrow> vaddr \<Rightarrow> u32 \<Rightarrow> u32 \<Rightarrow> hstate \<Rightarrow> (int \<times> hstate) option" where
  "cos_syscall_buff_mgmt_cont spd_id addr thd_id len_op h = do {
     let option = len_op AND 0xFFFF;
     let len = (ucast (drop_bit 16 len_op) :: u16);
     t \<leftarrow> thd_get_current (kern h);
     q \<leftarrow> thd_validate_get_current_spd (kern h) t spd_id;
     case q of None \<Rightarrow> Some (-1, h)
     | Some p \<Rightarrow> do {
         let kaddr = pgtbl_vaddr_to_kaddr (kern h) (s_pg_tbl (spds (kern h) p)) addr;
         if option = 0 then Some (bm_xmit p h, h)
         else if kaddr = 0 then Some (-1, h)
         else if option = 1 then Some (bm_xmit_region p addr kaddr len h)
         else if option = 2 then bm_recv_ring addr kaddr thd_id len h
         else Some (-1, h) } }"

subsection \<open>The receive ring as a queue\<close>

text \<open>A buffer that the component has made ready and that the kernel can reach.\<close>

definition deliverable :: "kstate \<Rightarrow> spdp \<Rightarrow> int \<Rightarrow> rb_buff \<Rightarrow> bool" where
  "deliverable s p len b \<longleftrightarrow> rb_stat b = RB_READY \<and> rb_ptr b \<noteq> 0 \<and> len \<le> int (unat (rb_len b))
     \<and> (let k = pgtbl_vaddr_to_kaddr s (s_pg_tbl (spds s p)) (rb_ptr b)
        in k \<noteq> 0 \<and> user_struct_fits_on_page k (ucast (rb_len b)))"

definition buffer_of :: "kstate \<Rightarrow> spdp \<Rightarrow> rb_buff \<Rightarrow> vaddr \<times> u16" where
  "buffer_of s p b = (pgtbl_vaddr_to_kaddr s (s_pg_tbl (spds s p)) (rb_ptr b), rb_len b)"

fun retrieve :: "nat \<Rightarrow> spdp option \<Rightarrow> thdp \<Rightarrow> int \<Rightarrow> kstate \<Rightarrow> ((vaddr \<times> u16) list \<times> kstate) option" where
  "retrieve 0 junk t len s = Some ([], s)"
| "retrieve (Suc n) junk t len s = do {
     (r, b, s) \<leftarrow> rb_retrieve_buff junk t len s;
     b \<leftarrow> b;
     (bs, s) \<leftarrow> retrieve n junk t len s;
     Some (b # bs, s) }"

text \<open>The state after the buffer at the current position has been handed out.\<close>

definition taken :: "thdp \<Rightarrow> kstate \<Rightarrow> kstate" where
  "taken t s = upd_thd t (\<lambda>x. x\<lparr>rb_next := (rb_next (threads s t) + 1) mod RB_SIZE\<rparr>)
     (upd_ring (k_rb (threads s t)) (rb_next (threads s t)) (\<lambda>b. b\<lparr>rb_stat := RB_USED\<rparr>) s)"

lemma taken_simps [simp]:
  "k_rb (threads (taken t s) u) = k_rb (threads s u)" "spds (taken t s) = spds s"
  "rb_next (threads (taken t s) t) = (rb_next (threads s t) + 1) mod RB_SIZE"
  "rings (taken t s) = (rings s)(k_rb (threads s t) := (rings s (k_rb (threads s t)))(rb_next (threads s t) :=
     (rings s (k_rb (threads s t)) (rb_next (threads s t)))\<lparr>rb_stat := RB_USED\<rparr>))"
  "pgtbl_vaddr_to_kaddr (taken t s) g a = pgtbl_vaddr_to_kaddr s g a" "thd_get_thd_spd junk (taken t s) u = thd_get_thd_spd junk s u"
  by (simp_all add: taken_def upd_ring_def pgtbl_vaddr_to_kaddr_def pgtbl_lookup_address_def thd_get_thd_spd_def thd_invstk_top_def
      frame_at_def Let_def split: option.split)

lemma retrieve_one:
  assumes "k_rb (threads s t) \<noteq> 0" "rb_next (threads s t) < RB_SIZE" "thd_get_thd_spd junk s t = Some (Some p)"
    and "deliverable s p len (rings s (k_rb (threads s t)) (rb_next (threads s t)))"
  shows "rb_retrieve_buff junk t len s =
    Some (0, Some (buffer_of s p (rings s (k_rb (threads s t)) (rb_next (threads s t)))), taken t s)"
  using assms by (simp add: rb_retrieve_buff_def deliverable_def buffer_of_def taken_def Let_def)

definition slot :: "kstate \<Rightarrow> thdp \<Rightarrow> nat \<Rightarrow> nat" where
  "slot s t i = (rb_next (threads s t) + i) mod RB_SIZE"

lemma slot_taken: "slot (taken t s) t i = slot s t (Suc i)"
  by (simp add: slot_def mod_simps)

lemma slot_zero: "rb_next (threads s t) < RB_SIZE \<Longrightarrow> slot s t 0 = rb_next (threads s t)"
  by (simp add: slot_def)

lemma slot_other:
  assumes "rb_next (threads s t) < RB_SIZE" "0 < i" "i < RB_SIZE"
  shows "slot s t i \<noteq> rb_next (threads s t)"
  using assms by (cases "rb_next (threads s t) + i < RB_SIZE") (auto simp: slot_def le_mod_geq not_less)

lemma retrieve_ready:
  assumes "k_rb (threads s t) = rb" "rb \<noteq> 0" "rb_next (threads s t) < RB_SIZE" "thd_get_thd_spd junk s t = Some (Some p)" "n \<le> RB_SIZE"
    and "\<forall>i < n. deliverable s p len (rings s rb (slot s t i))"
  shows "\<exists>s'. retrieve n junk t len s = Some (map (\<lambda>i. buffer_of s p (rings s rb (slot s t i))) [0..<n], s')
    \<and> k_rb (threads s' t) = rb \<and> rb_next (threads s' t) = slot s t n
    \<and> (\<forall>j. rings s' rb j = (if j \<in> slot s t ` {..<n} then (rings s rb j)\<lparr>rb_stat := RB_USED\<rparr> else rings s rb j))"
  using assms
proof (induction n arbitrary: s)
  case 0
  then show ?case by (simp add: slot_zero)
next
  case (Suc n)
  let ?u = "taken t s"
  have here: "deliverable s p len (rings s rb (rb_next (threads s t)))" using Suc.prems(6) slot_zero [OF Suc.prems(3)] by fastforce
  have same: "rings ?u rb (slot s t (Suc i)) = rings s rb (slot s t (Suc i))" if "i < n" for i
    using slot_other [OF Suc.prems(3), of "Suc i"] that Suc.prems(1,5) by simp
  have del: "deliverable ?u p len b = deliverable s p len b" and buf: "buffer_of ?u p b = buffer_of s p b" for b
    by (simp_all add: deliverable_def buffer_of_def)
  have "\<exists>s'. retrieve n junk t len ?u = Some (map (\<lambda>i. buffer_of s p (rings ?u rb (slot ?u t i))) [0..<n], s')
      \<and> k_rb (threads s' t) = rb \<and> rb_next (threads s' t) = slot ?u t n
      \<and> (\<forall>j. rings s' rb j = (if j \<in> slot ?u t ` {..<n} then (rings ?u rb j)\<lparr>rb_stat := RB_USED\<rparr> else rings ?u rb j))"
    using Suc.IH [of ?u] Suc.prems same by (simp add: slot_taken del buf RB_SIZE_def)
  then obtain s' where s': "retrieve n junk t len ?u = Some (map (\<lambda>i. buffer_of s p (rings s rb (slot s t (Suc i)))) [0..<n], s')"
      "k_rb (threads s' t) = rb" "rb_next (threads s' t) = slot s t (Suc n)"
      "\<And>j. rings s' rb j = (if j \<in> (\<lambda>i. slot s t (Suc i)) ` {..<n} then (rings ?u rb j)\<lparr>rb_stat := RB_USED\<rparr> else rings ?u rb j)"
    using same by (auto simp: slot_taken cong: map_cong)
  have im: "slot s t ` {..<Suc n} = insert (rb_next (threads s t)) ((\<lambda>i. slot s t (Suc i)) ` {..<n})"
    by (simp add: lessThan_Suc_eq_insert_0 slot_zero [OF Suc.prems(3)] image_image)
  have "retrieve (Suc n) junk t len s = Some (map (\<lambda>i. buffer_of s p (rings s rb (slot s t i))) [0..<Suc n], s')"
    using retrieve_one [of s t junk p len] Suc.prems here s'(1)
    by (simp add: map_upt_Suc slot_zero [OF Suc.prems(3)] del: upt_Suc)
  moreover have "rings s' rb j = (if j \<in> slot s t ` {..<Suc n} then (rings s rb j)\<lparr>rb_stat := RB_USED\<rparr> else rings s rb j)" for j
    using s'(4) [of j] Suc.prems(1) im by auto
  ultimately show ?case using s'(2,3) by blast
qed

subsection \<open>Sleeping and waking\<close>

text \<open>What happens to the host between the two halves of \<^verbatim>\<open>host_idle\<close>: any number of branded interrupts.\<close>

inductive interrupts :: "hstate \<Rightarrow> hstate \<Rightarrow> bool" where
  quiet: "interrupts h h"
| branded: "interrupts h h1 \<Longrightarrow> host_attempt_brand junk brand rg h1 = Some (rg', h2) \<Longrightarrow> interrupts h h2"

definition dozing :: "hstate \<Rightarrow> bool" where
  "dozing h \<longleftrightarrow> \<not> in_syscall h \<and> (idle_status h = IDLE_ASLEEP \<or> idle_status h = IDLE_WAKING)"

lemma wakeup_dozing:
  assumes "dozing h"
  shows "host_idle_wakeup h = Some (if composite_thread (kern h) then h\<lparr>idle_status := IDLE_WAKING\<rparr> else h)"
  using assms by (auto simp: dozing_def host_idle_wakeup_def host_in_idle_def)

lemma attempt_dozing:
  assumes "dozing h" "host_attempt_brand junk brand rg h = Some (rg', h')"
  shows "dozing h' \<and> rg' = rg \<and> (idle_status h = IDLE_WAKING \<longrightarrow> idle_status h' = IDLE_WAKING)"
proof -
  have d: "dozing (h\<lparr>kern := s\<rparr>)" for s using assms(1) by (simp add: dozing_def)
  have w: "host_idle_wakeup (h\<lparr>kern := s\<rparr>) = Some v \<Longrightarrow> dozing v \<and> (idle_status h = IDLE_WAKING \<longrightarrow> idle_status v = IDLE_WAKING)" for s v
    using wakeup_dozing [OF d, of s] d [of s] by (auto simp: dozing_def split: if_splits)
  show ?thesis
    using assms w by (auto simp: host_attempt_brand_def dozing_def host_in_syscall_def host_in_idle_def bind_eq_Some_conv split: if_splits)
qed

lemma interrupts_dozing:
  "interrupts h h' \<Longrightarrow> dozing h \<Longrightarrow> dozing h' \<and> (idle_status h = IDLE_WAKING \<longrightarrow> idle_status h' = IDLE_WAKING)"
  by (induction rule: interrupts.induct) (auto dest: attempt_dozing)

subsection \<open>Properties\<close>

text \<open>
  C34.  The receive ring of a brand is served in order.  If the \<open>n\<close> buffers from the current position on, at
  most a whole turn, are ready and reachable, then \<open>n\<close> packets get exactly these buffers, in ring order and each
  once; every one of them is marked as used, no other entry changes, and the position is \<open>n\<close> further.
  A buffer that the component has not made ready again is never handed out: the call then returns 1
  and changes nothing.
\<close>

theorem receive_ring_in_order:
  assumes "k_rb (threads s t) = rb" "rb \<noteq> 0" "rb_next (threads s t) < RB_SIZE" "thd_get_thd_spd junk s t = Some (Some p)" "n \<le> RB_SIZE"
    and "\<forall>i < n. deliverable s p len (rings s rb (slot s t i))"
  shows "\<exists>s'. retrieve n junk t len s = Some (map (\<lambda>i. buffer_of s p (rings s rb (slot s t i))) [0..<n], s')
    \<and> rb_next (threads s' t) = slot s t n
    \<and> (\<forall>j. rings s' rb j = (if j \<in> slot s t ` {..<n} then (rings s rb j)\<lparr>rb_stat := RB_USED\<rparr> else rings s rb j))
    \<and> (rb_stat (rings s' rb (slot s t n)) \<noteq> RB_READY \<longrightarrow> rb_retrieve_buff junk t len s' = Some (1, None, s'))"
proof -
  obtain s' where s': "retrieve n junk t len s = Some (map (\<lambda>i. buffer_of s p (rings s rb (slot s t i))) [0..<n], s')"
    "k_rb (threads s' t) = rb" "rb_next (threads s' t) = slot s t n"
    "\<forall>j. rings s' rb j = (if j \<in> slot s t ` {..<n} then (rings s rb j)\<lparr>rb_stat := RB_USED\<rparr> else rings s rb j)"
    using retrieve_ready [OF assms] by blast
  have "slot s t n < RB_SIZE" by (simp add: slot_def RB_SIZE_def)
  then have "rb_stat (rings s' rb (slot s t n)) \<noteq> RB_READY \<longrightarrow> rb_retrieve_buff junk t len s' = Some (1, None, s')"
    using s'(2,3) assms(2) by (simp add: rb_retrieve_buff_def)
  with s' show ?thesis by blast
qed

definition ring_example :: kstate where
  "ring_example = upd_ring 0xC000B000 511 (\<lambda>_. \<lparr>rb_ptr = 0x40001000, rb_len = 2048, rb_stat = RB_READY\<rparr>)
     (upd_ring 0xC000B000 0 (\<lambda>_. \<lparr>rb_ptr = 0x40001800, rb_len = 1024, rb_stat = RB_READY\<rparr>)
     (upd_thd 4 (\<lambda>x. x\<lparr>k_rb := 0xC000B000, rb_next := 511\<rparr>)
     (upd_spd 2 (\<lambda>x. x\<lparr>s_pg_tbl := 0x5000\<rparr>) sched_example)))"

theorem receive_ring_in_order_witness:
  "\<exists>s'. retrieve 2 (Some 2) 4 1000 ring_example = Some ([(0xC000A000, 2048), (0xC000A800, 1024)], s')
     \<and> rb_next (threads s' 4) = 1"
proof -
  have f: "k_rb (threads ring_example 4) = 0xC000B000" "rb_next (threads ring_example 4) = 511"
      "rings ring_example 0xC000B000 511 = \<lparr>rb_ptr = 0x40001000, rb_len = 2048, rb_stat = RB_READY\<rparr>"
      "rings ring_example 0xC000B000 0 = \<lparr>rb_ptr = 0x40001800, rb_len = 1024, rb_stat = RB_READY\<rparr>"
    by (simp_all add: ring_example_def upd_ring_def)
  have k: "pgtbl_vaddr_to_kaddr ring_example (s_pg_tbl (spds ring_example 2)) 0x40001000 = 0xC000A000"
      "pgtbl_vaddr_to_kaddr ring_example (s_pg_tbl (spds ring_example 2)) 0x40001800 = 0xC000A800"
    by (simp_all add: ring_example_def upd_ring_def sched_example_def set_pmem_def inv_example_def pgtbl_vaddr_to_kaddr_def
        pgtbl_lookup_address_def zero_kstate_def pgd_index_def pte_index_def PG_LARGE_def PTE_MASK_def pa_to_va_def PAGE_MASK_def
        HPAGE_SHIFT_def PAGE_SHIFT_def KERN_BASE_ADDR_def has_def PG_PRESENT_def Let_def)
  have sl: "slot ring_example 4 0 = 511" "slot ring_example 4 (Suc 0) = 0" "slot ring_example 4 2 = 1"
    by (simp_all add: slot_def f RB_SIZE_def)
  have d: "\<forall>i < 2. deliverable ring_example 2 1000 (rings ring_example 0xC000B000 (slot ring_example 4 i))"
    using f sl k by (auto simp: less_2_cases_iff deliverable_def user_struct_fits_on_page_def PAGE_MASK_def PAGE_SIZE_def PAGE_SHIFT_def)
  show ?thesis
    using receive_ring_in_order [OF f(1) _ _ _ _ d, of "Some 2"] f sl k
    by (auto simp: RB_SIZE_def thd_get_thd_spd_def buffer_of_def upt_rec numeral_2_eq_2 [symmetric])
qed


definition idle_example :: hstate where
  "idle_example = \<lparr>kern = brand_example, in_syscall = False, idle_status = IDLE_AWAKE, cos_timer_brand_thd = Some 8,
     cos_upcall_notif_thd = None, active_net_brands = 0, cos_net_brand = (\<lambda>_. no_brand), cos_net_fns = None,
     xmit_areas = (\<lambda>_. \<lparr>xh_len = 0, gather_len = 0, headers = [], gather_list = (\<lambda>_. \<lparr>gi_data = 0, gi_len = 0\<rparr>)\<rparr>), payloads = []\<rparr>"

lemma idle_example_interrupt:
  "\<exists>s. host_attempt_brand None 8 zero_regs (idle_example\<lparr>idle_status := IDLE_ASLEEP\<rparr>) =
     Some (zero_regs, idle_example\<lparr>idle_status := IDLE_WAKING, kern := s\<rparr>)"
proof -
  have b: "busy brand_example 8 4" "current_thread brand_example = Some 4" "composite_thread brand_example"
    by (simp_all add: brand_example_def inv_example_def busy_def has_def THD_STATE_BRAND_def THD_STATE_HW_BRAND_def
        THD_STATE_ACTIVE_UPCALL_def THD_STATE_READY_UPCALL_def thd_get_thd_spdpoly_def thd_invstk_top_def frame_at_def
        zero_kstate_def zero_thread_def MAX_SERVICE_DEPTH_def)
  then show ?thesis
    using arrival_busy [OF b(1), of 4 0]
    by (simp add: idle_example_def host_attempt_brand_def host_in_syscall_def host_in_idle_def thd_get_current_def host_idle_wakeup_def set_pending_def)
qed


end
