(* ===== verification/Cos_Heap.thy ===== *)
theory Cos_Heap
  imports Cos_Prelude "HOL-Library.Multiset"
begin

text \<open>
  The binary heap of the component library (\<^verbatim>\<open>components/lib/heap.c\<close>) and the three heaps of the
  protection-domain policy (\<^verbatim>\<open>components/include/mpd_policy.h\<close>) that are its clients.

  Entries are pointers of type \<open>'a\<close>; what the comparison reads and the update routine writes is the
  client's memory \<open>'m\<close>, which is passed along.  The array starts at index 1 and ends before \<^verbatim>\<open>e\<close>.
  Its memory is what \<^verbatim>\<open>heap_alloc\<close> asks for, in bytes; an access outside it fails.
\<close>

record ('a, 'm) heap =
  h_e :: nat
  h_max_sz :: nat
  h_c :: "'m \<Rightarrow> 'a \<Rightarrow> 'a \<Rightarrow> bool"
  h_u :: "'a \<Rightarrow> nat \<Rightarrow> 'm \<Rightarrow> 'm"
  h_data :: "nat \<Rightarrow> 'a"
  data_bytes :: nat

subsection \<open>Operations\<close>

definition in_data :: "('a, 'm) heap \<Rightarrow> nat \<Rightarrow> bool" where
  "in_data h i \<longleftrightarrow> 4 * i + 4 \<le> data_bytes h"

definition swap_entries :: "nat \<Rightarrow> nat \<Rightarrow> ('a, 'm) heap \<Rightarrow> 'm \<Rightarrow> (('a, 'm) heap \<times> 'm) option" where
  "swap_entries a b h m = do {
     c_assert (in_data h a \<and> in_data h b);
     let d = (h_data h)(a := h_data h b, b := h_data h a);
     let m = h_u h (d a) a m;
     let m = h_u h (d b) b m;
     Some (h\<lparr>h_data := d\<rparr>, m) }"

lemma swap_entries_e: "swap_entries a b h m = Some (h', m') \<Longrightarrow> h_e h' = h_e h"
  by (auto simp: swap_entries_def Let_def split: if_splits)

text \<open>The child that the loop compares with.\<close>

definition next_index :: "('a, 'm) heap \<Rightarrow> 'm \<Rightarrow> nat \<Rightarrow> nat" where
  "next_index h m i =
     (let l = h_e h - 1; left = 2 * i; right = 2 * i + 1
      in if right > l then left else if h_c h m (h_data h left) (h_data h right) then left else right)"

text \<open>The loop is entered with an index above 0, which the assertion before it checks.\<close>

function swap_down_loop :: "nat \<Rightarrow> ('a, 'm) heap \<Rightarrow> 'm \<Rightarrow> (nat \<times> ('a, 'm) heap \<times> 'm) option" where
  "swap_down_loop i h m =
     (if \<not> i \<le> (h_e h - 1) div 2 then Some (i, h, m)
      else do {
        c_assert (in_data h i \<and> in_data h (2 * i) \<and> (2 * i + 1 \<le> h_e h - 1 \<longrightarrow> in_data h (2 * i + 1)));
        let n = next_index h m i;
        if 0 < i \<and> n < h_e h
        then if h_c h m (h_data h i) (h_data h n) then Some (i, h, m)
             else (case swap_entries n i h m of None \<Rightarrow> None | Some (h, m) \<Rightarrow> swap_down_loop n h m)
        else None })"
  by pat_completeness auto
termination
  by (relation "measure (\<lambda>(i, h, m). h_e h - i)") (auto simp: next_index_def Let_def dest!: swap_entries_e split: if_splits)

definition swap_down :: "nat \<Rightarrow> ('a, 'm) heap \<Rightarrow> 'm \<Rightarrow> (nat \<times> ('a, 'm) heap \<times> 'm) option" where
  "swap_down i h m = do { c_assert (i \<noteq> 0); c_assert (i \<le> h_e h); swap_down_loop i h m }"

fun swap_up_loop :: "nat \<Rightarrow> ('a, 'm) heap \<Rightarrow> 'm \<Rightarrow> (nat \<times> ('a, 'm) heap \<times> 'm) option" where
  "swap_up_loop i h m =
     (if \<not> 1 < i then Some (i, h, m)
      else do {
        let p = i div 2;
        c_assert (in_data h p \<and> in_data h i);
        if h_c h m (h_data h p) (h_data h i) then Some (i, h, m)
        else (case swap_entries p i h m of None \<Rightarrow> None | Some (h, m) \<Rightarrow> swap_up_loop p h m) })"

definition swap_up :: "nat \<Rightarrow> ('a, 'm) heap \<Rightarrow> 'm \<Rightarrow> (nat \<times> ('a, 'm) heap \<times> 'm) option" where
  "swap_up i h m = do {
     c_assert (i \<le> h_e h);
     c_assert (0 < i);
     (i, h, m) \<leftarrow> swap_up_loop i h m;
     c_assert (i \<noteq> 0);
     Some (i, h, m) }"

definition heapify :: "nat \<Rightarrow> ('a, 'm) heap \<Rightarrow> 'm \<Rightarrow> (nat \<times> ('a, 'm) heap \<times> 'm) option" where
  "heapify i h m = do { (i, h, m) \<leftarrow> swap_up i h m; swap_down i h m }"

text \<open>\<open>fresh\<close> is what the allocated memory holds.\<close>

definition heap_alloc :: "nat \<Rightarrow> ('m \<Rightarrow> 'a \<Rightarrow> 'a \<Rightarrow> bool) \<Rightarrow> ('a \<Rightarrow> nat \<Rightarrow> 'm \<Rightarrow> 'm) \<Rightarrow> (nat \<Rightarrow> 'a) \<Rightarrow> ('a, 'm) heap" where
  "heap_alloc n cmp upd fresh = \<lparr>h_e = 1, h_max_sz = n + 1, h_c = cmp, h_u = upd, h_data = fresh, data_bytes = n * 4 + 1\<rparr>"

definition heap_add :: "('a, 'm) heap \<Rightarrow> 'a \<Rightarrow> 'm \<Rightarrow> (int \<times> ('a, 'm) heap \<times> 'm) option" where
  "heap_add h new m =
     (if h_max_sz h = h_e h then Some (-1, h, m)
      else do {
        let i = h_e h;
        c_assert (in_data h i);
        let h = h\<lparr>h_data := (h_data h)(i := new)\<rparr>;
        let m = h_u h new i m;
        let h = h\<lparr>h_e := h_e h + 1\<rparr>;
        (_, h, m) \<leftarrow> heapify i h m;
        Some (0, h, m) })"

definition heap_highest :: "('a, 'm) heap \<Rightarrow> 'm \<Rightarrow> ('a option \<times> ('a, 'm) heap \<times> 'm) option" where
  "heap_highest h m =
     (if h_e h = 1 then Some (None, h, m)
      else do {
        c_assert (in_data h 1);
        let r = h_data h 1;
        let h = h\<lparr>h_e := h_e h - 1\<rparr>;
        c_assert (in_data h (h_e h));
        let h = h\<lparr>h_data := (h_data h)(1 := h_data h (h_e h))\<rparr>;
        let m = h_u h (h_data h 1) 1 m;
        (_, h, m) \<leftarrow> swap_down 1 h m;
        Some (Some r, h, h_u h r 0 m) })"

definition heap_peek :: "('a, 'm) heap \<Rightarrow> 'a option option" where
  "heap_peek h = (if h_e h = 1 then Some None else do { c_assert (in_data h 1); Some (Some (h_data h 1)) })"

definition heap_adjust :: "nat \<Rightarrow> ('a, 'm) heap \<Rightarrow> 'm \<Rightarrow> (('a, 'm) heap \<times> 'm) option" where
  "heap_adjust i h m = do {
     c_assert (i < h_e h);
     c_assert (0 < i);
     (_, h, m) \<leftarrow> heapify i h m;
     Some (h, m) }"

definition heap_remove :: "nat \<Rightarrow> ('a, 'm) heap \<Rightarrow> 'm \<Rightarrow> ('a option \<times> ('a, 'm) heap \<times> 'm) option" where
  "heap_remove i h m = do {
     c_assert (i < h_e h);
     c_assert (1 \<le> i);
     if h_e h = 1 then Some (None, h, m)
     else do {
       c_assert (in_data h i);
       let r = h_data h i;
       let h = h\<lparr>h_e := h_e h - 1\<rparr>;
       let m = h_u h r 0 m;
       if i = h_e h then Some (Some r, h, m)
       else do {
         c_assert (in_data h (h_e h));
         let h = h\<lparr>h_data := (h_data h)(i := h_data h (h_e h))\<rparr>;
         let m = h_u h (h_data h i) i m;
         (h, m) \<leftarrow> heap_adjust i h m;
         Some (Some r, h, m) } } }"

definition heap_size :: "('a, 'm) heap \<Rightarrow> nat" where
  "heap_size h = h_e h - 1"

definition heap_empty :: "('a, 'm) heap \<Rightarrow> bool" where
  "heap_empty h \<longleftrightarrow> heap_size h = 0"

declare swap_down_loop.simps [simp del] swap_up_loop.simps [simp del]

subsection \<open>What the operations maintain\<close>

text \<open>The entries of a heap, and the order of the heap: a parent is not below its children.\<close>

definition elems :: "('a, 'm) heap \<Rightarrow> 'a multiset" where
  "elems h = mset (map (h_data h) [1..<h_e h])"

definition heaped :: "('a \<Rightarrow> 'a \<Rightarrow> bool) \<Rightarrow> ('a, 'm) heap \<Rightarrow> bool" where
  "heaped ge h \<longleftrightarrow> (\<forall>i. 2 \<le> i \<longrightarrow> i < h_e h \<longrightarrow> ge (h_data h (i div 2)) (h_data h i))"

text \<open>The order except between \<open>k\<close> and its children, and except around \<open>k\<close>; the parent of \<open>k\<close> is above its grandchildren.\<close>

definition heaped_above :: "('a \<Rightarrow> 'a \<Rightarrow> bool) \<Rightarrow> ('a, 'm) heap \<Rightarrow> nat \<Rightarrow> bool" where
  "heaped_above ge h k \<longleftrightarrow>
     (\<forall>i. 2 \<le> i \<longrightarrow> i < h_e h \<longrightarrow> i div 2 \<noteq> k \<longrightarrow> ge (h_data h (i div 2)) (h_data h i))
   \<and> (2 \<le> k \<longrightarrow> (\<forall>i < h_e h. i div 2 = k \<longrightarrow> ge (h_data h (k div 2)) (h_data h i)))"

definition heaped_except :: "('a \<Rightarrow> 'a \<Rightarrow> bool) \<Rightarrow> ('a, 'm) heap \<Rightarrow> nat \<Rightarrow> bool" where
  "heaped_except ge h k \<longleftrightarrow>
     (\<forall>i. 2 \<le> i \<longrightarrow> i < h_e h \<longrightarrow> i \<noteq> k \<longrightarrow> i div 2 \<noteq> k \<longrightarrow> ge (h_data h (i div 2)) (h_data h i))
   \<and> (2 \<le> k \<longrightarrow> (\<forall>i < h_e h. i div 2 = k \<longrightarrow> ge (h_data h (k div 2)) (h_data h i)))"

text \<open>Every entry knows its place.\<close>

definition indexed :: "('m \<Rightarrow> 'a \<Rightarrow> nat) \<Rightarrow> ('a, 'm) heap \<Rightarrow> 'm \<Rightarrow> bool" where
  "indexed pos h m \<longleftrightarrow> (\<forall>i. 1 \<le> i \<longrightarrow> i < h_e h \<longrightarrow> pos m (h_data h i) = i)"

definition sound :: "('a, 'm) heap \<Rightarrow> bool" where
  "sound h \<longleftrightarrow> 1 \<le> h_e h \<and> h_e h \<le> h_max_sz h \<and> (h_e h = 1 \<or> 4 * h_e h \<le> data_bytes h)"

lemma heaped_above_except: "heaped_except ge h k \<Longrightarrow> (2 \<le> k \<Longrightarrow> ge (h_data h (k div 2)) (h_data h k)) \<Longrightarrow> heaped_above ge h k"
  unfolding heaped_except_def heaped_above_def by metis

lemma in_data_sound: "sound h \<Longrightarrow> 1 \<le> i \<Longrightarrow> i < h_e h \<Longrightarrow> in_data h i"
  by (auto simp: sound_def in_data_def)

lemma in_data_upd [simp]: "in_data (h\<lparr>h_e := n\<rparr>) i = in_data h i" "in_data (h\<lparr>h_data := d\<rparr>) i = in_data h i"
  by (simp_all add: in_data_def)

lemma elems_swap:
  assumes "1 \<le> a" "a < h_e h" "1 \<le> b" "b < h_e h"
  shows "elems (h\<lparr>h_data := (h_data h)(a := h_data h b, b := h_data h a)\<rparr>) = elems h"
proof -
  let ?xs = "map (h_data h) [1..<h_e h]"
  have "map ((h_data h)(a := h_data h b, b := h_data h a)) [1..<h_e h] = ?xs[a - 1 := ?xs ! (b - 1), b - 1 := ?xs ! (a - 1)]"
    using assms by (auto simp: list_eq_iff_nth_eq nth_list_update)
  then show ?thesis using assms mset_swap [of "b - 1" ?xs "a - 1"] by (simp add: elems_def)
qed

lemma in_elems: "x \<in># elems h \<longleftrightarrow> (\<exists>i. 1 \<le> i \<and> i < h_e h \<and> h_data h i = x)"
  by (auto simp: elems_def)

lemma indexed_distinct: "indexed pos h m \<Longrightarrow> 1 \<le> i \<Longrightarrow> i < h_e h \<Longrightarrow> 1 \<le> j \<Longrightarrow> j < h_e h \<Longrightarrow> h_data h i = h_data h j \<Longrightarrow> i = j"
  unfolding indexed_def by metis

lemma elems_add: "1 \<le> h_e h \<Longrightarrow> elems (h\<lparr>h_data := (h_data h)(h_e h := x), h_e := h_e h + 1\<rparr>) = add_mset x (elems h)"
  by (simp add: elems_def)

text \<open>The last entry moved to the place of another one.\<close>

definition closed_gap :: "nat \<Rightarrow> ('a, 'm) heap \<Rightarrow> ('a, 'm) heap" where
  "closed_gap i h = h\<lparr>h_e := h_e h - 1, h_data := (h_data h)(i := h_data h (h_e h - 1))\<rparr>"

lemma mset_butlast_move:
  assumes "k < length xs"
  shows "mset (butlast (xs[k := last xs])) = mset xs - {#xs ! k#}"
proof -
  let ?ys = "xs[k := last xs]"
  have ne: "?ys \<noteq> []" using assms by auto
  have l: "last ?ys = last xs" using assms by (cases xs rule: rev_cases) (auto simp: list_update_append nth_append split: nat.split)
  have "mset (butlast ?ys) = mset ?ys - {#last ?ys#}" using ne by (metis append_butlast_last_id mset_append mset.simps add_diff_cancel_right' mset_single_iff_right)
  then show ?thesis using l assms by (simp add: mset_update)
qed

lemma elems_closed_gap:
  assumes "1 \<le> i" "i < h_e h"
  shows "elems (closed_gap i h) = elems h - {#h_data h i#}"
proof -
  let ?xs = "map (h_data h) [1..<h_e h]"
  have "map (h_data (closed_gap i h)) [1..<h_e (closed_gap i h)] = butlast (?xs[i - 1 := last ?xs])"
    using assms by (auto simp: closed_gap_def list_eq_iff_nth_eq nth_butlast nth_list_update last_conv_nth Suc_diff_Suc)
  then show ?thesis using mset_butlast_move [of "i - 1" ?xs] assms by (simp add: elems_def)
qed

lemma heaped_closed_gap:
  assumes "heaped ge h" "1 \<le> i" "i < h_e h" "\<And>a b d. ge a b \<Longrightarrow> ge b d \<Longrightarrow> ge a d"
  shows "heaped_except ge (closed_gap i h) i"
proof -
  have "ge (h_data h (i div 2)) (h_data h j)" if "2 \<le> i" "j < h_e h" "j div 2 = i" for j
    using assms that unfolding heaped_def by (meson div_le_dividend le_trans)
  then show ?thesis using assms(1-3) by (auto simp: heaped_except_def heaped_def closed_gap_def)
qed

lemma sound_closed_gap: "sound h \<Longrightarrow> 2 \<le> h_e h \<Longrightarrow> sound (closed_gap i h)"
  by (auto simp: sound_def closed_gap_def)

lemma gone:
  assumes "indexed pos h m" "1 \<le> i" "i < h_e h"
  shows "h_data h i \<notin># elems (closed_gap i h)"
proof
  assume "h_data h i \<in># elems (closed_gap i h)"
  then obtain j where j: "1 \<le> j" "j < h_e h - 1" "((h_data h)(i := h_data h (h_e h - 1))) j = h_data h i"
    by (auto simp: in_elems closed_gap_def)
  show False
  proof (cases "j = i")
    case True
    then have "h_e h - 1 = i" using j assms by (intro indexed_distinct [OF assms(1)]) auto
    with True j show False by simp
  next
    case False
    then have "j = i" using j assms by (intro indexed_distinct [OF assms(1)]) auto
    with False show False ..
  qed
qed

text \<open>A heap in use.\<close>

definition heap_ok :: "('m \<Rightarrow> 'a \<Rightarrow> 'a \<Rightarrow> bool) \<Rightarrow> ('a \<Rightarrow> nat \<Rightarrow> 'm \<Rightarrow> 'm) \<Rightarrow> ('m \<Rightarrow> 'a \<Rightarrow> nat) \<Rightarrow> ('a, 'm) heap \<Rightarrow> 'm \<Rightarrow> bool" where
  "heap_ok cmp upd pos h m \<longleftrightarrow> h_c h = cmp \<and> h_u h = upd \<and> sound h \<and> heaped (cmp m) h \<and> indexed pos h m"

subsection \<open>The contract of a client and what it gives\<close>

text \<open>
  A client's comparison is a total preorder, and its update routine records the position of an entry and
  nothing that the comparison reads.
\<close>

locale heap_client =
  fixes cmp :: "'m \<Rightarrow> 'a \<Rightarrow> 'a \<Rightarrow> bool" and upd :: "'a \<Rightarrow> nat \<Rightarrow> 'm \<Rightarrow> 'm" and pos :: "'m \<Rightarrow> 'a \<Rightarrow> nat"
  assumes cmp_total: "cmp m a b \<or> cmp m b a"
    and cmp_trans: "cmp m a b \<Longrightarrow> cmp m b d \<Longrightarrow> cmp m a d"
    and cmp_upd: "cmp (upd x i m) = cmp m"
    and pos_upd: "pos (upd x i m) y = (if y = x then i else pos m y)"
begin

text \<open>The same entries, with places that are still known, elsewhere.\<close>

definition rearranged :: "('a, 'm) heap \<Rightarrow> 'm \<Rightarrow> ('a, 'm) heap \<Rightarrow> 'm \<Rightarrow> bool" where
  "rearranged h m h' m' \<longleftrightarrow> (\<exists>d. h' = h\<lparr>h_data := d\<rparr>) \<and> elems h' = elems h \<and> cmp m' = cmp m
     \<and> (indexed pos h m \<longrightarrow> indexed pos h' m') \<and> (\<forall>x. x \<notin># elems h \<longrightarrow> pos m' x = pos m x)"

lemma rearranged_refl: "rearranged h m h m"
  unfolding rearranged_def by (auto intro: exI [of _ "h_data h"])

lemma rearranged_trans: "rearranged h m h1 m1 \<Longrightarrow> rearranged h1 m1 h2 m2 \<Longrightarrow> rearranged h m h2 m2"
  unfolding rearranged_def by fastforce

lemma rearranged_fields:
  assumes "rearranged h m h' m'"
  shows "h_e h' = h_e h" "h_max_sz h' = h_max_sz h" "h_c h' = h_c h" "h_u h' = h_u h" "data_bytes h' = data_bytes h"
    "sound h' = sound h" "cmp m' = cmp m"
  using assms by (auto simp: rearranged_def sound_def)

lemma swap_ok:
  assumes h: "h_u h = upd" "sound h" and ab: "1 \<le> a" "a < h_e h" "1 \<le> b" "b < h_e h" "a \<noteq> b"
  shows "\<exists>m'. swap_entries a b h m = Some (h\<lparr>h_data := (h_data h)(a := h_data h b, b := h_data h a)\<rparr>, m')
    \<and> rearranged h m (h\<lparr>h_data := (h_data h)(a := h_data h b, b := h_data h a)\<rparr>) m'"
proof -
  let ?h = "h\<lparr>h_data := (h_data h)(a := h_data h b, b := h_data h a)\<rparr>"
  let ?m = "upd (h_data h a) b (upd (h_data h b) a m)"
  have "swap_entries a b h m = Some (?h, ?m)"
    using in_data_sound [OF h(2)] ab h(1) by (simp add: swap_entries_def Let_def fun_upd_twist)
  moreover have "indexed pos ?h ?m" if i: "indexed pos h m"
    unfolding indexed_def
  proof (intro allI impI)
    fix k assume k: "1 \<le> k" "k < h_e ?h"
    then have "k < h_e h" by simp
    with indexed_distinct [OF i] i k ab show "pos ?m (h_data ?h k) = k"
      by (auto simp: pos_upd indexed_def)
  qed
  moreover have "pos ?m x = pos m x" if "x \<notin># elems h" for x
    using that ab by (auto simp: pos_upd in_elems)
  ultimately show ?thesis
    using elems_swap [OF ab(1-4)] unfolding rearranged_def by (auto simp: cmp_upd)
qed

lemma heaped_except_step:
  assumes x: "heaped_except (cmp m) h i" and i: "1 < i" "i < h_e h" and n: "\<not> cmp m (h_data h (i div 2)) (h_data h i)"
  shows "heaped_except (cmp m) (h\<lparr>h_data := (h_data h)(i div 2 := h_data h i, i := h_data h (i div 2))\<rparr>) (i div 2)"
proof -
  let ?p = "i div 2"
  let ?d = "(h_data h)(?p := h_data h i, i := h_data h ?p)"
  have p: "?p < i" "1 \<le> ?p" using i by auto
  have le: "cmp m (h_data h i) (h_data h ?p)" using n cmp_total by blast
  have old: "2 \<le> j \<Longrightarrow> j < h_e h \<Longrightarrow> j \<noteq> i \<Longrightarrow> j div 2 \<noteq> i \<Longrightarrow> cmp m (h_data h (j div 2)) (h_data h j)" for j
    using x unfolding heaped_except_def by blast
  have grand: "j < h_e h \<Longrightarrow> j div 2 = i \<Longrightarrow> cmp m (h_data h ?p) (h_data h j)" for j
    using x i unfolding heaped_except_def by auto
  have 1: "cmp m (?d (j div 2)) (?d j)" if j: "2 \<le> j" "j < h_e h" "j \<noteq> ?p" "j div 2 \<noteq> ?p" for j
  proof (cases "j div 2 = i")
    case True
    then have "j \<noteq> i" using i by auto
    with True grand [OF j(2) True] j show ?thesis by simp
  next
    case False
    have "j \<noteq> i" using j by auto
    with False j old [of j] show ?thesis by simp
  qed
  have 2: "cmp m (?d (?p div 2)) (?d j)" if j: "2 \<le> ?p" "j < h_e h" "j div 2 = ?p" for j
  proof -
    have pp: "?p div 2 \<noteq> ?p" "?p div 2 \<noteq> i" "?p div 2 < ?p" using j(1) p by auto
    have up: "cmp m (h_data h (?p div 2)) (h_data h ?p)" by (rule old) (use j(1) p i pp in linarith)+
    have "j \<noteq> ?p" using j p by auto
    show ?thesis
    proof (cases "j = i")
      case True
      with up pp show ?thesis by simp
    next
      case False
      have "2 \<le> j" using j by linarith
      with old [of j] False j p have "cmp m (h_data h ?p) (h_data h j)" by simp
      from cmp_trans [OF up this] False \<open>j \<noteq> ?p\<close> pp show ?thesis by simp
    qed
  qed
  show ?thesis using 1 2 by (simp add: heaped_except_def)
qed

lemma swap_up_loop_ok:
  assumes "h_c h = cmp" "h_u h = upd" "sound h" "1 \<le> i" "i < h_e h" "heaped_except (cmp m) h i"
  shows "\<exists>k h' m'. swap_up_loop i h m = Some (k, h', m') \<and> 1 \<le> k \<and> k < h_e h \<and> heaped_above (cmp m) h' k \<and> rearranged h m h' m'"
  using assms
proof (induction i arbitrary: h m rule: less_induct)
  case (less i)
  show ?case
  proof (cases "1 < i \<and> \<not> cmp m (h_data h (i div 2)) (h_data h i)")
    case False
    then have "swap_up_loop i h m = Some (i, h, m)"
      using less.prems in_data_sound [OF less.prems(3)] by (subst swap_up_loop.simps) auto
    moreover have "heaped_above (cmp m) h i"
      using less.prems(6) False by (auto intro: heaped_above_except)
    ultimately show ?thesis using less.prems rearranged_refl by blast
  next
    case True
    let ?p = "i div 2"
    let ?h = "h\<lparr>h_data := (h_data h)(?p := h_data h i, i := h_data h ?p)\<rparr>"
    have p: "1 \<le> ?p" "?p < h_e h" "?p \<noteq> i" "?p < i" using True less.prems by auto
    obtain m1 where m1: "swap_entries ?p i h m = Some (?h, m1)" "rearranged h m ?h m1"
      using swap_ok [OF less.prems(2,3) p(1,2) less.prems(4,5) p(3)] by blast
    have "swap_up_loop i h m = swap_up_loop ?p ?h m1"
      using True less.prems p m1(1) in_data_sound [OF less.prems(3)] by (subst swap_up_loop.simps) (auto simp: Let_def)
    moreover have "heaped_except (cmp m1) ?h ?p"
      using heaped_except_step [OF less.prems(6)] True less.prems rearranged_fields(7) [OF m1(2)] by simp
    ultimately show ?thesis
      using less.IH [OF p(4), of ?h m1] less.prems p rearranged_fields [OF m1(2)] rearranged_trans [OF m1(2)] by auto
  qed
qed

lemma larger_child:
  assumes "h_c h = cmp" "1 \<le> i" "2 * i < h_e h"
  shows "next_index h m i div 2 = i" "i < next_index h m i" "next_index h m i < h_e h"
    "\<And>j. j < h_e h \<Longrightarrow> j div 2 = i \<Longrightarrow> cmp m (h_data h (next_index h m i)) (h_data h j)"
proof -
  show "next_index h m i div 2 = i" "i < next_index h m i" "next_index h m i < h_e h"
    using assms by (auto simp: next_index_def Let_def split: if_splits)
  fix j assume "j < h_e h" "j div 2 = i"
  then have "j = 2 * i \<or> j = 2 * i + 1 \<and> 2 * i + 1 < h_e h" by auto
  moreover have "cmp m a a" for a using cmp_total by blast
  ultimately show "cmp m (h_data h (next_index h m i)) (h_data h j)"
    using cmp_total [of m "h_data h (2 * i)" "h_data h (2 * i + 1)"] by (auto simp: next_index_def Let_def assms(1))
qed

lemma heaped_above_step:
  assumes x: "heaped_above (cmp m) h i" and i: "h_c h = cmp" "1 \<le> i" "2 * i < h_e h"
    and n: "n = next_index h m i" "\<not> cmp m (h_data h i) (h_data h n)"
  shows "heaped_above (cmp m) (h\<lparr>h_data := (h_data h)(n := h_data h i, i := h_data h n)\<rparr>) n"
proof -
  let ?d = "(h_data h)(n := h_data h i, i := h_data h n)"
  note lc = larger_child [where m = m, OF i, folded n(1)]
  have le: "cmp m (h_data h n) (h_data h i)" using n(2) cmp_total by blast
  have old: "2 \<le> j \<Longrightarrow> j < h_e h \<Longrightarrow> j div 2 \<noteq> i \<Longrightarrow> cmp m (h_data h (j div 2)) (h_data h j)" for j
    using x unfolding heaped_above_def by blast
  have grand: "2 \<le> i \<Longrightarrow> cmp m (h_data h (i div 2)) (h_data h n)" using x lc unfolding heaped_above_def by blast
  have 1: "cmp m (?d (j div 2)) (?d j)" if j: "2 \<le> j" "j < h_e h" "j div 2 \<noteq> n" for j
  proof -
    consider "j = i" | "j = n" | "j div 2 = i" "j \<noteq> n" "j \<noteq> i" | "j div 2 \<noteq> i" "j \<noteq> i" "j \<noteq> n" by blast
    then show ?thesis
    proof cases
      case 1
      then have "i div 2 \<noteq> i" "i div 2 \<noteq> n" using j lc(2) by auto
      with 1 grand j lc(2) show ?thesis by simp
    next
      case 2
      with lc le show ?thesis by simp
    next
      case 3
      with lc(4) [OF j(2)] show ?thesis by simp
    next
      case 4
      with old [OF j(1,2)] j show ?thesis by simp
    qed
  qed
  have 2: "cmp m (?d (n div 2)) (?d j)" if j: "j < h_e h" "j div 2 = n" for j
  proof -
    have "2 \<le> j" "j \<noteq> n" "j \<noteq> i" "n \<noteq> i" using j lc i by auto
    with old [of j] j lc(1) show ?thesis by simp
  qed
  show ?thesis using 1 2 by (simp add: heaped_above_def)
qed

lemma swap_down_loop_inner:
  assumes "h_c h = cmp" "sound h" "1 \<le> i" "2 * i < h_e h"
  shows "swap_down_loop i h m = (if cmp m (h_data h i) (h_data h (next_index h m i)) then Some (i, h, m)
    else (case swap_entries (next_index h m i) i h m of None \<Rightarrow> None | Some (h', m') \<Rightarrow> swap_down_loop (next_index h m i) h' m'))"
proof -
  have "i \<le> (h_e h - 1) div 2" using assms(4) by auto
  moreover have "in_data h i" "in_data h (2 * i)" "2 * i + 1 \<le> h_e h - 1 \<longrightarrow> in_data h (2 * i + 1)"
    using in_data_sound [OF assms(2)] assms(3,4) by auto
  ultimately show ?thesis
    using assms larger_child(3) [OF assms(1,3,4), of m] by (subst swap_down_loop.simps) (simp add: Let_def)
qed

lemma swap_down_loop_ok:
  assumes "h_c h = cmp" "h_u h = upd" "sound h" "1 \<le> i" "heaped_above (cmp m) h i"
  shows "\<exists>k h' m'. swap_down_loop i h m = Some (k, h', m') \<and> heaped (cmp m) h' \<and> rearranged h m h' m'"
  using assms
proof (induction "h_e h - i" arbitrary: i h m rule: less_induct)
  case less
  show ?case
  proof (cases "2 * i < h_e h")
    case False
    then have "swap_down_loop i h m = Some (i, h, m)" using less.prems(4) by (subst swap_down_loop.simps) auto
    moreover have "heaped (cmp m) h" using less.prems(5) False unfolding heaped_above_def heaped_def
      by (metis add_lessD1 div_mult_mod_eq mult.commute)
    ultimately show ?thesis using rearranged_refl by blast
  next
    case i: True
    define n where "n = next_index h m i"
    note lc = larger_child [where m = m, OF less.prems(1,4) i, folded n_def]
    note unf = swap_down_loop_inner [OF less.prems(1,3,4) i, of m, folded n_def]
    show ?thesis
    proof (cases "cmp m (h_data h i) (h_data h n)")
      case True
      have "swap_down_loop i h m = Some (i, h, m)" using True unf by simp
      moreover have "heaped (cmp m) h"
        using less.prems(5) True lc(4) cmp_trans unfolding heaped_above_def heaped_def by metis
      ultimately show ?thesis using rearranged_refl by blast
    next
      case False
      let ?h = "h\<lparr>h_data := (h_data h)(n := h_data h i, i := h_data h n)\<rparr>"
      have ni: "1 \<le> n" "n < h_e h" "i < h_e h" "n \<noteq> i" using lc less.prems(4) by auto
      obtain m1 where m1: "swap_entries n i h m = Some (?h, m1)" "rearranged h m ?h m1"
        using swap_ok [OF less.prems(2,3) ni(1,2) less.prems(4) ni(3,4)] by blast
      have "swap_down_loop i h m = swap_down_loop n ?h m1" using False unf m1(1) by simp
      moreover have "heaped_above (cmp m1) ?h n"
        using heaped_above_step [OF less.prems(5,1,4) i n_def False] rearranged_fields(7) [OF m1(2)] by simp
      moreover have "h_e ?h - n < h_e h - i" using ni lc(2) by simp
      ultimately obtain k h' m' where "swap_down_loop i h m = Some (k, h', m')" "heaped (cmp m1) h'" "rearranged ?h m1 h' m'"
        using less.hyps [of ?h n m1] less.prems(1-3) ni(1) rearranged_fields(6) [OF m1(2)] by auto
      then show ?thesis using rearranged_fields(7) [OF m1(2)] rearranged_trans [OF m1(2)] by auto
    qed
  qed
qed

lemma heapify_ok:
  assumes "h_c h = cmp" "h_u h = upd" "sound h" "1 \<le> i" "i < h_e h" "heaped_except (cmp m) h i"
  shows "\<exists>k h' m'. heapify i h m = Some (k, h', m') \<and> heaped (cmp m) h' \<and> rearranged h m h' m'"
proof -
  obtain k h1 m1 where u: "swap_up_loop i h m = Some (k, h1, m1)" "1 \<le> k" "k < h_e h" "heaped_above (cmp m) h1 k" "rearranged h m h1 m1"
    using swap_up_loop_ok [OF assms] by blast
  note f = rearranged_fields [OF u(5)]
  have pre: "h_c h1 = cmp" "h_u h1 = upd" "sound h1" "heaped_above (cmp m1) h1 k"
    using assms(1-3) u(4) f by simp_all
  obtain k' h2 m2 where d: "swap_down_loop k h1 m1 = Some (k', h2, m2)" "heaped (cmp m1) h2" "rearranged h1 m1 h2 m2"
    using swap_down_loop_ok [OF pre(1-3) u(2) pre(4)] by blast
  have "heapify i h m = Some (k', h2, m2)"
    using u(1-3) d(1) assms(4,5) f(1) by (simp add: heapify_def swap_up_def swap_down_def)
  moreover have "heaped (cmp m) h2" using d(2) f(7) by simp
  ultimately show ?thesis using rearranged_trans [OF u(5) d(3)] by blast
qed

lemma heap_ok_rearranged:
  assumes r: "rearranged h m h' m'" and h: "h_c h = cmp" "h_u h = upd" "sound h" "indexed pos h m" and o: "heaped (cmp m) h'"
  shows "heap_ok cmp upd pos h' m'"
proof -
  have "indexed pos h' m'" using r h(4) unfolding rearranged_def by blast
  moreover have "heaped (cmp m') h'" unfolding rearranged_fields(7) [OF r] by (rule o)
  ultimately show ?thesis unfolding heap_ok_def rearranged_fields(3,4,6) [OF r] h(1,2) using h(3) by blast
qed

lemma heap_top:
  assumes "heap_ok cmp upd pos h m" "1 \<le> i" "i < h_e h"
  shows "cmp m (h_data h 1) (h_data h i)"
  using assms(2,3)
proof (induction i rule: less_induct)
  case (less i)
  show ?case
  proof (cases "i = 1")
    case True
    then show ?thesis using cmp_total by blast
  next
    case False
    then have i: "i div 2 < i" "1 \<le> i div 2" "2 \<le> i" using less.prems by auto
    then have "cmp m (h_data h (i div 2)) (h_data h i)" using assms(1) less.prems(2) by (simp add: heap_ok_def heaped_def)
    with less.IH [OF i(1,2)] i(1) less.prems(2) show ?thesis using cmp_trans by simp
  qed
qed

lemma heap_add_ok:
  assumes ok: "heap_ok cmp upd pos h m" and x: "x \<notin># elems h" and room: "h_e h < h_max_sz h" "4 * (h_e h + 1) \<le> data_bytes h"
  shows "\<exists>h' m'. heap_add h x m = Some (0, h', m') \<and> heap_ok cmp upd pos h' m' \<and> elems h' = add_mset x (elems h) \<and> cmp m' = cmp m"
proof -
  let ?h = "h\<lparr>h_data := (h_data h)(h_e h := x), h_e := h_e h + 1\<rparr>" and ?m = "upd x (h_e h) m"
  have h: "h_c h = cmp" "h_u h = upd" "sound h" "heaped (cmp m) h" "indexed pos h m" using ok by (auto simp: heap_ok_def)
  have e: "1 \<le> h_e h" using h(3) by (simp add: sound_def)
  have ne: "h_data h i \<noteq> x" if "1 \<le> i" "i < h_e h" for i using x that by (auto simp: in_elems)
  have s: "sound ?h" using room h(3) by (simp add: sound_def)
  have ix: "indexed pos ?h ?m" using h(5) ne by (auto simp: indexed_def pos_upd less_Suc_eq)
  have "i div 2 \<noteq> h_e h" if "i < h_e h + 1" for i using that e by auto
  moreover have "cmp m (h_data h (i div 2)) (h_data h i)" if "2 \<le> i" "i < h_e h" for i using h(4) that by (simp add: heaped_def)
  ultimately have x: "heaped_except (cmp ?m) ?h (h_e h)" by (simp add: heaped_except_def cmp_upd)
  obtain k h' m' where r: "heapify (h_e h) ?h ?m = Some (k, h', m')" "heaped (cmp ?m) h'" "rearranged ?h ?m h' m'"
    using heapify_ok [of ?h "h_e h" ?m] h(1,2) s e x by auto
  have "heap_add h x m = Some (0, h', m')" using r(1) room h(2) by (simp add: heap_add_def in_data_def)
  moreover have "heap_ok cmp upd pos h' m'" by (rule heap_ok_rearranged [OF r(3)]) (use h s ix r(2) in simp_all)
  moreover have "elems h' = add_mset x (elems h)" using r(3) elems_add [OF e, of x] by (simp add: rearranged_def)
  ultimately show ?thesis using rearranged_fields(7) [OF r(3)] by (auto simp: cmp_upd)
qed

lemma indexed_upd_other: "indexed pos h m \<Longrightarrow> x \<notin># elems h \<Longrightarrow> indexed pos h (upd x k m)"
  by (auto simp: indexed_def pos_upd in_elems)

lemma indexed_closed_gap:
  assumes ix: "indexed pos h m" and i: "1 \<le> i" "i < h_e h" and m': "\<And>x. x \<noteq> h_data h i \<Longrightarrow> x \<noteq> h_data h (h_e h - 1) \<Longrightarrow> pos m' x = pos m x"
    "i \<noteq> h_e h - 1 \<Longrightarrow> pos m' (h_data h (h_e h - 1)) = i"
  shows "indexed pos (closed_gap i h) m'"
  unfolding indexed_def
proof (intro allI impI)
  fix j assume j: "1 \<le> j" "j < h_e (closed_gap i h)"
  then have j': "j < h_e h - 1" "j < h_e h" by (simp_all add: closed_gap_def)
  show "pos m' (h_data (closed_gap i h) j) = j"
  proof (cases "j = i")
    case True
    then show ?thesis using m'(2) j' by (simp add: closed_gap_def)
  next
    case False
    have "h_data h j \<noteq> h_data h i" using indexed_distinct [OF ix, of j i] False j i j' by auto
    moreover have "h_data h j \<noteq> h_data h (h_e h - 1)" using indexed_distinct [OF ix, of j "h_e h - 1"] j j' by auto
    ultimately show ?thesis using m'(1) ix j j' False by (simp add: closed_gap_def indexed_def)
  qed
qed

lemma heap_highest_ok:
  assumes ok: "heap_ok cmp upd pos h m" and e: "1 < h_e h"
  shows "\<exists>h' m'. heap_highest h m = Some (Some (h_data h 1), h', m') \<and> heap_ok cmp upd pos h' m' \<and> elems h' = elems h - {#h_data h 1#}
    \<and> cmp m' = cmp m \<and> pos m' (h_data h 1) = 0"
proof -
  let ?r = "h_data h 1" and ?h = "closed_gap 1 h" and ?m = "upd (h_data h (h_e h - 1)) 1 m"
  have h: "h_c h = cmp" "h_u h = upd" "sound h" "heaped (cmp m) h" "indexed pos h m" using ok by (auto simp: heap_ok_def)
  have ix: "indexed pos ?h ?m" by (rule indexed_closed_gap [OF h(5)]) (use e in \<open>auto simp: pos_upd\<close>)
  have s: "sound ?h" by (rule sound_closed_gap [OF h(3)]) (use e in simp)
  have "heaped_above (cmp ?m) ?h 1" using h(4) by (auto simp: heaped_above_def heaped_def closed_gap_def cmp_upd)
  then obtain k h' m' where r: "swap_down_loop 1 ?h ?m = Some (k, h', m')" "heaped (cmp ?m) h'" "rearranged ?h ?m h' m'"
    using swap_down_loop_ok [of ?h 1 ?m] h(1,2) s by (auto simp: closed_gap_def)
  have el: "elems h' = elems h - {#?r#}" using r(3) elems_closed_gap [of 1 h] e by (simp add: rearranged_def)
  have ok': "heap_ok cmp upd pos h' m'" by (rule heap_ok_rearranged [OF r(3)]) (use h s ix r(2) in \<open>simp_all add: closed_gap_def\<close>)
  have "?r \<notin># elems h'" using gone [OF h(5), of 1] e el elems_closed_gap [of 1 h] by simp
  then have "heap_ok cmp upd pos h' (upd ?r 0 m')" using ok' indexed_upd_other by (simp add: heap_ok_def cmp_upd)
  moreover have "heap_highest h m = Some (Some ?r, h', upd ?r 0 m')"
    using r(1) e h(2) in_data_sound [OF h(3), of 1] in_data_sound [OF h(3), of "h_e h - 1"] rearranged_fields(4) [OF r(3)]
    by (auto simp: heap_highest_def closed_gap_def swap_down_def Let_def)
  ultimately show ?thesis using el rearranged_fields(7) [OF r(3)] by (auto simp: cmp_upd pos_upd)
qed

lemma heap_adjust_ok:
  assumes h: "h_c h = cmp" "h_u h = upd" "sound h" "indexed pos h m" and i: "1 \<le> i" "i < h_e h" and x: "heaped_except (cmp m) h i"
  shows "\<exists>h' m'. heap_adjust i h m = Some (h', m') \<and> heap_ok cmp upd pos h' m' \<and> elems h' = elems h \<and> cmp m' = cmp m
    \<and> (\<forall>y. y \<notin># elems h \<longrightarrow> pos m' y = pos m y)"
proof -
  obtain k h' m' where r: "heapify i h m = Some (k, h', m')" "heaped (cmp m) h'" "rearranged h m h' m'"
    using heapify_ok [OF h(1-3) i x] by blast
  have "heap_adjust i h m = Some (h', m')" using r(1) i by (simp add: heap_adjust_def)
  moreover have "heap_ok cmp upd pos h' m'" by (rule heap_ok_rearranged [OF r(3) h r(2)])
  ultimately show ?thesis using r(3) unfolding rearranged_def by blast
qed

text \<open>The key of the entry at \<open>i\<close> has changed in any way.\<close>

lemma heaped_except_changed:
  assumes ok: "heap_ok cmp upd pos h m0" and i: "1 \<le> i" "i < h_e h"
    and ch: "\<And>a b. a \<noteq> h_data h i \<Longrightarrow> b \<noteq> h_data h i \<Longrightarrow> cmp m a b = cmp m0 a b"
  shows "heaped_except (cmp m) h i"
proof -
  have h: "heaped (cmp m0) h" "indexed pos h m0" using ok by (auto simp: heap_ok_def)
  have o: "cmp m0 (h_data h (j div 2)) (h_data h j)" if "2 \<le> j" "j < h_e h" for j using h(1) that by (simp add: heaped_def)
  have ne: "h_data h j \<noteq> h_data h i" if "1 \<le> j" "j < h_e h" "j \<noteq> i" for j using indexed_distinct [OF h(2)] that i by blast
  have "cmp m (h_data h (j div 2)) (h_data h j)" if j: "2 \<le> j" "j < h_e h" "j \<noteq> i" "j div 2 \<noteq> i" for j
    using o [OF j(1,2)] ch ne [of j] ne [of "j div 2"] j by simp
  moreover have "cmp m (h_data h (i div 2)) (h_data h j)" if j: "2 \<le> i" "j < h_e h" "j div 2 = i" for j
  proof -
    have jj: "2 \<le> j" "j \<noteq> i" using j by linarith+
    have "cmp m0 (h_data h (i div 2)) (h_data h j)" using cmp_trans [OF o [OF j(1) i(2)]] o [OF jj(1) j(2)] j(3) by simp
    then show ?thesis using ch ne [of j] ne [of "i div 2"] jj j i by simp
  qed
  ultimately show ?thesis by (simp add: heaped_except_def)
qed

lemma heap_remove_ok:
  assumes ok: "heap_ok cmp upd pos h m" and i: "1 \<le> i" "i < h_e h"
  shows "\<exists>h' m'. heap_remove i h m = Some (Some (h_data h i), h', m') \<and> heap_ok cmp upd pos h' m' \<and> elems h' = elems h - {#h_data h i#}
    \<and> cmp m' = cmp m \<and> pos m' (h_data h i) = 0"
proof -
  let ?r = "h_data h i" and ?l = "h_e h - 1" and ?h = "closed_gap i h"
  have h: "h_c h = cmp" "h_u h = upd" "sound h" "heaped (cmp m) h" "indexed pos h m" using ok by (auto simp: heap_ok_def)
  have e: "2 \<le> h_e h" using i by linarith
  note s = sound_closed_gap [OF h(3) e, of i] and el = elems_closed_gap [OF i] and g = gone [OF h(5) i]
  show ?thesis
  proof (cases "i = ?l")
    case True
    have h': "h\<lparr>h_e := ?l\<rparr> = ?h" using True by (simp add: closed_gap_def fun_upd_idem)
    have "heap_remove i h m = Some (Some ?r, h\<lparr>h_e := ?l\<rparr>, upd ?r 0 m)"
      using True i e h(2) in_data_sound [OF h(3) i] by (simp add: heap_remove_def Let_def)
    then have "heap_remove i h m = Some (Some ?r, ?h, upd ?r 0 m)" by (simp only: h')
    moreover have "indexed pos ?h (upd ?r 0 m)" by (rule indexed_closed_gap [OF h(5) i]) (use True in \<open>simp_all add: pos_upd\<close>)
    moreover have "heaped (cmp m) ?h" using h(4) True by (auto simp: heaped_def closed_gap_def)
    ultimately show ?thesis using h(1,2) s el by (auto simp: heap_ok_def cmp_upd pos_upd closed_gap_def)
  next
    case False
    let ?m = "upd (h_data h ?l) i (upd ?r 0 m)"
    have lt: "i < h_e ?h" using False i by (simp add: closed_gap_def)
    have ix: "indexed pos ?h ?m" by (rule indexed_closed_gap [OF h(5) i]) (auto simp: pos_upd)
    have x: "heaped_except (cmp ?m) ?h i" using heaped_closed_gap [OF h(4) i] cmp_trans by (simp add: cmp_upd)
    obtain h' m' where r: "heap_adjust i ?h ?m = Some (h', m')" "heap_ok cmp upd pos h' m'" "elems h' = elems ?h" "cmp m' = cmp ?m"
        "\<forall>y. y \<notin># elems ?h \<longrightarrow> pos m' y = pos ?m y"
      using heap_adjust_ok [of ?h ?m i] h(1,2) s ix i(1) lt x by (auto simp: closed_gap_def)
    have "heap_remove i h m = Some (Some ?r, h', m')"
      using False i e h(2) in_data_sound [OF h(3) i] in_data_sound [OF h(3), of ?l] r(1) by (auto simp: heap_remove_def closed_gap_def Let_def)
    moreover have "?r \<noteq> h_data h ?l"
    proof
      assume "?r = h_data h ?l"
      then have "i = ?l" using i e by (intro indexed_distinct [OF h(5) i]) simp_all
      with False show False ..
    qed
    ultimately show ?thesis using r el g by (auto simp: cmp_upd pos_upd)
  qed
qed

end

subsection \<open>The clients in the protection-domain policy\<close>

text \<open>The fields of components, protection domains and edges between them that the heaps use.\<close>

record policy_mem =
  comp_edge_weight :: "nat \<Rightarrow> int"
  comp_prio_q_idx :: "nat \<Rightarrow> nat"
  pd_mc_amnt :: "nat \<Rightarrow> int"
  pd_prio_q_idx :: "nat \<Rightarrow> nat"
  pde_weight :: "nat \<Rightarrow> int"
  pde_prio_q_idx :: "nat \<Rightarrow> nat"

definition mc_cmp :: "policy_mem \<Rightarrow> nat \<Rightarrow> nat \<Rightarrow> bool" where
  "mc_cmp m c1 c2 \<longleftrightarrow> comp_edge_weight m c1 \<ge> comp_edge_weight m c2"

definition mc_update :: "nat \<Rightarrow> nat \<Rightarrow> policy_mem \<Rightarrow> policy_mem" where
  "mc_update a i m = m\<lparr>comp_prio_q_idx := (comp_prio_q_idx m)(a := i)\<rparr>"

definition pd_cmp :: "policy_mem \<Rightarrow> nat \<Rightarrow> nat \<Rightarrow> bool" where
  "pd_cmp m pd1 pd2 \<longleftrightarrow> pd_mc_amnt m pd1 \<le> pd_mc_amnt m pd2"

definition pd_update :: "nat \<Rightarrow> nat \<Rightarrow> policy_mem \<Rightarrow> policy_mem" where
  "pd_update a i m = m\<lparr>pd_prio_q_idx := (pd_prio_q_idx m)(a := i)\<rparr>"

definition pde_cmp :: "policy_mem \<Rightarrow> nat \<Rightarrow> nat \<Rightarrow> bool" where
  "pde_cmp m e1 e2 \<longleftrightarrow> pde_weight m e1 \<ge> pde_weight m e2"

definition pde_update :: "nat \<Rightarrow> nat \<Rightarrow> policy_mem \<Rightarrow> policy_mem" where
  "pde_update a i m = m\<lparr>pde_prio_q_idx := (pde_prio_q_idx m)(a := i)\<rparr>"

interpretation mc_heap: heap_client mc_cmp mc_update comp_prio_q_idx
  by unfold_locales (auto simp: mc_cmp_def mc_update_def fun_eq_iff)

interpretation pd_heap: heap_client pd_cmp pd_update pd_prio_q_idx
  by unfold_locales (auto simp: pd_cmp_def pd_update_def fun_eq_iff)

interpretation pde_heap: heap_client pde_cmp pde_update pde_prio_q_idx
  by unfold_locales (auto simp: pde_cmp_def pde_update_def fun_eq_iff)

subsection \<open>Properties\<close>

text \<open>
  The memory for the entries is three bytes short: the entry that fills the heap lies outside it.
\<close>

lemma heap_add_last_slot:
  assumes "h_max_sz h = n + 1" "data_bytes h = n * 4 + 1" "h_e h = n"
  shows "heap_add h x m = None"
  using assms by (simp add: heap_add_def in_data_def Let_def)

text \<open>
  C9.  The heap implements a priority queue of entries that know their place, for every client whose
  comparison is a total preorder and whose update routine stores positions.  Adding an entry adds it;
  taking the highest returns an entry that is not below any other, removes exactly that one and marks it
  as outside, and on an empty heap returns nothing; an entry can be removed by its position; and after
  any change to the key of one entry \<^verbatim>\<open>heap_adjust\<close> makes the same entries a heap again.  Each time all
  entries stay within the array and every entry knows its place.
\<close>

theorem heap_refines_priority_queue:
  assumes cl: "heap_client cmp upd pos" and ok: "heap_ok cmp upd pos h m"
  shows "(x \<notin># elems h \<and> h_e h < h_max_sz h \<and> 4 * (h_e h + 1) \<le> data_bytes h \<longrightarrow>
      (\<exists>h' m'. heap_add h x m = Some (0, h', m') \<and> heap_ok cmp upd pos h' m' \<and> elems h' = add_mset x (elems h)))
    \<and> (h_e h = 1 \<longrightarrow> heap_highest h m = Some (None, h, m))
    \<and> (1 < h_e h \<longrightarrow> (\<exists>r h' m'. heap_highest h m = Some (Some r, h', m') \<and> heap_ok cmp upd pos h' m'
        \<and> r \<in># elems h \<and> (\<forall>y \<in># elems h. cmp m r y) \<and> elems h' = elems h - {#r#} \<and> pos m' r = 0))
    \<and> (r \<in># elems h \<longrightarrow> (\<exists>h' m'. heap_remove (pos m r) h m = Some (Some r, h', m') \<and> heap_ok cmp upd pos h' m'
        \<and> elems h' = elems h - {#r#} \<and> pos m' r = 0))
    \<and> (r \<in># elems h \<and> pos m' = pos m \<and> (\<forall>a b. a \<noteq> r \<longrightarrow> b \<noteq> r \<longrightarrow> cmp m' a b = cmp m a b) \<longrightarrow>
      (\<exists>h' m''. heap_adjust (pos m r) h m' = Some (h', m'') \<and> heap_ok cmp upd pos h' m'' \<and> elems h' = elems h \<and> cmp m'' = cmp m'))"
proof (intro conjI impI)
  note ix = ok [unfolded heap_ok_def, THEN conjunct2, THEN conjunct2, THEN conjunct2, THEN conjunct2]
  have at: "\<exists>i. 1 \<le> i \<and> i < h_e h \<and> h_data h i = y \<and> pos m y = i" if "y \<in># elems h" for y
    using that ix by (auto simp: in_elems indexed_def)
  show "\<exists>h' m'. heap_add h x m = Some (0, h', m') \<and> heap_ok cmp upd pos h' m' \<and> elems h' = add_mset x (elems h)"
    if "x \<notin># elems h \<and> h_e h < h_max_sz h \<and> 4 * (h_e h + 1) \<le> data_bytes h"
    using heap_client.heap_add_ok [OF cl ok] that by blast
  show "heap_highest h m = Some (None, h, m)" if "h_e h = 1" using that by (simp add: heap_highest_def)
  show "\<exists>r h' m'. heap_highest h m = Some (Some r, h', m') \<and> heap_ok cmp upd pos h' m'
        \<and> r \<in># elems h \<and> (\<forall>y \<in># elems h. cmp m r y) \<and> elems h' = elems h - {#r#} \<and> pos m' r = 0" if e: "1 < h_e h"
  proof -
    have "h_data h 1 \<in># elems h" using e by (auto simp: in_elems)
    moreover have "\<forall>y \<in># elems h. cmp m (h_data h 1) y" using heap_client.heap_top [OF cl ok] at by metis
    ultimately show ?thesis using heap_client.heap_highest_ok [OF cl ok e] by blast
  qed
  show "\<exists>h' m'. heap_remove (pos m r) h m = Some (Some r, h', m') \<and> heap_ok cmp upd pos h' m'
        \<and> elems h' = elems h - {#r#} \<and> pos m' r = 0" if "r \<in># elems h"
    using at [OF that] heap_client.heap_remove_ok [OF cl ok] by metis
  show "\<exists>h' m''. heap_adjust (pos m r) h m' = Some (h', m'') \<and> heap_ok cmp upd pos h' m'' \<and> elems h' = elems h \<and> cmp m'' = cmp m'"
    if c: "r \<in># elems h \<and> pos m' = pos m \<and> (\<forall>a b. a \<noteq> r \<longrightarrow> b \<noteq> r \<longrightarrow> cmp m' a b = cmp m a b)"
  proof -
    obtain i where i: "1 \<le> i" "i < h_e h" "h_data h i = r" "pos m r = i" using at c by blast
    have "heaped_except (cmp m') h i" by (rule heap_client.heaped_except_changed [OF cl ok i(1,2)]) (use c i(3) in simp)
    moreover have "indexed pos h m'" using ix c by (simp add: indexed_def)
    ultimately show ?thesis
      using heap_client.heap_adjust_ok [OF cl, of h m' i] ok i by (auto simp: heap_ok_def)
  qed
qed

text \<open>A heap of the two protection domains 7 and 8 whose cuts cost 30 and 20.\<close>

definition heap_example :: "(nat, policy_mem) heap" where
  "heap_example = \<lparr>h_e = 3, h_max_sz = 65, h_c = pd_cmp, h_u = pd_update, h_data = (\<lambda>_. 0)(1 := 8, 2 := 7), data_bytes = 257\<rparr>"

definition policy_example :: policy_mem where
  "policy_example = \<lparr>comp_edge_weight = (\<lambda>_. 0), comp_prio_q_idx = (\<lambda>_. 0), pd_mc_amnt = (\<lambda>_. 0)(7 := 30, 8 := 20),
     pd_prio_q_idx = (\<lambda>_. 0)(7 := 2, 8 := 1), pde_weight = (\<lambda>_. 0), pde_prio_q_idx = (\<lambda>_. 0)\<rparr>"

theorem heap_refines_priority_queue_witness:
  "heap_client pd_cmp pd_update pd_prio_q_idx \<and> heap_ok pd_cmp pd_update pd_prio_q_idx heap_example policy_example
   \<and> (\<exists>h' m'. heap_add heap_example 9 policy_example = Some (0, h', m') \<and> elems h' = {#7, 8, 9#})
   \<and> (\<exists>r h' m'. heap_highest heap_example policy_example = Some (Some r, h', m') \<and> pd_prio_q_idx m' r = 0)"
proof -
  have ok: "heap_ok pd_cmp pd_update pd_prio_q_idx heap_example policy_example"
    by (auto simp: heap_ok_def heap_example_def sound_def heaped_def indexed_def policy_example_def pd_cmp_def)
  have el: "elems heap_example = {#8, 7#}" by (simp add: elems_def heap_example_def upt_rec)
  have f: "h_e heap_example = 3" "h_max_sz heap_example = 65" "data_bytes heap_example = 257" by (simp_all add: heap_example_def)
  note t = heap_refines_priority_queue [OF pd_heap.heap_client_axioms ok, of 9]
  have "\<exists>h' m'. heap_add heap_example 9 policy_example = Some (0, h', m') \<and> elems h' = {#7, 8, 9#}"
    using t [THEN conjunct1] el f by (auto simp: add_mset_commute)
  moreover have "\<exists>r h' m'. heap_highest heap_example policy_example = Some (Some r, h', m') \<and> pd_prio_q_idx m' r = 0"
    using t [THEN conjunct2, THEN conjunct2, THEN conjunct1] f(1) by auto
  ultimately show ?thesis using ok pd_heap.heap_client_axioms by blast
qed

end
