(* ===== verification/Cos_List.thy ===== *)
theory Cos_List
  imports Cos_Prelude
begin

text \<open>
  The circular doubly linked lists of the components (\<^verbatim>\<open>components/include/cos_list.h\<close>).  A pair of link
  fields is two functions on the nodes.  The macros are the assignments in their order; each later
  assignment reads the links as the earlier ones left them.

  A list is a ring of nodes.  The lemmas give each macro as an operation on the list of the nodes of a
  ring, and say that the rings of other nodes stay as they are.
\<close>

record 'n links =
  lnext :: "'n \<Rightarrow> 'n"
  lprev :: "'n \<Rightarrow> 'n"

definition INIT_LIST :: "'n \<Rightarrow> 'n links \<Rightarrow> 'n links" where
  "INIT_LIST obj l = l\<lparr>lnext := (lnext l)(obj := obj), lprev := (lprev l)(obj := obj)\<rparr>"

text \<open>The last three assignments stand apart: a conditional in front of the macro guards the first
alone.\<close>

definition ADD_LIST_rest :: "'n \<Rightarrow> 'n \<Rightarrow> 'n links \<Rightarrow> 'n links" where
  "ADD_LIST_rest head new l =
     (let l = l\<lparr>lprev := (lprev l)(new := head)\<rparr>;
          l = l\<lparr>lnext := (lnext l)(head := new)\<rparr>
      in l\<lparr>lprev := (lprev l)(lnext l new := new)\<rparr>)"

definition ADD_LIST :: "'n \<Rightarrow> 'n \<Rightarrow> 'n links \<Rightarrow> 'n links" where
  "ADD_LIST head new l = ADD_LIST_rest head new (l\<lparr>lnext := (lnext l)(new := lnext l head)\<rparr>)"

definition REM_LIST :: "'n \<Rightarrow> 'n links \<Rightarrow> 'n links" where
  "REM_LIST obj l =
     (let l = l\<lparr>lprev := (lprev l)(lnext l obj := lprev l obj)\<rparr>;
          l = l\<lparr>lnext := (lnext l)(lprev l obj := lnext l obj)\<rparr>
      in INIT_LIST obj l)"

definition FIRST_LIST :: "'n \<Rightarrow> 'n links \<Rightarrow> 'n" where "FIRST_LIST obj l = lnext l obj"
definition LAST_LIST :: "'n \<Rightarrow> 'n links \<Rightarrow> 'n" where "LAST_LIST obj l = lprev l obj"
definition EMPTY_LIST :: "'n \<Rightarrow> 'n links \<Rightarrow> bool" where "EMPTY_LIST obj l \<longleftrightarrow> lnext l obj = obj"

definition ADD_END_LIST :: "'n \<Rightarrow> 'n \<Rightarrow> 'n links \<Rightarrow> 'n links" where
  "ADD_END_LIST head new l = ADD_LIST (LAST_LIST head l) new l"

subsection \<open>Rings\<close>

definition ring :: "'n links \<Rightarrow> 'n list \<Rightarrow> bool" where
  "ring l xs \<longleftrightarrow> dring (Some \<circ> lnext l) (Some \<circ> lprev l) xs"

lemma ring_distinct: "ring l xs \<Longrightarrow> distinct xs"
  by (cases xs) (auto simp: ring_def)

lemma ring_not_Nil [simp]: "\<not> ring l []"
  by (simp add: ring_def)

lemma ring_rotate: "ring l (xs @ ys) \<longleftrightarrow> ring l (ys @ xs)"
  unfolding ring_def by (rule dring_rotate)

lemma ring_links:
  assumes "ring l (x # xs)"
  shows "lnext l x = hd (xs @ [x])" "lprev l x = last (x # xs)"
  using dring_links(1,2) [OF assms [unfolded ring_def]] by simp_all

lemma ring_single: "ring l [x] \<longleftrightarrow> lnext l x = x \<and> lprev l x = x"
  by (auto simp: ring_def)

lemma ring_cong:
  "(\<And>x. x \<in> set xs \<Longrightarrow> lnext l x = lnext l' x) \<Longrightarrow> (\<And>x. x \<in> set xs \<Longrightarrow> lprev l x = lprev l' x) \<Longrightarrow>
   ring l xs \<longleftrightarrow> ring l' xs"
  unfolding ring_def by (rule dring_cong) simp_all

lemma ring_fseg: "ring l (h # xs) \<Longrightarrow> fseg (Some \<circ> lnext l) h xs h"
  unfolding ring_def dring.simps by (blast intro: dseg_fseg)

lemma ring_FIRST: "ring l (h # xs) \<Longrightarrow> FIRST_LIST h l = hd (xs @ [h])"
  by (simp add: FIRST_LIST_def ring_links)

lemma ring_LAST: "ring l (h # xs) \<Longrightarrow> LAST_LIST h l = last (h # xs)"
  by (simp add: LAST_LIST_def ring_links)

lemma ring_EMPTY: "ring l (h # xs) \<Longrightarrow> EMPTY_LIST h l \<longleftrightarrow> xs = []"
  using ring_distinct [of l "h # xs"] by (cases xs) (auto simp: EMPTY_LIST_def ring_links)

lemma ring_INIT: "ring (INIT_LIST x l) [x]"
  by (simp add: ring_single INIT_LIST_def)

lemma ring_INIT_other: "x \<notin> set ys \<Longrightarrow> ring (INIT_LIST x l) ys \<longleftrightarrow> ring l ys"
  by (rule ring_cong) (auto simp: INIT_LIST_def)

lemma ADD_LIST_links:
  assumes "new \<noteq> head"
  shows "lnext (ADD_LIST head new l) = (lnext l)(new := lnext l head, head := new)"
    "lprev (ADD_LIST head new l) = (lprev l)(new := head, lnext l head := new)"
  using assms by (simp_all add: ADD_LIST_def ADD_LIST_rest_def Let_def)

lemma ring_ADD:
  assumes "ring l (h # xs)" "new \<notin> set (h # xs)"
  shows "ring (ADD_LIST h new l) (h # new # xs)"
proof -
  obtain y ys where y: "xs @ [h] = y # ys" by (cases "xs @ [h]") auto
  have "dring (Some \<circ> lnext l) (Some \<circ> lprev l) (y # ys)"
    using assms(1) ring_rotate [of l "[h]" xs] y by (simp add: ring_def)
  moreover have "new \<notin> set (y # ys)" using assms(2) arg_cong [OF y, of set] by auto
  moreover have "last (y # ys) = h" using arg_cong [OF y, of last] by simp
  ultimately have "dring ((Some \<circ> lnext l)(new := Some y, h := Some new)) ((Some \<circ> lprev l)(new := Some h, y := Some new)) (new # y # ys)"
    using dring_insert [of "Some \<circ> lnext l" "Some \<circ> lprev l" y ys new] by simp
  moreover have "lnext l h = y" using ring_links(1) [OF assms(1)] y by (simp add: hd_append)
  ultimately have "ring (ADD_LIST h new l) ((new # xs) @ [h])"
    using assms(2) y by (simp add: ring_def ADD_LIST_links fun_upd_comp)
  then show ?thesis using ring_rotate [of _ "[h]" "new # xs"] by simp
qed

lemma ring_ADD_END:
  assumes "ring l (h # xs)" "new \<notin> set (h # xs)"
  shows "ring (ADD_LIST (LAST_LIST h l) new l) (h # xs @ [new])"
proof (cases xs rule: rev_cases)
  case Nil
  then show ?thesis using ring_ADD [OF assms] assms(1) ring_rotate [of _ "[h]" "[new]"] by (simp add: ring_LAST)
next
  case (snoc ys y)
  then have "ring l (y # h # ys)" using assms(1) ring_rotate [of l "h # ys" "[y]"] by simp
  from ring_ADD [OF this, of new] assms(2) snoc have "ring (ADD_LIST y new l) ([y, new] @ h # ys)" by simp
  then have "ring (ADD_LIST y new l) ((h # ys) @ [y, new])" by (subst ring_rotate)
  then show ?thesis using snoc assms(1) by (simp add: ring_LAST)
qed

lemma REM_LIST_links:
  assumes "ring l (x # xs)" "xs \<noteq> []"
  shows "lnext (REM_LIST x l) = (lnext l)(last xs := hd xs, x := x)"
    "lprev (REM_LIST x l) = (lprev l)(hd xs := last xs, x := x)"
proof -
  have "hd xs \<noteq> x" using assms ring_distinct [OF assms(1)] by (cases xs) auto
  moreover have "lnext l x = hd xs" "lprev l x = last xs" using ring_links [OF assms(1)] assms(2) by simp_all
  ultimately show "lnext (REM_LIST x l) = (lnext l)(last xs := hd xs, x := x)"
    "lprev (REM_LIST x l) = (lprev l)(hd xs := last xs, x := x)"
    by (simp_all add: REM_LIST_def INIT_LIST_def Let_def)
qed

lemma ring_REM_head:
  assumes "ring l (x # xs)" "xs \<noteq> []"
  shows "ring (REM_LIST x l) xs"
  using dring_remove [OF assms(1) [unfolded ring_def] assms(2)] REM_LIST_links [OF assms]
  by (simp add: ring_def fun_upd_comp)

lemma ring_REM:
  assumes "ring l (h # xs @ x # ys)"
  shows "ring (REM_LIST x l) (h # xs @ ys)"
proof -
  have "ring l (x # ys @ h # xs)" using assms ring_rotate [of l "h # xs" "x # ys"] by simp
  then have "ring (REM_LIST x l) (ys @ h # xs)" by (rule ring_REM_head) simp
  then show ?thesis using ring_rotate [of _ ys "h # xs"] by simp
qed

lemma REM_LIST_alone: "ring l [x] \<Longrightarrow> REM_LIST x l = l"
  by (cases l) (auto simp: REM_LIST_def INIT_LIST_def Let_def ring_single intro!: fun_upd_idem)

lemma ring_REM_self: "ring (REM_LIST x l) [x]"
  by (simp add: REM_LIST_def Let_def ring_INIT)

text \<open>What the macros leave alone.\<close>

lemma ring_in: "ring l xs \<Longrightarrow> x \<in> set xs \<Longrightarrow> lnext l x \<in> set xs \<and> lprev l x \<in> set xs"
proof -
  assume r: "ring l xs" and "x \<in> set xs"
  then obtain as bs where xs: "xs = as @ x # bs" by (meson split_list)
  then have q: "ring l (x # bs @ as)" using r ring_rotate [of l as "x # bs"] by simp
  have "hd ((bs @ as) @ [x]) \<in> set ((bs @ as) @ [x])" by (rule hd_in_set) simp
  moreover have "last (x # bs @ as) \<in> set (x # bs @ as)" by (rule last_in_set) simp
  moreover have "set ((bs @ as) @ [x]) = set xs" "set (x # bs @ as) = set xs" using xs by auto
  ultimately show ?thesis unfolding ring_links [OF q] by blast
qed

lemma ring_ADD_other:
  assumes "ring l (h # xs)" "new \<notin> set ys" "set (h # xs) \<inter> set ys = {}"
  shows "ring (ADD_LIST h new l) ys \<longleftrightarrow> ring l ys"
proof -
  have "lnext l h \<notin> set ys" "h \<notin> set ys" using ring_in [OF assms(1), of h] assms(3) by auto
  then have ne: "x \<noteq> new" "x \<noteq> h" "x \<noteq> lnext l h" if "x \<in> set ys" for x using that assms(2) by blast+
  show ?thesis
    by (rule ring_cong) (simp_all add: ADD_LIST_def ADD_LIST_rest_def Let_def ne)
qed

lemma ring_REM_other:
  assumes "ring l xs" "x \<in> set xs" "set xs \<inter> set ys = {}"
  shows "ring (REM_LIST x l) ys \<longleftrightarrow> ring l ys"
proof -
  have "lnext l x \<notin> set ys" "lprev l x \<notin> set ys" "x \<notin> set ys"
    using ring_in [OF assms(1,2)] assms(2,3) by auto
  then have ne: "y \<noteq> x" "y \<noteq> lnext l x" "y \<noteq> lprev l x" if "y \<in> set ys" for y using that by blast+
  show ?thesis
    by (rule ring_cong) (simp_all add: REM_LIST_def INIT_LIST_def Let_def ne)
qed

end
