(* ===== verification/Cos_Scheduler.thy ===== *)
theory Cos_Scheduler
  imports Event_Queue Cos_List
begin

text \<open>
  The scheduler library of the components (\<^verbatim>\<open>components/implementation/sched/cos_scheduler.h\<close> and
  \<^verbatim>\<open>cos_scheduler.c\<close>): thread structures and their lists, groups, events in the page shared with the
  kernel, critical sections and dependencies between threads.

  A \<^verbatim>\<open>struct sched_thd\<close> is one of the threads of the table, a head of a run queue or the head of the list
  of servers, of blocked threads or of upcall threads at rest.  The four pairs of link fields are four \<open>links\<close>.  \<open>notif\<close> is the shared page
  \<^verbatim>\<open>cos_sched_notifications\<close>.  The atomic exchanges on that page are single steps.  Answers of the kernel
  to \<^verbatim>\<open>cos_sched_cntl\<close> are arguments.
\<close>

subsection \<open>Structures\<close>

definition THD_BLOCKED :: u16 where "THD_BLOCKED = 0x1"
definition THD_READY :: u16 where "THD_READY = 0x2"
definition THD_FREE :: u16 where "THD_FREE = 0x4"
definition THD_GRP :: u16 where "THD_GRP = 0x8"
definition THD_MEMBER :: u16 where "THD_MEMBER = 0x10"
definition THD_UC_READY :: u16 where "THD_UC_READY = 0x40"
definition THD_SUSPENDED :: u16 where "THD_SUSPENDED = 0x80"
definition THD_DEPENDENCY :: u16 where "THD_DEPENDENCY = 0x100"
definition THD_DYING :: u16 where "THD_DYING = 0x200"
definition COS_SCHED_EVT_FREE :: u8 where "COS_SCHED_EVT_FREE = 0x1"

lemmas THD_flag_defs = THD_BLOCKED_def THD_READY_def THD_FREE_def THD_GRP_def THD_MEMBER_def
  THD_UC_READY_def THD_SUSPENDED_def THD_DEPENDENCY_def THD_DYING_def

datatype sched_node = Runnable nat | Thd nat | Servers | Blocked_head | Upcall_deactive

record sched_accounting =
  C_amnt :: u32
  T_amnt :: u32
  C_used :: u32
  T_exp :: u32
  a_ticks :: u32
  prev_ticks :: u32
  cycles :: "64 word"
  pol_cycles :: "64 word"

record sched_thd =
  st_flags :: u16
  st_id :: nat
  evt_id :: nat
  accounting :: sched_accounting
  priority :: u16
  urgency :: u16
  st_event :: nat
  wake_cnt :: int
  blocking_component :: nat
  contended_component :: nat
  dependency_thd :: "sched_node option"
  block_time :: "64 word"
  cevt_flags :: u32
  group :: "sched_node option"
  cid :: nat
  tick :: "64 word"
  wakeup_tick :: "64 word"

record sched_lib =
  thds :: "sched_node \<Rightarrow> sched_thd"
  sched_thd_map :: "nat \<Rightarrow> sched_node option"
  sched_map_evt_thd :: "nat \<Rightarrow> sched_node option"
  holding_thd :: "nat \<Rightarrow> sched_node option"
  prio_l :: "sched_node links"
  sched_l :: "sched_node links"
  grp_l :: "sched_node links"
  cevt_l :: "sched_node links"
  notif :: cos_sched_data_area
  cos_curr_evt :: nat

definition upd_sthd :: "sched_node \<Rightarrow> (sched_thd \<Rightarrow> sched_thd) \<Rightarrow> 'z sched_lib_scheme \<Rightarrow> 'z sched_lib_scheme" where
  "upd_sthd n f s = s\<lparr>thds := (thds s)(n := f (thds s n))\<rparr>"

definition upd_nevt :: "nat \<Rightarrow> (cos_sched_events \<Rightarrow> cos_sched_events) \<Rightarrow> 'z sched_lib_scheme \<Rightarrow> 'z sched_lib_scheme" where
  "upd_nevt i f s = s\<lparr>notif := (notif s)\<lparr>cos_events := (cos_events (notif s))(i := f (cos_events (notif s) i))\<rparr>\<rparr>"

lemma upd_sthd_sel [simp]:
  "thds (upd_sthd n f s) = (thds s)(n := f (thds s n))" "prio_l (upd_sthd n f s) = prio_l s"
  "sched_l (upd_sthd n f s) = sched_l s" "notif (upd_sthd n f s) = notif s" "cos_curr_evt (upd_sthd n f s) = cos_curr_evt s"
  "sched_map_evt_thd (upd_sthd n f s) = sched_map_evt_thd s" "holding_thd (upd_sthd n f s) = holding_thd s"
  "sched_thd_map (upd_sthd n f s) = sched_thd_map s"
  by (simp_all add: upd_sthd_def)

lemma upd_nevt_sel [simp]:
  "thds (upd_nevt i g s) = thds s" "prio_l (upd_nevt i g s) = prio_l s" "sched_l (upd_nevt i g s) = sched_l s"
  "cos_events (notif (upd_nevt i g s)) = (cos_events (notif s))(i := g (cos_events (notif s) i))"
  "cos_curr_evt (upd_nevt i g s) = cos_curr_evt s" "sched_map_evt_thd (upd_nevt i g s) = sched_map_evt_thd s"
  "holding_thd (upd_nevt i g s) = holding_thd s" "sched_thd_map (upd_nevt i g s) = sched_thd_map s"
  by (simp_all add: upd_nevt_def)

subsection \<open>Flags\<close>

definition sched_thd_free :: "sched_thd \<Rightarrow> bool" where "sched_thd_free t \<longleftrightarrow> has (st_flags t) THD_FREE"
definition sched_thd_grp :: "sched_thd \<Rightarrow> bool" where "sched_thd_grp t \<longleftrightarrow> has (st_flags t) THD_GRP"
definition sched_thd_member :: "sched_thd \<Rightarrow> bool" where "sched_thd_member t \<longleftrightarrow> has (st_flags t) THD_MEMBER"
definition sched_thd_blocked :: "sched_thd \<Rightarrow> bool" where "sched_thd_blocked t \<longleftrightarrow> has (st_flags t) THD_BLOCKED"
definition sched_thd_inactive_evt :: "sched_thd \<Rightarrow> bool" where "sched_thd_inactive_evt t \<longleftrightarrow> has (st_flags t) THD_UC_READY"
definition sched_thd_dying :: "sched_thd \<Rightarrow> bool" where "sched_thd_dying t \<longleftrightarrow> has (st_flags t) THD_DYING"
definition sched_thd_dependent :: "sched_thd \<Rightarrow> bool" where "sched_thd_dependent t \<longleftrightarrow> has (st_flags t) THD_DEPENDENCY"
definition sched_thd_suspended :: "sched_thd \<Rightarrow> bool" where "sched_thd_suspended t \<longleftrightarrow> has (st_flags t) THD_SUSPENDED"

definition sched_thd_ready :: "sched_thd \<Rightarrow> bool" where
  "sched_thd_ready t \<longleftrightarrow> \<not> sched_thd_blocked t \<and> \<not> sched_thd_inactive_evt t \<and> \<not> sched_thd_dying t"

text \<open>\<^verbatim>\<open>sched_get_accounting\<close> and \<^verbatim>\<open>sched_get_metric\<close> only check the thread; the fields are then read and
written in place.\<close>

definition sched_get_metric :: "sched_node \<Rightarrow> 'z sched_lib_scheme \<Rightarrow> sched_thd option" where
  "sched_get_metric n s = do { c_assert (\<not> sched_thd_free (thds s n)); Some (thds s n) }"

definition sched_get_accounting :: "sched_node \<Rightarrow> 'z sched_lib_scheme \<Rightarrow> sched_accounting option" where
  "sched_get_accounting n s = do { c_assert (\<not> sched_thd_free (thds s n)); Some (accounting (thds s n)) }"

definition upd_acct :: "sched_node \<Rightarrow> (sched_accounting \<Rightarrow> sched_accounting) \<Rightarrow> 'z sched_lib_scheme \<Rightarrow> 'z sched_lib_scheme" where
  "upd_acct n f s = upd_sthd n (\<lambda>t. t\<lparr>accounting := f (accounting t)\<rparr>) s"

subsection \<open>Events\<close>

definition sched_evt_to_thd :: "nat \<Rightarrow> 'z sched_lib_scheme \<Rightarrow> sched_node option option" where
  "sched_evt_to_thd e s = do { c_assert (e < NUM_SCHED_EVTS); c_assert (e \<noteq> 0); Some (sched_map_evt_thd s e) }"

text \<open>The two atomic exchanges of the loop over the events.\<close>

definition evt_take :: "nat \<Rightarrow> 'z sched_lib_scheme \<Rightarrow> nat \<times> u8 \<times> 'z sched_lib_scheme" where
  "evt_take i s = (unat (e_next (cos_events (notif s) i)), e_flags (cos_events (notif s) i), upd_nevt i (\<lambda>e. e\<lparr>e_next := 0, e_flags := 0\<rparr>) s)"

definition evt_take_cpu :: "nat \<Rightarrow> 'z sched_lib_scheme \<Rightarrow> u32 \<times> 'z sched_lib_scheme" where
  "evt_take_cpu i s = (cpu_consumption (cos_events (notif s) i), upd_nevt i (\<lambda>e. e\<lparr>cpu_consumption := 0\<rparr>) s)"

definition evt_visit :: "(sched_node \<Rightarrow> u8 \<Rightarrow> u32 \<Rightarrow> 'z sched_lib_scheme \<Rightarrow> 'z sched_lib_scheme option) \<Rightarrow>
    u8 \<Rightarrow> u32 \<Rightarrow> 'z sched_lib_scheme \<Rightarrow> 'z sched_lib_scheme option" where
  "evt_visit fn flags cpu s =
     (if (cpu \<noteq> 0 \<or> flags \<noteq> 0) \<and> cos_curr_evt s \<noteq> 0
      then do {
        t \<leftarrow> sched_evt_to_thd (cos_curr_evt s) s;
        case t of Some t \<Rightarrow> fn t flags cpu s | None \<Rightarrow> Some s }
      else Some s)"

fun process_events_loop :: "(sched_node \<Rightarrow> u8 \<Rightarrow> u32 \<Rightarrow> 'z sched_lib_scheme \<Rightarrow> 'z sched_lib_scheme option) \<Rightarrow>
    nat \<Rightarrow> 'z sched_lib_scheme \<Rightarrow> (int \<times> 'z sched_lib_scheme) option" where
  "process_events_loop fn proc_amnt s =
     (if proc_amnt = 0 then Some (0, s)
      else if cos_curr_evt s \<ge> NUM_SCHED_EVTS then Some (-1, s)
      else do {
        let (id, flags, s) = evt_take (cos_curr_evt s) s;
        let (cpu, s) = evt_take_cpu (cos_curr_evt s) s;
        s \<leftarrow> evt_visit fn flags cpu s;
        if id = 0 then Some (0, s) else process_events_loop fn (proc_amnt - 1) (s\<lparr>cos_curr_evt := id\<rparr>) })"

declare process_events_loop.simps [simp del]

definition cos_sched_process_events :: "(sched_node \<Rightarrow> u8 \<Rightarrow> u32 \<Rightarrow> 'z sched_lib_scheme \<Rightarrow> 'z sched_lib_scheme option) \<Rightarrow>
    u32 \<Rightarrow> 'z sched_lib_scheme \<Rightarrow> (int \<times> 'z sched_lib_scheme) option" where
  "cos_sched_process_events fn proc_amnt s = process_events_loop fn (unat (if proc_amnt = 0 then NOT 0 else proc_amnt)) s"

definition cos_sched_set_evt_urgency :: "nat \<Rightarrow> u16 \<Rightarrow> 'z sched_lib_scheme \<Rightarrow> 'z sched_lib_scheme option" where
  "cos_sched_set_evt_urgency e u s = do { c_assert (e < NUM_SCHED_EVTS); Some (upd_nevt e (\<lambda>x. x\<lparr>e_urgency := u\<rparr>) s) }"

definition sched_set_thd_urgency :: "sched_node \<Rightarrow> u16 \<Rightarrow> 'z sched_lib_scheme \<Rightarrow> 'z sched_lib_scheme option" where
  "sched_set_thd_urgency t u s = do {
     s \<leftarrow> (if evt_id (thds s t) \<noteq> 0 then cos_sched_set_evt_urgency (evt_id (thds s t) mod 256) u s else Some s);
     _ \<leftarrow> sched_get_metric t s;
     Some (upd_sthd t (\<lambda>x. x\<lparr>urgency := u\<rparr>) s) }"

text \<open>\<open>cntl\<close> is the answer of the kernel to \<^verbatim>\<open>cos_sched_cntl(COS_SCHED_THD_EVT, id, event)\<close>.\<close>

definition sched_share_event :: "(nat \<Rightarrow> nat \<Rightarrow> int) \<Rightarrow> sched_node \<Rightarrow> sched_node \<Rightarrow> 'z sched_lib_scheme \<Rightarrow> (int \<times> 'z sched_lib_scheme) option" where
  "sched_share_event cntl n old s = do {
     let i = evt_id (thds s old);
     c_assert (i < NUM_SCHED_EVTS);
     c_assert (\<not> has (e_flags (cos_events (notif s) i)) COS_SCHED_EVT_FREE);
     let s = upd_sthd n (\<lambda>t. t\<lparr>evt_id := i, st_event := i\<rparr>) s;
     Some (if cntl (st_id (thds s n)) i \<noteq> 0 then -1 else 0, s) }"

fun sched_alloc_event_loop :: "(nat \<Rightarrow> nat \<Rightarrow> int) \<Rightarrow> sched_node \<Rightarrow> nat list \<Rightarrow> 'z sched_lib_scheme \<Rightarrow> (int \<times> 'z sched_lib_scheme) option" where
  "sched_alloc_event_loop cntl thd [] s = Some (-1, s)"
| "sched_alloc_event_loop cntl thd (i # is) s =
     (if has (e_flags (cos_events (notif s) i)) COS_SCHED_EVT_FREE
      then do {
        let s = upd_nevt i (\<lambda>e. e\<lparr>e_flags := e_flags e AND NOT COS_SCHED_EVT_FREE\<rparr>) s;
        c_assert (sched_map_evt_thd s i = None);
        let s = s\<lparr>sched_map_evt_thd := (sched_map_evt_thd s)(i \<mapsto> thd)\<rparr>;
        let s = upd_sthd thd (\<lambda>t. t\<lparr>evt_id := i\<rparr>) s;
        if cntl (st_id (thds s thd)) i \<noteq> 0
        then Some (-1, upd_nevt i (\<lambda>e. e\<lparr>e_flags := e_flags e OR COS_SCHED_EVT_FREE\<rparr>) s)
        else Some (int i, upd_sthd thd (\<lambda>t. t\<lparr>st_event := i\<rparr>) s) }
      else sched_alloc_event_loop cntl thd is s)"

definition sched_alloc_event :: "(nat \<Rightarrow> nat \<Rightarrow> int) \<Rightarrow> sched_node \<Rightarrow> 'z sched_lib_scheme \<Rightarrow> (int \<times> 'z sched_lib_scheme) option" where
  "sched_alloc_event cntl thd s = do {
     c_assert (evt_id (thds s thd) = 0);
     sched_alloc_event_loop cntl thd [1..<NUM_SCHED_EVTS] s }"

definition sched_rem_event :: "(nat \<Rightarrow> nat \<Rightarrow> int) \<Rightarrow> sched_node \<Rightarrow> 'z sched_lib_scheme \<Rightarrow> (int \<times> 'z sched_lib_scheme) option" where
  "sched_rem_event cntl thd s = do {
     let idx = evt_id (thds s thd);
     c_assert (idx \<noteq> 0);
     c_assert (idx < NUM_SCHED_EVTS);
     c_assert (\<not> has (e_flags (cos_events (notif s) idx)) COS_SCHED_EVT_FREE);
     if cntl (st_id (thds s thd)) 0 \<noteq> 0 then Some (-1, s)
     else do {
       let s = upd_nevt idx (\<lambda>e. e\<lparr>e_flags := COS_SCHED_EVT_FREE\<rparr>) s;
       let s = s\<lparr>sched_map_evt_thd := (sched_map_evt_thd s)(idx := None)\<rparr>;
       Some (0, upd_sthd thd (\<lambda>t. t\<lparr>st_event := 0, evt_id := 0\<rparr>) s) } }"

subsection \<open>Threads and groups\<close>

definition zero_acct :: sched_accounting where
  "zero_acct = \<lparr>C_amnt = 0, T_amnt = 0, C_used = 0, T_exp = 0, a_ticks = 0, prev_ticks = 0, cycles = 0, pol_cycles = 0\<rparr>"

definition zero_sthd :: sched_thd where
  "zero_sthd = \<lparr>st_flags = 0, st_id = 0, evt_id = 0, accounting = zero_acct, priority = 0, urgency = 0, st_event = 0, wake_cnt = 0,
     blocking_component = 0, contended_component = 0, dependency_thd = None, block_time = 0, cevt_flags = 0, group = None, cid = 0,
     tick = 0, wakeup_tick = 0\<rparr>"

definition sched_init_thd :: "sched_node \<Rightarrow> nat \<Rightarrow> u16 \<Rightarrow> 'z sched_lib_scheme \<Rightarrow> 'z sched_lib_scheme option" where
  "sched_init_thd n i flags s = do {
     let t = thds s n;
     c_assert (\<not> sched_thd_free t \<and> \<not> sched_thd_grp t \<and> \<not> sched_thd_member t);
     let s = s\<lparr>grp_l := INIT_LIST n (grp_l s), prio_l := INIT_LIST n (prio_l s), sched_l := INIT_LIST n (sched_l s), cevt_l := INIT_LIST n (cevt_l s)\<rparr>;
     Some (upd_sthd n (\<lambda>_. zero_sthd\<lparr>st_id := i, st_flags := flags, wake_cnt := 1\<rparr>) s) }"

definition sched_get_mapping :: "nat \<Rightarrow> 'z sched_lib_scheme \<Rightarrow> sched_node option" where
  "sched_get_mapping i s = (if i \<ge> MAX_NUM_THREADS then None
     else case sched_thd_map s i of None \<Rightarrow> None | Some n \<Rightarrow> if has (st_flags (thds s n)) THD_FREE then None else Some n)"

definition sched_add_mapping :: "nat \<Rightarrow> sched_node \<Rightarrow> 'z sched_lib_scheme \<Rightarrow> int \<times> 'z sched_lib_scheme" where
  "sched_add_mapping i n s = (if i \<ge> MAX_NUM_THREADS \<or> sched_thd_map s i \<noteq> None then (-1, s)
     else (0, s\<lparr>sched_thd_map := (sched_thd_map s)(i \<mapsto> n)\<rparr>))"

definition sched_rem_mapping :: "nat \<Rightarrow> 'z sched_lib_scheme \<Rightarrow> 'z sched_lib_scheme" where
  "sched_rem_mapping i s = (if i \<ge> MAX_NUM_THREADS then s else s\<lparr>sched_thd_map := (sched_thd_map s)(i := None)\<rparr>)"

definition sched_alloc_thd :: "nat \<Rightarrow> 'z sched_lib_scheme \<Rightarrow> (sched_node \<times> 'z sched_lib_scheme) option" where
  "sched_alloc_thd i s = do {
     c_assert (i < MAX_NUM_THREADS);
     c_assert (has (st_flags (thds s (Thd i))) THD_FREE);
     let s = upd_sthd (Thd i) (\<lambda>t. t\<lparr>st_flags := 0\<rparr>) s;
     s \<leftarrow> sched_init_thd (Thd i) i THD_READY s;
     Some (Thd i, s) }"

definition sched_alloc_upcall_thd :: "nat \<Rightarrow> 'z sched_lib_scheme \<Rightarrow> (sched_node \<times> 'z sched_lib_scheme) option" where
  "sched_alloc_upcall_thd i s = do {
     (n, s) \<leftarrow> sched_alloc_thd i s;
     Some (n, upd_sthd n (\<lambda>t. t\<lparr>st_flags := THD_UC_READY\<rparr>) s) }"

definition sched_free_thd :: "sched_node \<Rightarrow> 'z sched_lib_scheme \<Rightarrow> 'z sched_lib_scheme option" where
  "sched_free_thd n s = do { c_assert (\<not> sched_thd_free (thds s n)); Some (upd_sthd n (\<lambda>t. t\<lparr>st_flags := THD_FREE\<rparr>) s) }"

definition sched_grp_make :: "sched_node \<Rightarrow> nat \<Rightarrow> 'z sched_lib_scheme \<Rightarrow> 'z sched_lib_scheme option" where
  "sched_grp_make n csched s = do {
     let t = thds s n;
     c_assert (\<not> sched_thd_grp t \<and> \<not> sched_thd_free t \<and> \<not> sched_thd_member t);
     Some (upd_sthd n (\<lambda>t. t\<lparr>st_flags := st_flags t OR THD_GRP, cid := csched\<rparr>) s) }"

definition sched_grp_add :: "sched_node \<Rightarrow> sched_node \<Rightarrow> 'z sched_lib_scheme \<Rightarrow> 'z sched_lib_scheme option" where
  "sched_grp_add grp n s = do {
     let g = thds s grp;
     let t = thds s n;
     c_assert (sched_thd_grp g \<and> \<not> sched_thd_free g \<and> \<not> sched_thd_free t \<and> \<not> sched_thd_grp t \<and> \<not> sched_thd_member t);
     let s = upd_sthd n (\<lambda>t. t\<lparr>st_flags := st_flags t OR THD_MEMBER, group := Some grp\<rparr>) s;
     Some (s\<lparr>grp_l := ADD_LIST grp n (grp_l s)\<rparr>) }"

definition sched_grp_rem :: "sched_node \<Rightarrow> 'z sched_lib_scheme \<Rightarrow> 'z sched_lib_scheme option" where
  "sched_grp_rem n s = do {
     grp \<leftarrow> group (thds s n);
     let g = thds s grp;
     let t = thds s n;
     c_assert (sched_thd_grp g \<and> \<not> sched_thd_free g \<and> \<not> sched_thd_free t \<and> \<not> sched_thd_grp t \<and> sched_thd_member t);
     let s = upd_sthd n (\<lambda>t. t\<lparr>group := None, st_flags := st_flags t AND NOT THD_MEMBER\<rparr>) s;
     Some (s\<lparr>grp_l := REM_LIST n (grp_l s), cevt_l := REM_LIST n (cevt_l s)\<rparr>) }"

definition sched_is_grp :: "sched_node \<Rightarrow> 'z sched_lib_scheme \<Rightarrow> bool option" where
  "sched_is_grp n s = do {
     c_assert (\<not> sched_thd_free (thds s n));
     if sched_thd_grp (thds s n) then do { c_assert (\<not> sched_thd_member (thds s n)); Some True } else Some False }"

definition sched_get_members :: "sched_node \<Rightarrow> 'z sched_lib_scheme \<Rightarrow> sched_node option option" where
  "sched_get_members n s = do {
     c_assert (\<not> sched_thd_free (thds s n) \<and> sched_thd_grp (thds s n));
     Some (if lnext (grp_l s) n = n then None else Some (lnext (grp_l s) n)) }"

definition sched_get_grp :: "sched_node \<Rightarrow> 'z sched_lib_scheme \<Rightarrow> sched_node option option" where
  "sched_get_grp n s = do { g \<leftarrow> sched_is_grp n s; Some (if g then None else group (thds s n)) }"

subsection \<open>Critical sections and dependencies\<close>

definition sched_crit_sect_init :: "'z sched_lib_scheme \<Rightarrow> 'z sched_lib_scheme" where
  "sched_crit_sect_init s = s\<lparr>holding_thd := (\<lambda>i. if i < MAX_NUM_SPDS then None else holding_thd s i)\<rparr>"

definition sched_ds_init :: "'z sched_lib_scheme \<Rightarrow> 'z sched_lib_scheme" where
  "sched_ds_init s =
     (let s = s\<lparr>thds := (\<lambda>n. case n of Thd i \<Rightarrow> (if i < MAX_NUM_THREADS then (thds s n)\<lparr>st_flags := THD_FREE\<rparr> else thds s n) | _ \<Rightarrow> thds s n)\<rparr>;
          s = s\<lparr>sched_thd_map := (\<lambda>i. if i < MAX_NUM_THREADS then None else sched_thd_map s i)\<rparr>;
          s = s\<lparr>notif := (notif s)\<lparr>cos_events := (\<lambda>i. if i < NUM_SCHED_EVTS
                  then (cos_events (notif s) i)\<lparr>e_flags := (if i = 0 then 0 else COS_SCHED_EVT_FREE), e_next := 0\<rparr>
                  else cos_events (notif s) i)\<rparr>,
                sched_map_evt_thd := (\<lambda>i. if i < NUM_SCHED_EVTS then None else sched_map_evt_thd s i)\<rparr>
      in sched_crit_sect_init s)"

text \<open>One step along the chain of dependencies (\<^verbatim>\<open>__sched_thd_dependency\<close>).\<close>

definition thd_dependency :: "sched_node \<Rightarrow> 'z sched_lib_scheme \<Rightarrow> (sched_node option \<times> 'z sched_lib_scheme) option" where
  "thd_dependency n s =
     (let t = thds s n;
          stop = upd_sthd n (\<lambda>t. t\<lparr>st_flags := st_flags t AND NOT THD_DEPENDENCY, contended_component := 0\<rparr>) s
      in if \<not> sched_thd_dependent t then Some (None, s)
         else if dependency_thd t \<noteq> None then Some (dependency_thd t, s)
         else if contended_component t = 0 then Some (None, stop)
         else do {
           c_assert (contended_component t < MAX_NUM_SPDS);
           case holding_thd s (contended_component t) of
             Some h \<Rightarrow> Some (Some h, s)
           | None \<Rightarrow> Some (None, stop) })"

partial_function (option) thd_dependency_loop :: "sched_node \<Rightarrow> 'z sched_lib_scheme \<Rightarrow> (sched_node \<times> 'z sched_lib_scheme) option" where
  "thd_dependency_loop p s = do {
     (d, s) \<leftarrow> thd_dependency p s;
     case d of Some d \<Rightarrow> thd_dependency_loop d s | None \<Rightarrow> Some (p, s) }"

definition sched_thd_dependency :: "sched_node \<Rightarrow> 'z sched_lib_scheme \<Rightarrow> (sched_node option \<times> 'z sched_lib_scheme) option" where
  "sched_thd_dependency cur s = do {
     (p, s) \<leftarrow> thd_dependency_loop cur s;
     Some (if p = cur then None else Some p, s) }"

definition sched_take_crit_sect :: "nat \<Rightarrow> sched_node \<Rightarrow> 'z sched_lib_scheme \<Rightarrow> (sched_node option \<times> 'z sched_lib_scheme) option" where
  "sched_take_crit_sect spdid cur s = do {
     c_assert (spdid < MAX_NUM_SPDS);
     c_assert (\<not> sched_thd_free (thds s cur));
     c_assert (\<not> sched_thd_blocked (thds s cur));
     case holding_thd s spdid of
       Some h \<Rightarrow> do {
         c_assert (\<not> sched_thd_free (thds s h));
         c_assert (\<not> sched_thd_blocked (thds s h));
         c_assert (cur \<noteq> h);
         let s = upd_sthd cur (\<lambda>t. t\<lparr>contended_component := spdid, st_flags := st_flags t OR THD_DEPENDENCY\<rparr>) s;
         c_assert (dependency_thd (thds s cur) = None);
         Some (Some h, s) }
     | None \<Rightarrow> Some (None, (upd_sthd cur (\<lambda>t. t\<lparr>contended_component := spdid\<rparr>) s)\<lparr>holding_thd := (holding_thd s)(spdid \<mapsto> cur)\<rparr>) }"

definition sched_release_crit_sect :: "nat \<Rightarrow> sched_node \<Rightarrow> 'z sched_lib_scheme \<Rightarrow> (int \<times> 'z sched_lib_scheme) option" where
  "sched_release_crit_sect spdid cur s = do {
     c_assert (spdid < MAX_NUM_SPDS);
     c_assert (\<not> sched_thd_free (thds s cur));
     c_assert (\<not> sched_thd_blocked (thds s cur));
     c_assert (holding_thd s spdid = Some cur);
     if contended_component (thds s cur) \<noteq> spdid then Some (-1, s)
     else Some (0, (upd_sthd cur (\<lambda>t. t\<lparr>contended_component := 0\<rparr>) s)\<lparr>holding_thd := (holding_thd s)(spdid := None)\<rparr>) }"

subsection \<open>Chains of dependencies\<close>

text \<open>The thread that a thread waits for.\<close>

definition dep_of :: "'z sched_lib_scheme \<Rightarrow> sched_node \<Rightarrow> sched_node option" where
  "dep_of s n = (let t = thds s n
     in if \<not> sched_thd_dependent t then None
        else if dependency_thd t \<noteq> None then dependency_thd t
        else if contended_component t = 0 then None else holding_thd s (contended_component t))"

definition contended_ok :: "'z sched_lib_scheme \<Rightarrow> bool" where
  "contended_ok s \<longleftrightarrow> (\<forall>n. contended_component (thds s n) < MAX_NUM_SPDS)"

lemma clear_dependency [simp]: "\<not> sched_thd_dependent (t\<lparr>st_flags := st_flags t AND NOT THD_DEPENDENCY, contended_component := 0\<rparr>)"
  by (simp add: sched_thd_dependent_def has_def and.assoc)

lemma thd_dependency_step:
  assumes "contended_ok s"
  shows "\<exists>s'. thd_dependency n s = Some (dep_of s n, s') \<and> (dep_of s n \<noteq> None \<longrightarrow> s' = s)
    \<and> (dep_of s n = None \<longrightarrow> \<not> sched_thd_dependent (thds s' n))"
  using assms by (auto simp: thd_dependency_def dep_of_def contended_ok_def Let_def split: option.splits)

lemma thd_dependency_loop_end:
  assumes "contended_ok s" "\<And>n m. dep_of s n = Some m \<Longrightarrow> (rank m :: nat) < rank n"
  shows "\<exists>m s'. thd_dependency_loop n s = Some (m, s') \<and> (n, m) \<in> {(a, b). dep_of s a = Some b}\<^sup>* \<and> rank m \<le> rank n
    \<and> dep_of s m = None \<and> \<not> sched_thd_dependent (thds s' m)"
proof (induction "rank n" arbitrary: n rule: less_induct)
  case less
  obtain s' where d: "thd_dependency n s = Some (dep_of s n, s')" "dep_of s n \<noteq> None \<longrightarrow> s' = s"
    "dep_of s n = None \<longrightarrow> \<not> sched_thd_dependent (thds s' n)" using thd_dependency_step [OF assms(1)] by blast
  show ?case
  proof (cases "dep_of s n")
    case None
    then show ?thesis using d by (subst thd_dependency_loop.simps) simp
  next
    case (Some m)
    from less.hyps [of m] assms(2) [OF Some] obtain k s'' where k: "thd_dependency_loop m s = Some (k, s'')"
      "(m, k) \<in> {(a, b). dep_of s a = Some b}\<^sup>*" "rank k \<le> rank m" "dep_of s k = None" "\<not> sched_thd_dependent (thds s'' k)" by blast
    moreover have "(n, k) \<in> {(a, b). dep_of s a = Some b}\<^sup>*" using Some k(2) by (auto intro: converse_rtrancl_into_rtrancl)
    ultimately show ?thesis using Some d assms(2) [OF Some] by (subst thd_dependency_loop.simps) simp
  qed
qed

subsection \<open>Processing the queue of events\<close>

text \<open>What the visitor is told of an event: nothing for the entry 0, for an event without news and for one
that belongs to no thread.\<close>

definition news :: "(nat \<Rightarrow> cos_sched_events) \<Rightarrow> (nat \<Rightarrow> sched_node option) \<Rightarrow> nat \<Rightarrow> (sched_node \<times> u8 \<times> u32) list" where
  "news ev m n = (if n \<noteq> 0 \<and> (cpu_consumption (ev n) \<noteq> 0 \<or> e_flags (ev n) \<noteq> 0)
     then (case m n of Some t \<Rightarrow> [(t, e_flags (ev n), cpu_consumption (ev n))] | None \<Rightarrow> []) else [])"

text \<open>
  A visitor that is always successful, leaves the queue alone (it may set urgencies) and whose calls are
  recorded by \<open>tr\<close>.
\<close>

definition records :: "(sched_node \<Rightarrow> u8 \<Rightarrow> u32 \<Rightarrow> 'z sched_lib_scheme \<Rightarrow> 'z sched_lib_scheme option) \<Rightarrow>
    ('z sched_lib_scheme \<Rightarrow> (sched_node \<times> u8 \<times> u32) list) \<Rightarrow> bool" where
  "records fn tr \<longleftrightarrow> (\<forall>t f c s. \<exists>s'. fn t f c s = Some s' \<and> tr s' = tr s @ [(t, f, c)] \<and> cos_curr_evt s' = cos_curr_evt s
       \<and> sched_map_evt_thd s' = sched_map_evt_thd s
       \<and> (\<forall>i. e_next (cos_events (notif s') i) = e_next (cos_events (notif s) i)
            \<and> e_flags (cos_events (notif s') i) = e_flags (cos_events (notif s) i)
            \<and> cpu_consumption (cos_events (notif s') i) = cpu_consumption (cos_events (notif s) i)))
     \<and> (\<forall>i f s. tr (upd_nevt i f s) = tr s) \<and> (\<forall>d s. tr (s\<lparr>cos_curr_evt := d\<rparr>) = tr s)"

text \<open>One turn of the loop.\<close>

lemma process_events_turn:
  fixes s :: "'z sched_lib_scheme"
  assumes "records fn tr" "cos_curr_evt s < NUM_SCHED_EVTS"
  shows "\<exists>s1. tr s1 = tr s @ news (cos_events (notif s)) (sched_map_evt_thd s) (cos_curr_evt s)
    \<and> cos_curr_evt s1 = cos_curr_evt s \<and> sched_map_evt_thd s1 = sched_map_evt_thd s
    \<and> (\<forall>j. j \<noteq> cos_curr_evt s \<longrightarrow> e_next (cos_events (notif s1) j) = e_next (cos_events (notif s) j)
         \<and> e_flags (cos_events (notif s1) j) = e_flags (cos_events (notif s) j)
         \<and> cpu_consumption (cos_events (notif s1) j) = cpu_consumption (cos_events (notif s) j))
    \<and> e_next (cos_events (notif s1) (cos_curr_evt s)) = 0 \<and> e_flags (cos_events (notif s1) (cos_curr_evt s)) = 0
    \<and> cpu_consumption (cos_events (notif s1) (cos_curr_evt s)) = 0
    \<and> (\<forall>k. process_events_loop fn (Suc k) s = (if e_next (cos_events (notif s) (cos_curr_evt s)) = 0 then Some (0, s1)
         else process_events_loop fn k (s1\<lparr>cos_curr_evt := unat (e_next (cos_events (notif s) (cos_curr_evt s)))\<rparr>)))"
proof -
  let ?d = "cos_curr_evt s" and ?ev = "cos_events (notif s)"
  define s0 where "s0 = upd_nevt ?d (\<lambda>e. e\<lparr>cpu_consumption := 0\<rparr>) (upd_nevt ?d (\<lambda>e. e\<lparr>e_next := 0, e_flags := 0\<rparr>) s)"
  have tr0: "tr s0 = tr s" using assms(1) by (simp add: records_def s0_def)
  have rec: "\<exists>s'. fn t f c s0 = Some s' \<and> tr s' = tr s0 @ [(t, f, c)] \<and> cos_curr_evt s' = ?d \<and> sched_map_evt_thd s' = sched_map_evt_thd s
       \<and> (\<forall>i. e_next (cos_events (notif s') i) = e_next (cos_events (notif s0) i)
            \<and> e_flags (cos_events (notif s') i) = e_flags (cos_events (notif s0) i)
            \<and> cpu_consumption (cos_events (notif s') i) = cpu_consumption (cos_events (notif s0) i))" for t f c
    using assms(1) [unfolded records_def, THEN conjunct1, rule_format, of t f c s0] by (simp add: s0_def)
  obtain s1 where v: "evt_visit fn (e_flags (?ev ?d)) (cpu_consumption (?ev ?d)) s0 = Some s1"
    and s1: "tr s1 = tr s @ news ?ev (sched_map_evt_thd s) ?d" "cos_curr_evt s1 = ?d" "sched_map_evt_thd s1 = sched_map_evt_thd s"
    "\<forall>i. e_next (cos_events (notif s1) i) = e_next (cos_events (notif s0) i)
            \<and> e_flags (cos_events (notif s1) i) = e_flags (cos_events (notif s0) i)
            \<and> cpu_consumption (cos_events (notif s1) i) = cpu_consumption (cos_events (notif s0) i)"
  proof (cases "news ?ev (sched_map_evt_thd s) ?d = []")
    case True
    then have "evt_visit fn (e_flags (?ev ?d)) (cpu_consumption (?ev ?d)) s0 = Some s0"
      using assms(2) by (auto simp: evt_visit_def news_def sched_evt_to_thd_def s0_def split: option.splits if_splits)
    then show ?thesis using that [of s0] True tr0 by (simp add: s0_def)
  next
    case False
    then obtain t where t: "sched_map_evt_thd s ?d = Some t" "?d \<noteq> 0" "cpu_consumption (?ev ?d) \<noteq> 0 \<or> e_flags (?ev ?d) \<noteq> 0"
      "news ?ev (sched_map_evt_thd s) ?d = [(t, e_flags (?ev ?d), cpu_consumption (?ev ?d))]"
      by (auto simp: news_def split: if_splits option.splits)
    then have "evt_visit fn (e_flags (?ev ?d)) (cpu_consumption (?ev ?d)) s0 = fn t (e_flags (?ev ?d)) (cpu_consumption (?ev ?d)) s0"
      using assms(2) by (simp add: evt_visit_def sched_evt_to_thd_def s0_def)
    then show ?thesis using rec [of t "e_flags (?ev ?d)" "cpu_consumption (?ev ?d)"] t(4) tr0 that by auto
  qed
  have "process_events_loop fn (Suc k) s = (if e_next (?ev ?d) = 0 then Some (0, s1)
      else process_events_loop fn k (s1\<lparr>cos_curr_evt := unat (e_next (?ev ?d))\<rparr>))" for k
    using assms(2) v by (subst process_events_loop.simps) (simp add: evt_take_def evt_take_cpu_def s0_def unat_eq_zero)
  moreover have "\<forall>j. j \<noteq> ?d \<longrightarrow> e_next (cos_events (notif s1) j) = e_next (?ev j) \<and> e_flags (cos_events (notif s1) j) = e_flags (?ev j)
      \<and> cpu_consumption (cos_events (notif s1) j) = cpu_consumption (?ev j)"
    "e_next (cos_events (notif s1) ?d) = 0" "e_flags (cos_events (notif s1) ?d) = 0" "cpu_consumption (cos_events (notif s1) ?d) = 0"
    using s1(4) by (simp_all add: s0_def)
  ultimately show ?thesis using s1 by blast
qed

lemma news_cong: "e_flags (ev n) = e_flags (ev' n) \<Longrightarrow> cpu_consumption (ev n) = cpu_consumption (ev' n) \<Longrightarrow> news ev m n = news ev' m n"
  unfolding news_def by (cases "m n") simp_all

lemma process_events_chain:
  fixes s :: "'z sched_lib_scheme"
  assumes "records fn tr" "evt_chain (cos_events (notif s)) (cos_curr_evt s) xs" "length xs < k"
  shows "\<exists>s'. process_events_loop fn k s = Some (0, s') \<and> cos_curr_evt s' = last (cos_curr_evt s # xs)
    \<and> tr s' = tr s @ concat (map (news (cos_events (notif s)) (sched_map_evt_thd s)) (cos_curr_evt s # xs))
    \<and> evt_chain (cos_events (notif s')) (last (cos_curr_evt s # xs)) []
    \<and> (\<forall>n. if n \<in> set (cos_curr_evt s # xs) then e_flags (cos_events (notif s') n) = 0 \<and> cpu_consumption (cos_events (notif s') n) = 0
         else e_flags (cos_events (notif s') n) = e_flags (cos_events (notif s) n)
           \<and> cpu_consumption (cos_events (notif s') n) = cpu_consumption (cos_events (notif s) n))"
  using assms(2,3)
proof (induction xs arbitrary: s k)
  case Nil
  then have d: "cos_curr_evt s < NUM_SCHED_EVTS" by (simp add: evt_chain_def)
  obtain k' where k: "k = Suc k'" using Nil.prems(2) by (cases k) auto
  from process_events_turn [OF assms(1) d] evt_chain_last [OF Nil.prems(1)] obtain s1 where s1:
    "process_events_loop fn (Suc k') s = Some (0, s1)" "tr s1 = tr s @ news (cos_events (notif s)) (sched_map_evt_thd s) (cos_curr_evt s)"
    "cos_curr_evt s1 = cos_curr_evt s"
    "\<forall>j. j \<noteq> cos_curr_evt s \<longrightarrow> e_next (cos_events (notif s1) j) = e_next (cos_events (notif s) j)
         \<and> e_flags (cos_events (notif s1) j) = e_flags (cos_events (notif s) j)
         \<and> cpu_consumption (cos_events (notif s1) j) = cpu_consumption (cos_events (notif s) j)"
    "e_next (cos_events (notif s1) (cos_curr_evt s)) = 0" "e_flags (cos_events (notif s1) (cos_curr_evt s)) = 0"
    "cpu_consumption (cos_events (notif s1) (cos_curr_evt s)) = 0" by auto
  have "e_next (cos_events (notif s1) j) = 0" if "j < NUM_SCHED_EVTS" for j
    using that s1(4,5) Nil.prems(1) by (cases "j = cos_curr_evt s") (auto simp: evt_chain_def)
  then have "evt_chain (cos_events (notif s1)) (cos_curr_evt s) []" using d by (simp add: evt_chain_def)
  with s1 k show ?case by auto
next
  case (Cons x xs)
  let ?ev = "cos_events (notif s)" and ?d = "cos_curr_evt s"
  have d: "?d < NUM_SCHED_EVTS" "?d \<notin> set (x # xs)" "0 < x" using Cons.prems(1) by (simp_all add: evt_chain_def)
  have x: "unat (e_next (?ev ?d)) = x" by (rule evt_chain_next [OF Cons.prems(1)])
  obtain k' where k: "k = Suc k'" "length xs < k'" using Cons.prems(2) by (cases k) auto
  have "e_next (?ev ?d) \<noteq> 0" using x d(3) by auto
  with process_events_turn [OF assms(1) d(1)] x obtain s1 where s1:
    "process_events_loop fn (Suc k') s = process_events_loop fn k' (s1\<lparr>cos_curr_evt := x\<rparr>)" "tr s1 = tr s @ news ?ev (sched_map_evt_thd s) ?d"
    "sched_map_evt_thd s1 = sched_map_evt_thd s"
    "\<forall>j. j \<noteq> ?d \<longrightarrow> e_next (cos_events (notif s1) j) = e_next (?ev j) \<and> e_flags (cos_events (notif s1) j) = e_flags (?ev j)
         \<and> cpu_consumption (cos_events (notif s1) j) = cpu_consumption (?ev j)"
    "e_next (cos_events (notif s1) ?d) = 0" "e_flags (cos_events (notif s1) ?d) = 0" "cpu_consumption (cos_events (notif s1) ?d) = 0"
    by (auto simp del: unat_eq_zero)
  have "evt_chain (cos_events (notif s1)) x xs"
    by (rule evt_chain_tl [OF Cons.prems(1)]) (use s1(4,5) in auto)
  with Cons.IH [of "s1\<lparr>cos_curr_evt := x\<rparr>" k'] k(2) obtain s' where s': "process_events_loop fn k' (s1\<lparr>cos_curr_evt := x\<rparr>) = Some (0, s')"
    "cos_curr_evt s' = last (x # xs)"
    "tr s' = tr (s1\<lparr>cos_curr_evt := x\<rparr>) @ concat (map (news (cos_events (notif s1)) (sched_map_evt_thd s1)) (x # xs))"
    "evt_chain (cos_events (notif s')) (last (x # xs)) []"
    "\<forall>n. if n \<in> set (x # xs) then e_flags (cos_events (notif s') n) = 0 \<and> cpu_consumption (cos_events (notif s') n) = 0
         else e_flags (cos_events (notif s') n) = e_flags (cos_events (notif s1) n)
           \<and> cpu_consumption (cos_events (notif s') n) = cpu_consumption (cos_events (notif s1) n)" by auto
  have n: "map (news (cos_events (notif s1)) (sched_map_evt_thd s1)) (x # xs) = map (news ?ev (sched_map_evt_thd s)) (x # xs)"
  proof (rule map_cong [OF refl])
    fix n assume "n \<in> set (x # xs)"
    then have "n \<noteq> ?d" using d(2) by metis
    then have "e_flags (cos_events (notif s1) n) = e_flags (?ev n)" "cpu_consumption (cos_events (notif s1) n) = cpu_consumption (?ev n)"
      using s1(4) by blast+
    then show "news (cos_events (notif s1)) (sched_map_evt_thd s1) n = news ?ev (sched_map_evt_thd s) n"
      unfolding s1(3) by (rule news_cong)
  qed
  have "tr s' = tr s @ concat (map (news ?ev (sched_map_evt_thd s)) (?d # x # xs))"
    using s'(3) s1(2) assms(1) unfolding n by (simp add: records_def)
  moreover have "if n \<in> set (?d # x # xs) then e_flags (cos_events (notif s') n) = 0 \<and> cpu_consumption (cos_events (notif s') n) = 0
         else e_flags (cos_events (notif s') n) = e_flags (?ev n) \<and> cpu_consumption (cos_events (notif s') n) = cpu_consumption (?ev n)" for n
    using s'(5) [rule_format, of n] s1(4,6,7) d(2) by (cases "n = ?d") auto
  ultimately show ?case using s' s1(1) k(1) by simp
qed

text \<open>A limit of 0 stands for the largest number, which no queue reaches.\<close>

lemma evt_chain_fuel: "evt_chain ev d xs \<Longrightarrow> length xs < unat (if (0::u32) = 0 then NOT 0 else 0 :: u32)"
  using evt_chain_length [of ev d xs] by (simp add: NUM_SCHED_EVTS_def unsigned_minus_1_eq_mask mask_eq_exp_minus_1)

subsection \<open>Properties\<close>

text \<open>An entry that is released while the scheduler stands on it loses its mark the next time events are
processed: it is neither in use nor free any more.\<close>

lemma released_event_lost:
  assumes "cos_curr_evt s = i" "i < NUM_SCHED_EVTS" "e_next (cos_events (notif s) i) = 0" "sched_map_evt_thd s i = None"
  shows "\<exists>s'. cos_sched_process_events fn 1 s = Some (0, s') \<and> e_flags (cos_events (notif s') i) = 0 \<and> sched_map_evt_thd s' i = None"
  using assms
  by (simp add: cos_sched_process_events_def process_events_loop.simps evt_take_def evt_take_cpu_def evt_visit_def sched_evt_to_thd_def)

text \<open>C37.  \<^verbatim>\<open>cos_sched_process_events\<close> with no limit ends on every queue of events the kernel can leave in
the shared page.  It calls the visitor for the entry the scheduler stood on and then for every posted event,
in the order in which they were posted, each time with the flags and the cycles of the event, and leaves out
exactly those without news or without a thread.  Afterwards the queue is empty, the scheduler stands on the
last event, the visited events carry no news and all others are unchanged.\<close>

theorem process_events_visits_all:
  fixes s :: "'z sched_lib_scheme"
  assumes "records fn tr" "evt_chain (cos_events (notif s)) (cos_curr_evt s) xs"
  shows "\<exists>s'. cos_sched_process_events fn 0 s = Some (0, s') \<and> cos_curr_evt s' = last (cos_curr_evt s # xs)
    \<and> tr s' = tr s @ concat (map (news (cos_events (notif s)) (sched_map_evt_thd s)) (cos_curr_evt s # xs))
    \<and> evt_chain (cos_events (notif s')) (last (cos_curr_evt s # xs)) []
    \<and> (\<forall>n. if n \<in> set (cos_curr_evt s # xs) then e_flags (cos_events (notif s') n) = 0 \<and> cpu_consumption (cos_events (notif s') n) = 0
         else e_flags (cos_events (notif s') n) = e_flags (cos_events (notif s) n)
           \<and> cpu_consumption (cos_events (notif s') n) = cpu_consumption (cos_events (notif s) n))"
  unfolding cos_sched_process_events_def by (rule process_events_chain [OF assms evt_chain_fuel [OF assms(2)]])

text \<open>A scheduler that notes the visits; it stands on event 3, and event 5 was posted.\<close>

record traced_lib = sched_lib +
  trace :: "(sched_node \<times> u8 \<times> u32) list"

definition note_visit :: "sched_node \<Rightarrow> u8 \<Rightarrow> u32 \<Rightarrow> traced_lib \<Rightarrow> traced_lib option" where
  "note_visit t f c s = Some (s\<lparr>trace := trace s @ [(t, f, c)]\<rparr>)"

definition zero_links :: "sched_node links" where "zero_links = \<lparr>lnext = id, lprev = id\<rparr>"

definition traced_example :: traced_lib where
  "traced_example = \<lparr>thds = (\<lambda>_. zero_sthd), sched_thd_map = (\<lambda>_. None), sched_map_evt_thd = [3 \<mapsto> Thd 8, 5 \<mapsto> Thd 9], holding_thd = (\<lambda>_. None),
     prio_l = zero_links, sched_l = zero_links, grp_l = zero_links, cevt_l = zero_links,
     notif = zero_area\<lparr>cos_events := (\<lambda>_. \<lparr>e_next = 0, e_flags = 0, e_urgency = 0, cpu_consumption = 0\<rparr>)
       (3 := \<lparr>e_next = 5, e_flags = 0, e_urgency = 2, cpu_consumption = 700\<rparr>, 5 := \<lparr>e_next = 0, e_flags = 4, e_urgency = 1, cpu_consumption = 0\<rparr>)\<rparr>,
     cos_curr_evt = 3, trace = []\<rparr>"

theorem process_events_visits_all_witness:
  "records note_visit trace \<and> evt_chain (cos_events (notif traced_example)) (cos_curr_evt traced_example) [5]
   \<and> (\<exists>s'. cos_sched_process_events note_visit 0 traced_example = Some (0, s') \<and> trace s' = [(Thd 8, 0, 700), (Thd 9, 4, 0)]
        \<and> cos_curr_evt s' = 5)"
proof -
  have r: "records note_visit trace" by (simp add: records_def note_visit_def upd_nevt_def)
  have c: "evt_chain (cos_events (notif traced_example)) (cos_curr_evt traced_example) [5]"
    by (simp add: evt_chain_def traced_example_def NUM_SCHED_EVTS_def)
  have n: "concat (map (news (cos_events (notif traced_example)) (sched_map_evt_thd traced_example)) [3, 5]) = [(Thd 8, 0, 700), (Thd 9, 4, 0)]"
    by (simp add: news_def traced_example_def)
  have d: "cos_curr_evt traced_example = 3" "trace traced_example = []" by (simp_all add: traced_example_def)
  from process_events_visits_all [OF r c] r c show ?thesis unfolding d n by auto
qed

text \<open>C38.  Where the dependencies between threads do not run in a circle, \<^verbatim>\<open>sched_thd_dependency\<close> ends.
It returns nothing exactly when the thread waits for no other; otherwise it returns a thread at the end of the
chain of dependencies, which waits for no other and carries no mark of a dependency any more.\<close>

theorem sched_thd_dependency_end:
  fixes s :: "'z sched_lib_scheme" and rank :: "sched_node \<Rightarrow> nat"
  assumes "contended_ok s" "\<And>n m. dep_of s n = Some m \<Longrightarrow> rank m < rank n"
  shows "\<exists>r s'. sched_thd_dependency cur s = Some (r, s') \<and> (r = None \<longleftrightarrow> dep_of s cur = None)
    \<and> (case r of None \<Rightarrow> True | Some m \<Rightarrow> (cur, m) \<in> {(a, b). dep_of s a = Some b}\<^sup>+ \<and> dep_of s m = None
         \<and> \<not> sched_thd_dependent (thds s' m))"
proof -
  from thd_dependency_loop_end [where n = cur and rank = rank, OF assms] obtain m s' where m: "thd_dependency_loop cur s = Some (m, s')"
    "(cur, m) \<in> {(a, b). dep_of s a = Some b}\<^sup>*" "dep_of s m = None" "\<not> sched_thd_dependent (thds s' m)" by blast
  show ?thesis
  proof (cases "m = cur")
    case True
    with m show ?thesis by (simp add: sched_thd_dependency_def)
  next
    case False
    then have t: "(cur, m) \<in> {(a, b). dep_of s a = Some b}\<^sup>+" using rtranclD [OF m(2)] by auto
    then have "dep_of s cur \<noteq> None" by (auto dest: tranclD)
    with False m t show ?thesis by (simp add: sched_thd_dependency_def)
  qed
qed

text \<open>Thread 2 waits for the critical section of component 5, which thread 3 holds; thread 3 waits for
thread 4.\<close>

definition dep_example :: sched_lib where
  "dep_example = \<lparr>thds = (\<lambda>_. zero_sthd)(Thd 2 := zero_sthd\<lparr>st_flags := THD_DEPENDENCY, contended_component := 5\<rparr>,
       Thd 3 := zero_sthd\<lparr>st_flags := THD_DEPENDENCY, dependency_thd := Some (Thd 4)\<rparr>),
     sched_thd_map = (\<lambda>_. None), sched_map_evt_thd = (\<lambda>_. None), holding_thd = [5 \<mapsto> Thd 3],
     prio_l = zero_links, sched_l = zero_links, grp_l = zero_links, cevt_l = zero_links, notif = zero_area, cos_curr_evt = 0\<rparr>"

theorem sched_thd_dependency_end_witness:
  "contended_ok dep_example \<and> dep_of dep_example (Thd 2) = Some (Thd 3)
   \<and> (\<exists>m s'. sched_thd_dependency (Thd 2) dep_example = Some (Some m, s') \<and> dep_of dep_example m = None)"
proof -
  let ?rank = "\<lambda>n. case n of Thd i \<Rightarrow> 10 - i | _ \<Rightarrow> 0"
  have c: "contended_ok dep_example" by (simp add: contended_ok_def dep_example_def zero_sthd_def MAX_NUM_SPDS_def)
  have d: "dep_of dep_example n = (if n = Thd 2 then Some (Thd 3) else if n = Thd 3 then Some (Thd 4) else None)" for n
    by (simp add: dep_of_def dep_example_def sched_thd_dependent_def has_def THD_DEPENDENCY_def zero_sthd_def)
  have "?rank m < ?rank n" if "dep_of dep_example n = Some m" for n m using that by (auto simp: d split: if_splits)
  from sched_thd_dependency_end [where s = dep_example and rank = ?rank and cur = "Thd 2", OF c this]
  obtain r s' where r: "sched_thd_dependency (Thd 2) dep_example = Some (r, s')" "r = None \<longleftrightarrow> dep_of dep_example (Thd 2) = None"
    "case r of None \<Rightarrow> True | Some m \<Rightarrow> dep_of dep_example m = None" by (cases "dep_of dep_example (Thd 2)") (auto split: option.splits)
  moreover have "dep_of dep_example (Thd 2) = Some (Thd 3)" by (simp add: d)
  ultimately show ?thesis using c by (cases r) auto
qed

end
