(* ===== verification/Event_Flow.thy ===== *)
theory Event_Flow
  imports Scheduling Cos_Scheduler
begin

text \<open>
  The kernel and a scheduler working on the same queue of events.  The kernel may interrupt the scheduler
  between the two atomic exchanges of \<^verbatim>\<open>cos_sched_process_events\<close> (\<open>evt_take\<close> and \<open>evt_take_cpu\<close>) and at any
  other time, and posts events then (the body of the loop of \<^verbatim>\<open>update_thd_evt_state\<close>).  The step relation
  has these three kinds of steps, each of them the code of its side; the invariant says that news of an
  event is always ahead of the scheduler.
\<close>

datatype phase = Idle | Took nat

definition shared_page :: "spdp \<Rightarrow> kstate \<Rightarrow> vaddr" where
  "shared_page p s = kern_sched_shared_page (spds s p)"

text \<open>The scheduler sees the page of the kernel, and the kernel sees what the scheduler writes.\<close>

definition seen :: "spdp \<Rightarrow> kstate \<Rightarrow> 'z sched_lib_scheme \<Rightarrow> 'z sched_lib_scheme" where
  "seen p s u = u\<lparr>notif := sched_areas s (shared_page p s)\<rparr>"

definition written :: "spdp \<Rightarrow> 'z sched_lib_scheme \<Rightarrow> kstate \<Rightarrow> kstate" where
  "written p u s = upd_area (shared_page p s) (\<lambda>_. notif u) s"

text \<open>Level \<open>i\<close> of thread \<open>t\<close> has event \<open>n\<close> at the scheduler of component \<open>p\<close>.\<close>

definition posts :: "spdp \<Rightarrow> kstate \<Rightarrow> thdp \<Rightarrow> nat \<Rightarrow> u16 \<Rightarrow> nat \<Rightarrow> bool" where
  "posts p s t i flags n \<longleftrightarrow> (let tsi = sched_info (threads s t) i
     in scheduler tsi = Some p \<and> shared_page p s \<noteq> 0 \<and> thread_notifications tsi = Some (shared_page p s, n)
        \<and> unat (ucast (notification_offset tsi) :: u16) = n \<and> 0 < n \<and> n < NUM_SCHED_EVTS
        \<and> \<not> has (ucast flags :: u8) COS_SCHED_EVT_FREE)"

inductive evt_step :: "spdp \<Rightarrow> kstate \<times> 'z sched_lib_scheme \<times> phase \<Rightarrow> kstate \<times> 'z sched_lib_scheme \<times> phase \<Rightarrow> bool" for p where
  post: "posts p s t i flags n \<Longrightarrow> update_thd_evt_state_loop t flags elapsed [i] s = Some s' \<Longrightarrow> evt_step p (s, u, ph) (s', u, ph)"
| take_next: "evt_take (cos_curr_evt u) (seen p s u) = (nx, f, u') \<Longrightarrow> evt_step p (s, u, Idle) (written p u' s, u', Took nx)"
| take_cpu: "evt_take_cpu (cos_curr_evt u) (seen p s u) = (c, u') \<Longrightarrow>
    evt_step p (s, u, Took nx) (written p u' s, if nx = 0 then u' else u'\<lparr>cos_curr_evt := nx\<rparr>, Idle)"

text \<open>An event in use with flags or cycles that no one has been told of.\<close>

definition pending :: "(nat \<Rightarrow> cos_sched_events) \<Rightarrow> nat \<Rightarrow> bool" where
  "pending ev n \<longleftrightarrow> 0 < n \<and> n < NUM_SCHED_EVTS \<and> \<not> has (e_flags (ev n)) COS_SCHED_EVT_FREE
     \<and> (e_flags (ev n) \<noteq> 0 \<or> cpu_consumption (ev n) \<noteq> 0)"

definition stand :: "'z sched_lib_scheme \<Rightarrow> phase \<Rightarrow> nat" where
  "stand u ph = (case ph of Idle \<Rightarrow> cos_curr_evt u | Took nx \<Rightarrow> if nx = 0 then cos_curr_evt u else nx)"

definition none_lost :: "spdp \<Rightarrow> kstate \<times> 'z sched_lib_scheme \<times> phase \<Rightarrow> bool" where
  "none_lost p x = (case x of (s, u, ph) \<Rightarrow> \<exists>xs. evt_queue s p (stand u ph) xs
     \<and> (\<forall>n. pending (cos_events (sched_areas s (shared_page p s))) n \<longrightarrow> n \<in> set (stand u ph # xs)
          \<or> n = cos_curr_evt u \<and> ph \<noteq> Idle \<and> e_flags (cos_events (sched_areas s (shared_page p s)) n) = 0))"

lemma none_lostI:
  assumes "evt_queue s p (stand u ph) xs"
    "\<And>n. pending (cos_events (sched_areas s (shared_page p s))) n \<Longrightarrow> n \<in> set (stand u ph # xs)
          \<or> n = cos_curr_evt u \<and> ph \<noteq> Idle \<and> e_flags (cos_events (sched_areas s (shared_page p s)) n) = 0"
  shows "none_lost p (s, u, ph)"
  unfolding none_lost_def prod.case using assms by blast

lemma none_lostE:
  assumes "none_lost p (s, u, ph)"
  obtains xs where "evt_queue s p (stand u ph) xs"
    "\<And>n. pending (cos_events (sched_areas s (shared_page p s))) n \<Longrightarrow> n \<in> set (stand u ph # xs)
          \<or> n = cos_curr_evt u \<and> ph \<noteq> Idle \<and> e_flags (cos_events (sched_areas s (shared_page p s)) n) = 0"
  using assms unfolding none_lost_def prod.case by blast

lemma written_evt:
  "spds (written p u s) = spds s" "shared_page p (written p u s) = shared_page p s"
  "sched_areas (written p u s) (shared_page p s) = notif u"
  by (simp_all add: written_def shared_page_def)

lemma written_queue:
  "evt_chain (cos_events (notif u)) h xs \<Longrightarrow> unat (prev_notification (spds s p)) = last (h # xs) \<Longrightarrow> evt_queue (written p u s) p h xs"
  unfolding evt_queue_def shared_page_def [symmetric] written_evt by (rule conjI)

subsection \<open>The steps of the scheduler\<close>

lemma take_next_keeps:
  assumes "none_lost p (s, u, Idle)" "evt_take (cos_curr_evt u) (seen p s u) = (nx, f, u')"
  shows "none_lost p (written p u' s, u', Took nx)"
proof -
  let ?ev = "cos_events (sched_areas s (shared_page p s))" and ?d = "cos_curr_evt u"
  from assms(1) obtain xs where q: "evt_queue s p ?d xs" and pend: "\<And>n. pending ?ev n \<Longrightarrow> n \<in> set (?d # xs)"
    by (rule none_lostE) (auto simp: stand_def)
  have u': "nx = unat (e_next (?ev ?d))" "cos_curr_evt u' = ?d"
    "cos_events (notif u') = ?ev(?d := (?ev ?d)\<lparr>e_next := 0, e_flags := 0\<rparr>)"
    using assms(2) by (auto simp: evt_take_def seen_def)
  have c: "evt_chain ?ev ?d xs" and l: "unat (prev_notification (spds s p)) = last (?d # xs)"
    using q by (simp_all add: evt_queue_def shared_page_def)
  have rest: "n \<in> set (?d # xs)" if "pending (cos_events (notif u')) n" for n
    using that pend [of n] by (cases "n = ?d") (auto simp: pending_def u'(3))
  show ?thesis
  proof (cases xs)
    case Nil
    then have nx: "nx = 0" using evt_chain_last c u'(1) by simp
    have st: "stand u' (Took nx) = ?d" by (simp add: stand_def u'(2) nx)
    have "evt_chain (cos_events (notif u')) ?d []"
      using c Nil by (auto simp: evt_chain_def u'(3))
    then have "evt_queue (written p u' s) p ?d []" by (rule written_queue) (use l Nil in simp)
    then show ?thesis
      using rest Nil by (intro none_lostI [where xs = "[]"]) (simp_all only: st written_evt simp_thms)
  next
    case (Cons x ys)
    then have x: "nx = x" "0 < x" using evt_chain_next c u'(1) evt_chain_facts(3) [OF c] by simp_all
    have st: "stand u' (Took nx) = x" using x by (simp add: stand_def)
    have "evt_chain (cos_events (notif u')) x ys"
      by (rule evt_chain_tl [OF c [unfolded Cons]]) (simp_all add: u'(3))
    then have "evt_queue (written p u' s) p x ys" by (rule written_queue) (use l Cons in simp)
    moreover have "n \<in> set (x # ys) \<or> n = cos_curr_evt u' \<and> Took nx \<noteq> Idle \<and> e_flags (cos_events (notif u') n) = 0"
      if "pending (cos_events (notif u')) n" for n
      using rest [OF that] Cons by (cases "n = ?d") (simp_all add: u'(2,3))
    ultimately show ?thesis
      by (intro none_lostI [where xs = ys]) (simp_all only: st written_evt)
  qed
qed

lemma take_cpu_keeps:
  assumes "none_lost p (s, u, Took nx)" "evt_take_cpu (cos_curr_evt u) (seen p s u) = (c, u')"
  shows "none_lost p (written p u' s, if nx = 0 then u' else u'\<lparr>cos_curr_evt := nx\<rparr>, Idle)"
proof -
  let ?ev = "cos_events (sched_areas s (shared_page p s))" and ?d = "cos_curr_evt u" and ?u = "if nx = 0 then u' else u'\<lparr>cos_curr_evt := nx\<rparr>"
  from assms(1) obtain xs where q: "evt_queue s p (stand u (Took nx)) xs"
    and pend: "\<And>n. pending ?ev n \<Longrightarrow> n \<in> set (stand u (Took nx) # xs) \<or> n = ?d \<and> e_flags (?ev n) = 0"
    by (rule none_lostE) blast
  have u': "cos_curr_evt u' = ?d" "cos_events (notif u') = ?ev(?d := (?ev ?d)\<lparr>cpu_consumption := 0\<rparr>)"
    using assms(2) by (auto simp: evt_take_cpu_def seen_def)
  have st: "stand ?u Idle = stand u (Took nx)" by (simp add: stand_def u'(1))
  have "evt_queue (written p u' s) p (stand ?u Idle) xs"
    using q unfolding st evt_queue_def shared_page_def [symmetric] written_evt
    by (subst evt_chain_cong [where ev = ?ev]) (simp_all add: u'(2))
  moreover have "n \<in> set (stand ?u Idle # xs)" if "pending (cos_events (notif u')) n" for n
    using that pend [of n] unfolding st by (cases "n = ?d") (auto simp: pending_def u'(2))
  ultimately show ?thesis by (intro none_lostI [where xs = xs]) (simp_all only: written_evt simp_thms)
qed

subsection \<open>The step of the kernel\<close>

lemma queued_mono: "m \<in> set (h # xs) \<or> Q \<Longrightarrow> m \<in> set (h # (if n \<in> set (h # xs) then xs else xs @ [n])) \<or> Q"
  by auto

lemma queued_new: "n \<in> set (h # (if n \<in> set (h # xs) then xs else xs @ [n]))"
  by simp

lemma post_keeps:
  assumes "none_lost p (s, u, ph)" "posts p s t i flags n" "update_thd_evt_state_loop t flags elapsed [i] s = Some s'"
  shows "none_lost p (s', u, ph)"
proof -
  let ?da = "shared_page p s" and ?ev = "\<lambda>s. cos_events (sched_areas s (shared_page p s))" and ?h = "stand u ph"
  define tsi where "tsi = sched_info (threads s t) i"
  have tsi: "scheduler tsi = Some p" "thread_notifications tsi = Some (?da, n)" "unat (ucast (notification_offset tsi) :: u16) = n" "0 < n" "n < NUM_SCHED_EVTS"
    "kern_sched_shared_page (spds s p) \<noteq> 0" "\<not> has (ucast flags :: u8) COS_SCHED_EVT_FREE"
    using assms(2) by (simp_all add: posts_def Let_def tsi_def shared_page_def)
  from assms(1) obtain xs where q: "evt_queue s p ?h xs"
    and pend: "\<And>m. pending (?ev s) m \<Longrightarrow> m \<in> set (?h # xs) \<or> m = cos_curr_evt u \<and> ph \<noteq> Idle \<and> e_flags (?ev s m) = 0"
    by (rule none_lostE) blast
  define s1 where "s1 = (if elapsed \<noteq> 0 then upd_evt ?da n (\<lambda>e. e\<lparr>cpu_consumption := consume (cpu_consumption e) elapsed\<rparr>) s else s)"
  define s2 where "s2 = (if flags \<noteq> COS_SCHED_EVT_NIL then upd_evt ?da n (\<lambda>e. e\<lparr>e_flags := ucast flags\<rparr>) s1 else s1)"
  have s2: "spds s2 = spds s" "\<And>j. e_next (?ev s2 j) = e_next (?ev s j)" "\<And>j. j \<noteq> n \<Longrightarrow> ?ev s2 j = ?ev s j"
    by (simp_all add: s2_def s1_def upd_evt_def shared_page_def)
  have "update_thd_evt_state_loop t flags elapsed [i] s = do { (_, s) \<leftarrow> update_evt_list tsi s2; Some s }"
    using tsi(1,2,6) unfolding s2_def s1_def shared_page_def by (simp add: tsi_def Let_def case_prod_unfold)
  with assms(3) have up: "\<exists>r. update_evt_list tsi s2 = Some (r, s')" by (cases "update_evt_list tsi s2") auto
  have "evt_chain (?ev s2) ?h xs" using q s2(1) unfolding evt_queue_def shared_page_def [symmetric]
    by (subst evt_chain_cong [where ev = "?ev s"]) (simp_all add: s2(2))
  then have q2: "evt_queue s2 p ?h xs" using q s2(1) by (simp add: evt_queue_def shared_page_def)
  have "kern_sched_shared_page (spds s2 p) \<noteq> 0" using tsi(6) s2(1) by simp
  from update_evt_list_queue [OF q2 tsi(1) this tsi(3,4,5)] obtain x where x: "update_evt_list tsi s2 = Some (0, x)"
    "evt_queue x p ?h (if n \<in> set (?h # xs) then xs else xs @ [n])" "shared_page p x = shared_page p s2"
    "\<forall>j. e_flags (cos_events (sched_areas x (shared_page p s2)) j) = e_flags (?ev s2 j)
       \<and> cpu_consumption (cos_events (sched_areas x (shared_page p s2)) j) = cpu_consumption (?ev s2 j)"
    unfolding shared_page_def by blast
  from up x(1) have "x = s'" by (elim exE) simp
  with x(2-4) have s3: "evt_queue s' p ?h (if n \<in> set (?h # xs) then xs else xs @ [n])"
    "\<And>j. e_flags (?ev s' j) = e_flags (?ev s2 j)" "\<And>j. cpu_consumption (?ev s' j) = cpu_consumption (?ev s2 j)"
    by (simp_all only:)
  show ?thesis
  proof (rule none_lostI [where xs = "if n \<in> set (?h # xs) then xs else xs @ [n]"])
    show "evt_queue s' p ?h (if n \<in> set (?h # xs) then xs else xs @ [n])" by (rule s3(1))
    fix m assume m: "pending (?ev s') m"
    show "m \<in> set (?h # (if n \<in> set (?h # xs) then xs else xs @ [n])) \<or> m = cos_curr_evt u \<and> ph \<noteq> Idle \<and> e_flags (?ev s' m) = 0"
    proof (cases "m = n")
      case False
      have eq: "e_flags (?ev s' m) = e_flags (?ev s m)" "cpu_consumption (?ev s' m) = cpu_consumption (?ev s m)"
        unfolding s3(2,3) s2(3) [OF False] by (rule refl)+
      from m have "pending (?ev s) m" unfolding pending_def eq .
      then have "m \<in> set (?h # xs) \<or> m = cos_curr_evt u \<and> ph \<noteq> Idle \<and> e_flags (?ev s m) = 0" by (rule pend)
      then show ?thesis unfolding eq by (rule queued_mono)
    next
      case True
      show ?thesis unfolding True by (rule disjI1 [OF queued_new])
    qed
  qed
qed

lemma evt_step_keeps: "evt_step p x y \<Longrightarrow> none_lost p x \<Longrightarrow> none_lost p y"
proof (induction rule: evt_step.induct)
  case (post s t i flags n elapsed s' u ph)
  show ?case by (rule post_keeps [OF post.prems post.hyps])
next
  case (take_next u s nx f u')
  show ?case by (rule take_next_keeps [OF take_next.prems take_next.hyps])
next
  case (take_cpu u s c u' nx)
  show ?case by (rule take_cpu_keeps [OF take_cpu.prems take_cpu.hyps])
qed

lemma evt_steps_keep: "(evt_step p)\<^sup>*\<^sup>* x y \<Longrightarrow> none_lost p x \<Longrightarrow> none_lost p y"
  by (induction rule: rtranclp_induct) (blast intro: evt_step_keeps)+

subsection \<open>Processing at the end\<close>

lemma flow_process:
  fixes u :: "'z sched_lib_scheme"
  assumes "none_lost p (s, u, Idle)" "records fn tr"
  shows "\<exists>v. cos_sched_process_events fn 0 (seen p s u) = Some (0, v)
    \<and> (\<forall>n t. pending (cos_events (sched_areas s (shared_page p s))) n \<and> sched_map_evt_thd u n = Some t \<longrightarrow>
         (t, e_flags (cos_events (sched_areas s (shared_page p s)) n), cpu_consumption (cos_events (sched_areas s (shared_page p s)) n)) \<in> set (tr v))
    \<and> (\<forall>n. \<not> pending (cos_events (notif v)) n)"
proof -
  let ?ev = "cos_events (sched_areas s (shared_page p s))" and ?w = "seen p s u"
  from assms(1) obtain xs where q: "evt_queue s p (cos_curr_evt u) xs" and pend: "\<And>n. pending ?ev n \<Longrightarrow> n \<in> set (cos_curr_evt u # xs)"
    by (rule none_lostE) (auto simp: stand_def)
  have w: "cos_events (notif ?w) = ?ev" "cos_curr_evt ?w = cos_curr_evt u" "sched_map_evt_thd ?w = sched_map_evt_thd u"
    by (simp_all add: seen_def)
  have c: "evt_chain (cos_events (notif ?w)) (cos_curr_evt ?w) xs" using q unfolding w by (simp add: evt_queue_def shared_page_def)
  from process_events_chain [OF assms(2) c evt_chain_fuel [OF c]] obtain v where
    v: "cos_sched_process_events fn 0 ?w = Some (0, v)" "tr v = tr ?w @ concat (map (news ?ev (sched_map_evt_thd u)) (cos_curr_evt u # xs))"
    "\<forall>n. if n \<in> set (cos_curr_evt u # xs) then e_flags (cos_events (notif v) n) = 0 \<and> cpu_consumption (cos_events (notif v) n) = 0
         else e_flags (cos_events (notif v) n) = e_flags (?ev n) \<and> cpu_consumption (cos_events (notif v) n) = cpu_consumption (?ev n)"
    unfolding w cos_sched_process_events_def by auto
  have "\<not> pending (cos_events (notif v)) n" for n
  proof (cases "n \<in> set (cos_curr_evt u # xs)")
    case True
    with v(3) [rule_format, of n] show ?thesis by (simp add: pending_def)
  next
    case False
    with v(3) [rule_format, of n] have "pending (cos_events (notif v)) n \<longleftrightarrow> pending ?ev n" by (simp add: pending_def)
    with False pend show ?thesis by blast
  qed
  moreover have "(t, e_flags (?ev n), cpu_consumption (?ev n)) \<in> set (tr v)" if "pending ?ev n" "sched_map_evt_thd u n = Some t" for n t
  proof -
    have "n \<noteq> 0 \<and> (cpu_consumption (?ev n) \<noteq> 0 \<or> e_flags (?ev n) \<noteq> 0)" using that(1) unfolding pending_def by blast
    then have "news ?ev (sched_map_evt_thd u) n = [(t, e_flags (?ev n), cpu_consumption (?ev n))]"
      unfolding news_def that(2) by (simp only: if_True simp_thms option.case)
    then have "(t, e_flags (?ev n), cpu_consumption (?ev n)) \<in> set (news ?ev (sched_map_evt_thd u) n)" by (simp only: list.set_intros)
    with pend [OF that(1)] show ?thesis unfolding v(2) set_append set_concat set_map by blast
  qed
  ultimately show ?thesis using v(1) by blast
qed

end
