(* ===== verification/Bitmap.thy ===== *)
theory Bitmap
  imports Cos_Prelude "HOL-Library.Signed_Division"
begin

text \<open>
  The bit operations of the component library (\<^verbatim>\<open>components/include/bitmap.h\<close>): arithmetic on single
  words, and bitmaps held in arrays of words.  A bitmap is the list of the words that its memory has; an
  access outside it fails.  Bit numbers are C integers.
\<close>

definition WORD_SIZE :: nat where "WORD_SIZE = 32"

subsection \<open>Words\<close>

definition ones :: "u32 \<Rightarrow> u32" where
  "ones x = (let
     x = x - (drop_bit 1 x AND 0x55555555);
     x = (drop_bit 2 x AND 0x33333333) + (x AND 0x33333333);
     x = (drop_bit 4 x + x) AND 0x0F0F0F0F;
     x = x + drop_bit 8 x;
     x = x + drop_bit 16 x
   in x AND 0x0000003f)"

text \<open>The five steps that copy the highest set bit downwards, which three of the routines have.\<close>

definition smear :: "u32 \<Rightarrow> u32" where
  "smear x = (let
     x = x OR drop_bit 1 x;
     x = x OR drop_bit 2 x;
     x = x OR drop_bit 4 x;
     x = x OR drop_bit 8 x
   in x OR drop_bit 16 x)"

definition nlpow2 :: "u32 \<Rightarrow> u32" where
  "nlpow2 x = smear x + 1"

definition ls_one :: "u32 \<Rightarrow> u32" where
  "ls_one x = x AND (- x)"

definition log32 :: "u32 \<Rightarrow> u32" where
  "log32 x = (let
     y = x AND (x - 1);
     y = y OR (- y);
     y = drop_bit (WORD_SIZE - 1) y
   in ones (drop_bit 1 (smear x)) - y)"

definition log32_floor :: "u32 \<Rightarrow> u32" where
  "log32_floor x = ones (drop_bit 1 (smear x))"

definition bitmap_set_word :: "u32 \<Rightarrow> nat \<Rightarrow> u32" where
  "bitmap_set_word x v = x OR push_bit v 1"

definition bitmap_check_word :: "u32 \<Rightarrow> nat \<Rightarrow> u32" where
  "bitmap_check_word x v = x AND push_bit v 1"

definition bitmap_unset_word :: "u32 \<Rightarrow> nat \<Rightarrow> u32" where
  "bitmap_unset_word x v = x AND NOT (push_bit v 1)"

subsection \<open>Arrays of words\<close>

definition bm_idx :: "int \<Rightarrow> int" where "bm_idx v = v sdiv int WORD_SIZE"
definition bm_off :: "int \<Rightarrow> nat" where "bm_off v = nat (v mod int WORD_SIZE)"

definition bm_word :: "u32 list \<Rightarrow> int \<Rightarrow> u32 option" where
  "bm_word x i = (if 0 \<le> i \<and> i < int (length x) then Some (x ! nat i) else None)"

definition bitmap_set :: "int \<Rightarrow> u32 list \<Rightarrow> u32 list option" where
  "bitmap_set v x = do { w \<leftarrow> bm_word x (bm_idx v); Some (x[nat (bm_idx v) := bitmap_set_word w (bm_off v)]) }"

definition bitmap_check :: "u32 list \<Rightarrow> int \<Rightarrow> u32 option" where
  "bitmap_check x v = do { w \<leftarrow> bm_word x (bm_idx v); Some (bitmap_check_word w (bm_off v)) }"

definition bitmap_unset :: "int \<Rightarrow> u32 list \<Rightarrow> u32 list option" where
  "bitmap_unset v x = do { w \<leftarrow> bm_word x (bm_idx v); Some (x[nat (bm_idx v) := bitmap_unset_word w (bm_off v)]) }"

fun bitmap_one_loop :: "u32 list \<Rightarrow> nat list \<Rightarrow> int option" where
  "bitmap_one_loop x [] = Some (-1)"
| "bitmap_one_loop x (i # is) = do {
     w \<leftarrow> bm_word x (int i);
     if w = 0 then bitmap_one_loop x is
     else Some (int i * int WORD_SIZE + uint (log32 (ls_one w))) }"

definition bitmap_one :: "u32 list \<Rightarrow> int \<Rightarrow> int option" where
  "bitmap_one x mx = bitmap_one_loop x [0..<nat mx]"

text \<open>\<^verbatim>\<open>x+words\<close> is the bitmap without its first words.\<close>

definition bitmap_one_offset :: "u32 list \<Rightarrow> int \<Rightarrow> int \<Rightarrow> int option" where
  "bitmap_one_offset x off mx = do {
     let subword = bm_off off;
     let words = bm_idx off;
     (found, words) \<leftarrow> (if subword \<noteq> 0
       then do {
         w \<leftarrow> bm_word x words;
         let v = drop_bit subword w;
         Some (if v \<noteq> 0 then Some (uint (log32 (ls_one v)) + off) else None, words + 1) }
       else Some (None, words));
     case found of Some r \<Rightarrow> Some r
     | None \<Rightarrow> do {
         c_assert (0 \<le> words);
         ret \<leftarrow> bitmap_one (drop (nat words) x) (mx - words);
         Some (if ret \<noteq> -1 then ret + words * int WORD_SIZE else ret) } }"

definition bitmap_set_contig :: "int \<Rightarrow> int \<Rightarrow> bool \<Rightarrow> u32 list \<Rightarrow> u32 list option" where
  "bitmap_set_contig off extent one x =
     fold_opt (\<lambda>i. if one then bitmap_set i else bitmap_unset i) [off..off + extent - 1] x"

text \<open>The loop counter is moved to the next set bit by the body; the limit is the number of bytes.\<close>

partial_function (option) bitmap_contiguous_loop :: "u32 list \<Rightarrow> int \<Rightarrow> int \<Rightarrow> int \<Rightarrow> int \<Rightarrow> int option" where
  "bitmap_contiguous_loop x extent mx start i =
     (if \<not> i < mx * 4 then Some (-1)
      else do {
        let prev = i;
        i \<leftarrow> bitmap_one_offset x i mx;
        if i < 0 then Some (-1)
        else if i \<noteq> prev then bitmap_contiguous_loop x extent mx i (i + 1)
        else if i - start = extent then Some start
        else bitmap_contiguous_loop x extent mx start (i + 1) })"

definition bitmap_contiguous_ones :: "u32 list \<Rightarrow> int \<Rightarrow> int \<Rightarrow> int \<Rightarrow> int option" where
  "bitmap_contiguous_ones x off extent mx = bitmap_contiguous_loop x extent mx 0 0"

definition bitmap_extent_find_set :: "int \<Rightarrow> int \<Rightarrow> int \<Rightarrow> u32 list \<Rightarrow> (int \<times> u32 list) option" where
  "bitmap_extent_find_set off extent mx x = do {
     r \<leftarrow> bitmap_contiguous_ones x off extent mx;
     if r < 0 then Some (r, x)
     else do { x \<leftarrow> bitmap_set_contig r extent False x; Some (r, x) } }"

subsection \<open>The lowest set bit\<close>

text \<open>Bit \<open>k\<close> is the lowest set bit of \<open>w\<close>.\<close>

definition lowest :: "u32 \<Rightarrow> nat \<Rightarrow> bool" where
  "lowest w k \<longleftrightarrow> k < 32 \<and> bit w k \<and> (\<forall>j < k. \<not> bit w j)"

lemma lowest_exists: "w \<noteq> 0 \<Longrightarrow> \<exists>k. lowest w k"
proof -
  assume "w \<noteq> 0"
  then obtain n where "bit w n" by (auto simp: bit_eq_iff)
  then have "bit w (LEAST k. bit w k)" by (rule LeastI)
  moreover from this have "(LEAST k. bit w k) < 32" by (auto dest: bit_imp_le_length)
  ultimately show ?thesis using not_less_Least unfolding lowest_def by blast
qed

lemma ls_one_lowest:
  assumes "lowest w k"
  shows "ls_one w = 2 ^ k"
proof -
  let ?h = "w AND NOT (mask (Suc k))"
  have k: "k < 32" "bit w k" "\<And>j. bit w j \<Longrightarrow> k \<le> j" using assms by (auto simp: lowest_def not_less [symmetric])
  have w: "w = ?h OR 2 ^ k"
    using k by (intro bit_eqI) (auto simp: bit_simps less_Suc_eq not_less dest: k(3))
  have "?h AND 2 ^ k = 0" "?h AND mask k = 0" by (auto intro!: bit_eqI simp: bit_simps)
  then have "?h OR 2 ^ k = ?h + 2 ^ k" "?h OR mask k = ?h + mask k" by (simp_all only: disjunctive_add_eq_or)
  then have "w - 1 = ?h OR mask k" using w by (simp add: mask_eq_exp_minus_1)
  then have "ls_one w = w AND NOT (?h OR mask k)" by (simp add: ls_one_def minus_eq_not_minus_1)
  then show ?thesis using k by (intro bit_eqI) (auto simp: bit_simps less_Suc_eq not_less dest: k(3))
qed

lemma log32_values:
  "log32 1 = 0" "log32 2 = 1" "log32 4 = 2" "log32 8 = 3"
  "log32 0x10 = 4" "log32 0x20 = 5" "log32 0x40 = 6" "log32 0x80 = 7"
  "log32 0x100 = 8" "log32 0x200 = 9" "log32 0x400 = 10" "log32 0x800 = 11"
  "log32 0x1000 = 12" "log32 0x2000 = 13" "log32 0x4000 = 14" "log32 0x8000 = 15"
  "log32 0x10000 = 16" "log32 0x20000 = 17" "log32 0x40000 = 18" "log32 0x80000 = 19"
  "log32 0x100000 = 20" "log32 0x200000 = 21" "log32 0x400000 = 22" "log32 0x800000 = 23"
  "log32 0x1000000 = 24" "log32 0x2000000 = 25" "log32 0x4000000 = 26" "log32 0x8000000 = 27"
  "log32 0x10000000 = 28" "log32 0x20000000 = 29" "log32 0x40000000 = 30" "log32 0x80000000 = 31"
  by (simp_all add: log32_def ones_def smear_def WORD_SIZE_def)

lemma log32_powers: "list_all (\<lambda>k. log32 (2 ^ k) = of_nat k) [0..<32]"
  by (simp add: upt_rec log32_values)

lemma log32_lowest:
  assumes "lowest w k"
  shows "uint (log32 (ls_one w)) = int k"
proof -
  have "k < 32" using assms by (simp add: lowest_def)
  then have "log32 (2 ^ k) = of_nat k" using log32_powers by (auto simp: list_all_iff)
  with \<open>k < 32\<close> show ?thesis by (simp add: ls_one_lowest [OF assms] uint_nat of_nat_inverse)
qed

subsection \<open>Bitmaps as sets of bit numbers\<close>

definition bit_at :: "u32 list \<Rightarrow> nat \<Rightarrow> bool" where
  "bit_at x i \<longleftrightarrow> bit (x ! (i div 32)) (i mod 32)"

lemma bm_nat [simp]: "bm_idx (int i) = int (i div 32)" "bm_off (int i) = i mod 32"
  by (auto simp: bm_idx_def bm_off_def WORD_SIZE_def signed_divide_int_def zdiv_int nat_mod_distrib sgn_if)

lemma bm_word_nat: "i < length x \<Longrightarrow> bm_word x (int i) = Some (x ! i)"
  by (simp add: bm_word_def)

lemma same_bit: "i div 32 = j div 32 \<Longrightarrow> i mod 32 = j mod (32::nat) \<Longrightarrow> i = j"
  by (metis div_mult_mod_eq)

lemma in_words: "i < 32 * length x \<Longrightarrow> i div 32 < length (x :: u32 list)"
  by (simp add: div_less_iff_less_mult mult.commute)

lemma bitmap_set_ok:
  assumes "i < 32 * length x"
  shows "\<exists>x'. bitmap_set (int i) x = Some x' \<and> length x' = length x \<and> (\<forall>j. bit_at x' j \<longleftrightarrow> j = i \<or> bit_at x j)"
  using in_words [OF assms] same_bit [of _ i]
  by (auto simp: bitmap_set_def bm_word_nat bit_at_def bitmap_set_word_def bit_simps nth_list_update)

lemma bitmap_unset_ok:
  assumes "i < 32 * length x"
  shows "\<exists>x'. bitmap_unset (int i) x = Some x' \<and> length x' = length x \<and> (\<forall>j. bit_at x' j \<longleftrightarrow> j \<noteq> i \<and> bit_at x j)"
  using in_words [OF assms] same_bit [of _ i]
  by (auto simp: bitmap_unset_def bm_word_nat bit_at_def bitmap_unset_word_def bit_simps nth_list_update)

lemma bitmap_check_ok:
  assumes "i < 32 * length x"
  shows "\<exists>w. bitmap_check x (int i) = Some w \<and> (w \<noteq> 0 \<longleftrightarrow> bit_at x i)"
  using in_words [OF assms]
  by (auto simp: bitmap_check_def bm_word_nat bit_at_def bitmap_check_word_def push_bit_eq_mult and_exp_eq_0_iff_not_bit)

text \<open>The first set bit from \<open>lo\<close> on, below \<open>hi\<close>, as the routines report it.\<close>

definition next_one :: "(nat \<Rightarrow> bool) \<Rightarrow> nat \<Rightarrow> nat \<Rightarrow> int" where
  "next_one P lo hi = (case find P [lo..<hi] of None \<Rightarrow> -1 | Some k \<Rightarrow> int k)"

lemma find_upt_Some: "find P [lo..<hi] = Some k \<longleftrightarrow> lo \<le> k \<and> k < hi \<and> P k \<and> (\<forall>j. lo \<le> j \<longrightarrow> j < k \<longrightarrow> \<not> P j)"
proof
  assume "find P [lo..<hi] = Some k"
  then obtain i where i: "i < hi - lo" "P ([lo..<hi] ! i)" "k = [lo..<hi] ! i" "\<forall>j < i. \<not> P ([lo..<hi] ! j)"
    by (auto simp: find_Some_iff)
  then have "k = lo + i" by simp
  moreover have "\<not> P j" if "lo \<le> j" "j < k" for j
    using i(1,4) that \<open>k = lo + i\<close> by (auto dest!: spec [of _ "j - lo"])
  ultimately show "lo \<le> k \<and> k < hi \<and> P k \<and> (\<forall>j. lo \<le> j \<longrightarrow> j < k \<longrightarrow> \<not> P j)" using i by auto
next
  assume "lo \<le> k \<and> k < hi \<and> P k \<and> (\<forall>j. lo \<le> j \<longrightarrow> j < k \<longrightarrow> \<not> P j)"
  then show "find P [lo..<hi] = Some k" by (auto simp: find_Some_iff intro!: exI [of _ "k - lo"])
qed

lemma next_one_found: "lo \<le> k \<Longrightarrow> k < hi \<Longrightarrow> P k \<Longrightarrow> (\<And>j. lo \<le> j \<Longrightarrow> j < k \<Longrightarrow> \<not> P j) \<Longrightarrow> next_one P lo hi = int k"
  using find_upt_Some [of P lo hi k] by (simp add: next_one_def)

lemma next_one_skip: "lo \<le> mid \<Longrightarrow> mid \<le> hi \<Longrightarrow> (\<And>j. lo \<le> j \<Longrightarrow> j < mid \<Longrightarrow> \<not> P j) \<Longrightarrow> next_one P lo hi = next_one P mid hi"
proof (induction "mid - lo" arbitrary: lo)
  case (Suc n)
  then have "lo < hi" "\<not> P lo" by auto
  then have "next_one P lo hi = next_one P (Suc lo) hi" by (simp add: next_one_def upt_conv_Cons)
  with Suc show ?case by auto
qed simp

lemma next_one_shift: "next_one P (n + lo) (n + hi) = (let r = next_one (\<lambda>i. P (n + i)) lo hi in if r \<noteq> -1 then r + int n else r)"
proof -
  have "find P (map ((+) n) xs) = map_option ((+) n) (find (\<lambda>i. P (n + i)) xs)" for xs by (induction xs) auto
  moreover have "[n + lo..<n + hi] = map ((+) n) [lo..<hi]" by (simp add: list_eq_iff_nth_eq)
  ultimately show ?thesis by (auto simp: next_one_def Let_def split: option.splits)
qed

lemma word_bits:
  assumes "32 * i \<le> j" "j < 32 * i + 32"
  shows "bit_at x j \<longleftrightarrow> bit (x ! i) (j - 32 * i)"
proof -
  obtain d where d: "j = 32 * i + d" "d < 32" using assms by (metis le_add_diff_inverse add_less_cancel_left)
  then have "j div 32 = i" "j mod 32 = d" by simp_all
  with d show ?thesis by (simp add: bit_at_def)
qed

lemma bitmap_one_loop_ok:
  "i \<le> mx \<Longrightarrow> mx \<le> length x \<Longrightarrow> bitmap_one_loop x [i..<mx] = Some (next_one (bit_at x) (32 * i) (32 * mx))"
proof (induction "mx - i" arbitrary: i)
  case 0
  then show ?case by (simp add: next_one_def)
next
  case (Suc n)
  then have i: "i < mx" "i < length x" by auto
  have unf: "bitmap_one_loop x [i..<mx] = (if x ! i = 0 then bitmap_one_loop x [Suc i..<mx]
      else Some (int i * 32 + uint (log32 (ls_one (x ! i)))))"
    using i by (simp add: upt_conv_Cons bm_word_nat WORD_SIZE_def)
  show ?case
  proof (cases "x ! i = 0")
    case True
    have "next_one (bit_at x) (32 * i) (32 * mx) = next_one (bit_at x) (32 * Suc i) (32 * mx)"
      by (rule next_one_skip) (use i True word_bits [of i _ x] in auto)
    with True unf Suc.hyps(1) [of "Suc i"] Suc.hyps(2) Suc.prems i show ?thesis by simp
  next
    case False
    then obtain k where k: "lowest (x ! i) k" using lowest_exists by blast
    have k': "k < 32" "bit (x ! i) k" "\<And>j. j < k \<Longrightarrow> \<not> bit (x ! i) j" using k by (auto simp: lowest_def)
    have "next_one (bit_at x) (32 * i) (32 * mx) = int (32 * i + k)"
      by (rule next_one_found) (use i k' word_bits [of i _ x] in auto)
    with False unf show ?thesis by (simp add: log32_lowest [OF k])
  qed
qed

lemma bit_at_drop: "n \<le> length x \<Longrightarrow> bit_at (drop n x) = (\<lambda>i. bit_at x (32 * n + i))"
  by (simp add: bit_at_def fun_eq_iff)

lemma bitmap_one_drop:
  assumes "n \<le> mx" "mx \<le> length x"
  shows "\<exists>r. bitmap_one (drop n x) (int mx - int n) = Some r
    \<and> (if r \<noteq> -1 then r + int n * 32 else r) = next_one (bit_at x) (32 * n) (32 * mx)"
proof -
  have mn: "nat (int mx - int n) = mx - n" by simp
  have "bitmap_one (drop n x) (int mx - int n) = Some (next_one (\<lambda>i. bit_at x (32 * n + i)) 0 (32 * (mx - n)))"
    using bitmap_one_loop_ok [of 0 "mx - n" "drop n x"] assms by (simp add: bitmap_one_def mn bit_at_drop)
  moreover have "32 * mx = 32 * n + 32 * (mx - n)" using assms by simp
  ultimately show ?thesis using next_one_shift [of "bit_at x" "32 * n" 0 "32 * (mx - n)"] by (simp add: Let_def mult.commute)
qed

lemma bitmap_one_offset_ok:
  assumes "off \<le> 32 * mx" "mx \<le> length x"
  shows "bitmap_one_offset x (int off) (int mx) = Some (next_one (bit_at x) off (32 * mx))"
proof (cases "off mod 32 = 0")
  case True
  then have off: "off = 32 * (off div 32)" by auto
  then have "off div 32 \<le> mx" using assms(1) by linarith
  from bitmap_one_drop [OF this assms(2)] obtain r where
    "bitmap_one (drop (off div 32) x) (int mx - int (off div 32)) = Some r"
    "(if r \<noteq> -1 then r + int (off div 32) * 32 else r) = next_one (bit_at x) (32 * (off div 32)) (32 * mx)" by blast
  with True off show ?thesis
    by (simp add: bitmap_one_offset_def WORD_SIZE_def Let_def zdiv_int [symmetric] split: if_splits)
next
  case False
  let ?n = "off div 32" and ?s = "off mod 32"
  have off: "off = 32 * ?n + ?s" by simp
  have n: "?n < mx" using assms(1) False by (metis div_less_iff_less_mult le_neq_implies_less mod_mult_self1_is_0 mult.commute zero_less_numeral)
  have w: "bm_word x (int ?n) = Some (x ! ?n)" using n assms(2) by (intro bm_word_nat) simp
  have bits: "bit_at x j \<longleftrightarrow> bit (drop_bit ?s (x ! ?n)) (j - off)" if "off \<le> j" "j < 32 * Suc ?n" for j
  proof -
    obtain n t where nt: "?n = n" "?s = t" by blast
    with off that have "32 * n \<le> j" "j < 32 * n + 32" "j - 32 * n = t + (j - off)" by simp_all
    then have "32 * ?n \<le> j" "j < 32 * ?n + 32" "j - 32 * ?n = ?s + (j - off)" unfolding nt .
    with word_bits [of ?n j x] show ?thesis by (simp add: bit_drop_bit_eq)
  qed
  show ?thesis
  proof (cases "drop_bit ?s (x ! ?n) = 0")
    case True
    have skip: "next_one (bit_at x) off (32 * mx) = next_one (bit_at x) (32 * Suc ?n) (32 * mx)"
      by (rule next_one_skip) (use n bits True off in \<open>auto simp: dest!: sym [of off]\<close>)
    from bitmap_one_drop [of "Suc ?n" mx x] n assms(2) obtain r where
      "bitmap_one (drop (Suc ?n) x) (int mx - int (Suc ?n)) = Some r"
      "(if r \<noteq> -1 then r + int (Suc ?n) * 32 else r) = next_one (bit_at x) (32 * Suc ?n) (32 * mx)" by auto
    with True False w skip show ?thesis
      by (simp add: bitmap_one_offset_def WORD_SIZE_def Let_def nat_add_distrib algebra_simps split: if_splits)
  next
    case v: False
    then obtain k where k: "lowest (drop_bit ?s (x ! ?n)) k" using lowest_exists by blast
    then have b: "bit (drop_bit ?s (x ! ?n)) k" "\<And>j. j < k \<Longrightarrow> \<not> bit (drop_bit ?s (x ! ?n)) j" by (auto simp: lowest_def)
    then have "?s + k < 32" by (auto simp: bit_drop_bit_eq dest: bit_imp_le_length)
    moreover obtain n t where nt: "?n = n" "?s = t" by blast
    ultimately have "off + k < 32 * Suc n" using off by simp
    then have lt: "off + k < 32 * Suc ?n" unfolding nt .
    have "next_one (bit_at x) off (32 * mx) = int (off + k)"
      by (rule next_one_found) (use n b bits lt in auto)
    with False v w k show ?thesis by (simp add: bitmap_one_offset_def Let_def log32_lowest)
  qed
qed

subsection \<open>The search for an extent\<close>

lemma next_one_cases:
  obtains "next_one P lo hi = -1" | j where "next_one P lo hi = int j" "lo \<le> j" "j < hi" "P j"
  by (cases "find P [lo..<hi]") (auto simp: next_one_def find_upt_Some)

text \<open>All bits from \<open>a\<close> up to \<open>b\<close>, exclusively, are set.\<close>

definition free_run :: "u32 list \<Rightarrow> nat \<Rightarrow> nat \<Rightarrow> bool" where
  "free_run x a b \<longleftrightarrow> (\<forall>j. a \<le> j \<and> j < b \<longrightarrow> bit_at x j)"

lemma free_run_Suc: "free_run x a b \<Longrightarrow> bit_at x b \<Longrightarrow> free_run x a (Suc b)"
  by (auto simp: free_run_def less_Suc_eq)

lemma bitmap_contiguous_loop_ok:
  assumes "mx \<le> length x"
  shows "free_run x st i \<Longrightarrow> st \<le> i \<Longrightarrow>
    \<exists>r. bitmap_contiguous_loop x (int ext) (int mx) (int st) (int i) = Some r
      \<and> (r = -1 \<or> (\<exists>q. r = int q \<and> q + ext < 32 * mx \<and> free_run x q (Suc (q + ext))))"
proof (induction "4 * mx - i" arbitrary: st i rule: less_induct)
  case less
  show ?case
  proof (cases "i < 4 * mx")
    case False
    then show ?thesis by (subst bitmap_contiguous_loop.simps) simp
  next
    case True
    then have one: "bitmap_one_offset x (int i) (int mx) = Some (next_one (bit_at x) i (32 * mx))"
      by (intro bitmap_one_offset_ok assms) simp
    have rec: "free_run x st' (Suc i') \<Longrightarrow> st' \<le> Suc i' \<Longrightarrow> i \<le> i' \<Longrightarrow>
      \<exists>r. bitmap_contiguous_loop x (int ext) (int mx) (int st') (int i' + 1) = Some r
        \<and> (r = -1 \<or> (\<exists>q. r = int q \<and> q + ext < 32 * mx \<and> free_run x q (Suc (q + ext))))" for st' i'
      using less.hyps [of "Suc i'" st'] True by (simp add: add.commute)
    show ?thesis
    proof (cases rule: next_one_cases [of "bit_at x" i "32 * mx"])
      case 1
      with True one show ?thesis by (subst bitmap_contiguous_loop.simps) simp
    next
      case (2 j)
      have unf: "bitmap_contiguous_loop x (int ext) (int mx) (int st) (int i)
          = (if j \<noteq> i then bitmap_contiguous_loop x (int ext) (int mx) (int j) (int j + 1)
             else if int i - int st = int ext then Some (int st)
             else bitmap_contiguous_loop x (int ext) (int mx) (int st) (int i + 1))"
        using True one 2 by (subst bitmap_contiguous_loop.simps) simp
      show ?thesis
      proof (cases "j = i \<and> int i - int st = int ext")
        case hit: True
        then have "st + ext = i" by simp
        with hit 2 less.prems unf show ?thesis by (auto simp: free_run_Suc)
      next
        case False
        have "free_run x j (Suc j)" using 2 by (auto simp: free_run_def less_Suc_eq)
        moreover have "j = i \<Longrightarrow> free_run x st (Suc i)" using less.prems 2 by (simp add: free_run_Suc)
        ultimately show ?thesis using False rec [of j j] rec [of st i] less.prems 2 unfolding unf by auto
      qed
    qed
  qed
qed

lemma bitmap_set_contig_ok:
  assumes "q + ext \<le> 32 * length x"
  shows "\<exists>y. bitmap_set_contig (int q) (int ext) one x = Some y \<and> length y = length x
    \<and> (\<forall>j. bit_at y j = (if q \<le> j \<and> j < q + ext then one else bit_at x j))"
  using assms
proof (induction ext)
  case 0
  then show ?case by (auto simp: bitmap_set_contig_def)
next
  case (Suc n)
  then obtain y where y: "bitmap_set_contig (int q) (int n) one x = Some y" "length y = length x"
    "\<forall>j. bit_at y j = (if q \<le> j \<and> j < q + n then one else bit_at x j)" by auto
  have up: "[int q..int q + int (Suc n) - 1] = [int q..int q + int n - 1] @ [int (q + n)]"
    using upto_rec2 [of "int q" "int (q + n)"] by (simp add: algebra_simps)
  have lt: "q + n < 32 * length y" using Suc.prems y(2) by simp
  have "bitmap_set_contig (int q) (int (Suc n)) one x
      = (if one then bitmap_set (int (q + n)) y else bitmap_unset (int (q + n)) y)"
    using y(1) unfolding bitmap_set_contig_def up
    by (simp add: fold_opt_append fold_opt.simps(1) [abs_def])
  then show ?case using bitmap_set_ok [OF lt] bitmap_unset_ok [OF lt] y(2,3) by (cases one) (auto simp: less_Suc_eq)
qed

subsection \<open>Properties\<close>

text \<open>The search for an extent misses extents that are there.  It answers an extent only where one
more set bit follows (the length is compared before the current bit is counted), and it starts only in
as many bits as the bitmap has bytes.\<close>

lemma bitmap_extent_exact_missed: "bitmap_extent_find_set 0 2 1 [3] = Some (-1, [3])"
proof -
  have o: "bitmap_one_offset [3] 0 1 = Some 0" "bitmap_one_offset [3] 1 1 = Some 1" "bitmap_one_offset [3] 2 1 = Some (-1)"
    by code_simp+
  have "bitmap_contiguous_loop [3] 2 1 0 0 = Some (-1)"
    by (subst bitmap_contiguous_loop.simps, simp add: o, subst bitmap_contiguous_loop.simps, simp add: o,
        subst bitmap_contiguous_loop.simps, simp add: o)
  then show ?thesis by (simp add: bitmap_extent_find_set_def bitmap_contiguous_ones_def)
qed

lemma bitmap_extent_late_missed: "bitmap_extent_find_set 0 2 1 [0xFFFFFFF0] = Some (-1, [0xFFFFFFF0])"
proof -
  have o: "bitmap_one_offset [0xFFFFFFF0] 0 1 = Some 4" by code_simp
  have "bitmap_contiguous_loop [0xFFFFFFF0] 2 1 0 0 = Some (-1)"
    by (subst bitmap_contiguous_loop.simps, simp add: o, subst bitmap_contiguous_loop.simps, simp)
  then show ?thesis by (simp add: bitmap_extent_find_set_def bitmap_contiguous_ones_def)
qed

text \<open>C35.  \<^verbatim>\<open>bitmap_one_offset\<close>, which shifts the first word, takes the lowest set bit of a
word with \<^verbatim>\<open>ls_one\<close> and its position with the population count of \<^verbatim>\<open>log32\<close>, answers
for every offset inside the bitmap what the search bit by bit answers: the first set bit at or after the
offset, and -1 when there is none.  No word outside the bitmap is read.\<close>

theorem bitmap_one_offset_first:
  assumes "mx \<le> length x" "off \<le> 32 * mx"
  shows "bitmap_one_offset x (int off) (int mx)
    = Some (case find (\<lambda>i. bit (x ! (i div 32)) (i mod 32)) [off..<32 * mx] of Some i \<Rightarrow> int i | None \<Rightarrow> -1)"
  using bitmap_one_offset_ok [OF assms(2,1)] by (simp add: next_one_def bit_at_def [abs_def])

theorem bitmap_one_offset_first_witness:
  "bitmap_one_offset [0, 0x10, 0x80000002] (int 37) (int 3) = Some 65
    \<and> bitmap_one_offset [0, 0x10, 0x80000002] (int 36) (int 3) = Some 36
    \<and> bitmap_one_offset [0, 0x10] (int 37) (int 2) = Some (-1)"
  using bitmap_one_offset_first [of 3 "[0, 0x10, 0x80000002]" 37]
    bitmap_one_offset_first [of 3 "[0, 0x10, 0x80000002]" 36]
    bitmap_one_offset_first [of 2 "[0, 0x10]" 37]
  by (simp add: upt_rec)

text \<open>C36.  \<^verbatim>\<open>bitmap_extent_find_set\<close> ends for every bitmap and every extent.  Either it answers
-1 and the bitmap is as it was, or it answers the start of an extent inside the bitmap all of whose bits
were set; then exactly these bits have been cleared.  So two successive allocations from a bitmap are
disjoint.\<close>

theorem bitmap_extent_find_set_sound:
  assumes "mx \<le> length x"
  shows "\<exists>r y. bitmap_extent_find_set off (int ext) (int mx) x = Some (r, y) \<and> length y = length x
    \<and> (r = -1 \<and> y = x
       \<or> (\<exists>q. r = int q \<and> q + ext \<le> 32 * mx \<and> free_run x q (q + ext)
            \<and> (\<forall>j. bit_at y j \<longleftrightarrow> bit_at x j \<and> \<not> (q \<le> j \<and> j < q + ext))))"
proof -
  have "free_run x 0 0" by (simp add: free_run_def)
  from bitmap_contiguous_loop_ok [OF assms this, of ext] obtain r where r:
    "bitmap_contiguous_ones x off (int ext) (int mx) = Some r"
    "r = -1 \<or> (\<exists>q. r = int q \<and> q + ext < 32 * mx \<and> free_run x q (Suc (q + ext)))"
    by (auto simp: bitmap_contiguous_ones_def)
  show ?thesis
  proof (cases "r = -1")
    case True
    with r(1) show ?thesis by (simp add: bitmap_extent_find_set_def)
  next
    case False
    with r(2) obtain q where q: "r = int q" "q + ext < 32 * mx" "free_run x q (Suc (q + ext))" by blast
    then have "q + ext \<le> 32 * length x" using assms by simp
    from bitmap_set_contig_ok [OF this, of False] obtain y where y:
      "bitmap_set_contig (int q) (int ext) False x = Some y" "length y = length x"
      "\<forall>j. bit_at y j = (if q \<le> j \<and> j < q + ext then False else bit_at x j)" by blast
    from q(3) have "free_run x q (q + ext)" by (simp add: free_run_def)
    with q(1,2) r(1) y show ?thesis by (auto simp: bitmap_extent_find_set_def)
  qed
qed

theorem bitmap_extent_find_set_sound_witness:
  "\<exists>r y. bitmap_extent_find_set 0 (int 2) (int 1) [0xE] = Some (r, y) \<and> length y = 1 \<and> r \<noteq> -1
    \<and> (\<exists>q. r = int q \<and> \<not> bit_at y q \<and> \<not> bit_at y (Suc q))"
proof -
  have o: "bitmap_one_offset [0xE] 0 1 = Some 1" "bitmap_one_offset [0xE] 2 1 = Some 2" "bitmap_one_offset [0xE] 3 1 = Some 3"
    by code_simp+
  have "bitmap_contiguous_loop [0xE] 2 1 0 0 = Some 1"
    by (subst bitmap_contiguous_loop.simps, simp add: o, subst bitmap_contiguous_loop.simps, simp add: o,
        subst bitmap_contiguous_loop.simps, simp add: o)
  moreover have "bitmap_set_contig 1 2 False [0xE] = Some [8]" by code_simp
  ultimately have "bitmap_extent_find_set 0 2 1 [0xE] = Some (1, [8])"
    by (simp add: bitmap_extent_find_set_def bitmap_contiguous_ones_def)
  with bitmap_extent_find_set_sound [of 1 "[0xE]" 0 2] show ?thesis by auto
qed

end
