(* ===== verification/Fprr.thy ===== *)
theory Fprr
  imports Cos_Scheduler Bitmap
begin

text \<open>
  The fixed-priority round-robin scheduling policy (\<^verbatim>\<open>components/implementation/sched/fprr/fp_rr.c\<close>) and,
  built from the same file with \<^verbatim>\<open>DEFERRABLE\<close>, the policy with deferrable servers
  (\<^verbatim>\<open>sched/ds/deferrable.c\<close>): the argument \<open>ds\<close> says which of the two is built.

  There are 32 run queues and a word with a bit for each queue that is not empty.  The lemmas give the
  operations on an abstract array of queues of threads.
\<close>

subsection \<open>Operations\<close>

definition NUM_PRIOS :: nat where "NUM_PRIOS = 32"
definition PRIO_LOW :: int where "PRIO_LOW = 30"
definition PRIO_LOWEST :: int where "PRIO_LOWEST = 31"
definition PRIO_HIGHEST :: int where "PRIO_HIGHEST = 0"

text \<open>1.6 GHz at 100 ticks a second.\<close>

definition QUANTUM :: "64 word" where "QUANTUM = 16000000"

record fp_state = sched_lib +
  active :: u32
  ds_ticks :: u32

definition mask_set :: "nat \<Rightarrow> 'z fp_state_scheme \<Rightarrow> 'z fp_state_scheme" where
  "mask_set p s = s\<lparr>active := active s OR push_bit p 1\<rparr>"

definition mask_unset :: "nat \<Rightarrow> 'z fp_state_scheme \<Rightarrow> 'z fp_state_scheme" where
  "mask_unset p s = s\<lparr>active := active s AND NOT (push_bit p 1)\<rparr>"

partial_function (option) mask_high_loop :: "u32 \<Rightarrow> u16 \<Rightarrow> u16 option" where
  "mask_high_loop v r = (if v \<noteq> 1 then mask_high_loop (drop_bit 1 v) (r + 1) else Some r)"

definition mask_high :: "'z fp_state_scheme \<Rightarrow> u16 option" where
  "mask_high s = mask_high_loop (active s AND - active s) 0"

definition fp_move_end_runnable :: "sched_node \<Rightarrow> 'z fp_state_scheme \<Rightarrow> 'z fp_state_scheme option" where
  "fp_move_end_runnable t s = do {
     m \<leftarrow> sched_get_metric t s;
     let p = unat (priority m);
     c_assert (sched_thd_ready (thds s t));
     c_assert (\<not> sched_thd_suspended (thds s t));
     c_assert (p < NUM_PRIOS);
     let l = REM_LIST t (prio_l s);
     let l = ADD_LIST (LAST_LIST (Runnable p) l) t l;
     Some (mask_set p (s\<lparr>prio_l := l\<rparr>)) }"

definition fp_add_start_runnable :: "sched_node \<Rightarrow> 'z fp_state_scheme \<Rightarrow> 'z fp_state_scheme option" where
  "fp_add_start_runnable t s = do {
     m \<leftarrow> sched_get_metric t s;
     let p = unat (priority m);
     c_assert (sched_thd_ready (thds s t));
     c_assert (p < NUM_PRIOS);
     Some (mask_set p (s\<lparr>prio_l := ADD_LIST (Runnable p) t (prio_l s)\<rparr>)) }"

definition fp_add_thd :: "sched_node \<Rightarrow> u16 \<Rightarrow> 'z fp_state_scheme \<Rightarrow> 'z fp_state_scheme option" where
  "fp_add_thd t prio s = do {
     c_assert (unat prio < NUM_PRIOS);
     c_assert (sched_thd_ready (thds s t));
     c_assert (\<not> sched_thd_suspended (thds s t));
     _ \<leftarrow> sched_get_metric t s;
     let s = upd_sthd t (\<lambda>x. x\<lparr>priority := prio\<rparr>) s;
     s \<leftarrow> sched_set_thd_urgency t prio s;
     fp_move_end_runnable t s }"

definition fp_rem_thd :: "sched_node \<Rightarrow> 'z fp_state_scheme \<Rightarrow> 'z fp_state_scheme option" where
  "fp_rem_thd t s = do {
     m \<leftarrow> sched_get_metric t s;
     let l = prio_l s;
     s \<leftarrow> (if \<not> EMPTY_LIST t l \<and> lnext l t = lprev l t
       then do { c_assert (unat (priority m) < NUM_PRIOS); Some (mask_unset (unat (priority m)) s) } else Some s);
     Some (s\<lparr>prio_l := REM_LIST t l\<rparr>) }"

definition fp_get_highest_prio :: "'z fp_state_scheme \<Rightarrow> sched_node option" where
  "fp_get_highest_prio s = do {
     p \<leftarrow> mask_high s;
     c_assert (unat p < NUM_PRIOS);
     let t = FIRST_LIST (Runnable (unat p)) (prio_l s);
     c_assert (t \<noteq> Runnable (unat p));
     c_assert (sched_thd_ready (thds s t));
     m \<leftarrow> sched_get_metric t s;
     c_assert (priority m = p);
     c_assert (\<not> sched_thd_free (thds s t));
     Some t }"

definition fp_get_second_highest_prio :: "sched_node \<Rightarrow> 'z fp_state_scheme \<Rightarrow> (sched_node \<times> 'z fp_state_scheme) option" where
  "fp_get_second_highest_prio highest s = do {
     s \<leftarrow> fp_rem_thd highest s;
     t \<leftarrow> fp_get_highest_prio s;
     s \<leftarrow> fp_add_start_runnable highest s;
     Some (t, s) }"

definition schedule :: "sched_node option \<Rightarrow> 'z fp_state_scheme \<Rightarrow> (sched_node \<times> 'z fp_state_scheme) option" where
  "schedule t s = do {
     c_assert (case t of None \<Rightarrow> True | Some t \<Rightarrow> \<not> sched_thd_member (thds s t));
     n \<leftarrow> fp_get_highest_prio s;
     if Some n \<noteq> t then Some (n, s) else fp_get_second_highest_prio n s }"

definition thread_new :: "sched_node \<Rightarrow> 'z fp_state_scheme \<Rightarrow> 'z fp_state_scheme option" where
  "thread_new t s = Some s"

definition thread_remove :: "sched_node \<Rightarrow> 'z fp_state_scheme \<Rightarrow> 'z fp_state_scheme option" where
  "thread_remove t s = do {
     s \<leftarrow> fp_rem_thd t s;
     Some (s\<lparr>sched_l := REM_LIST t (sched_l s)\<rparr>) }"

partial_function (option) use_quanta :: "sched_accounting \<Rightarrow> sched_accounting option" where
  "use_quanta sa = (if cycles sa > QUANTUM
     then use_quanta (sa\<lparr>cycles := cycles sa - QUANTUM, a_ticks := a_ticks sa + 1\<rparr>) else Some sa)"

definition time_elapsed :: "sched_node \<Rightarrow> u32 \<Rightarrow> 'z fp_state_scheme \<Rightarrow> 'z fp_state_scheme option" where
  "time_elapsed t processing_time s = do {
     sa \<leftarrow> sched_get_accounting t s;
     let sa = sa\<lparr>pol_cycles := pol_cycles sa + ucast processing_time, cycles := cycles sa + ucast processing_time\<rparr>;
     let s = upd_acct t (\<lambda>_. sa) s;
     s \<leftarrow> (if cycles sa \<ge> QUANTUM
       then do {
         sa \<leftarrow> use_quanta sa;
         let s = upd_acct t (\<lambda>_. sa) s;
         if sched_thd_ready (thds s t) \<and> \<not> sched_thd_suspended (thds s t)
         then do {
           c_assert (\<not> sched_thd_inactive_evt (thds s t));
           c_assert (\<not> sched_thd_blocked (thds s t));
           fp_move_end_runnable t s }
         else Some s }
       else Some s);
     if pol_cycles (accounting (thds s t)) > QUANTUM
     then do {
       let s = upd_acct t (\<lambda>a. a\<lparr>pol_cycles := pol_cycles a - QUANTUM\<rparr>) s;
       if T_amnt (accounting (thds s t)) \<noteq> 0
       then do {
         let s = upd_acct t (\<lambda>a. a\<lparr>C_used := C_used a + 1\<rparr>) s;
         if C_used (accounting (thds s t)) \<ge> C_amnt (accounting (thds s t))
         then do {
           s \<leftarrow> sched_set_thd_urgency t (of_nat NUM_PRIOS) s;
           s \<leftarrow> (if sched_thd_ready (thds s t) then fp_rem_thd t s else Some s);
           Some (upd_sthd t (\<lambda>x. x\<lparr>st_flags := st_flags x OR THD_SUSPENDED\<rparr>) s) }
         else Some s }
       else Some s }
     else Some s }"

text \<open>The list of servers is walked while threads move between run queues.\<close>

definition replenish :: "sched_node \<Rightarrow> 'z fp_state_scheme \<Rightarrow> 'z fp_state_scheme option" where
  "replenish t s = do {
     sa \<leftarrow> sched_get_accounting t s;
     c_assert (T_amnt sa \<noteq> 0);
     if T_exp sa \<le> ds_ticks s
     then do {
       let off = T_amnt sa - (ds_ticks s mod T_amnt sa);
       let s = upd_acct t (\<lambda>a. a\<lparr>T_exp := ds_ticks s + off, C_used := 0\<rparr>) s;
       if sched_thd_suspended (thds s t)
       then do {
         let s = upd_sthd t (\<lambda>x. x\<lparr>st_flags := st_flags x AND NOT THD_SUSPENDED\<rparr>) s;
         if sched_thd_ready (thds s t)
         then do { m \<leftarrow> sched_get_metric t s; fp_add_thd t (priority m) s }
         else Some s }
       else Some s }
     else Some s }"

partial_function (option) timer_tick_loop :: "sched_node \<Rightarrow> 'z fp_state_scheme \<Rightarrow> 'z fp_state_scheme option" where
  "timer_tick_loop t s = (if t = Servers then Some s
     else do { s \<leftarrow> replenish t s; timer_tick_loop (FIRST_LIST t (sched_l s)) s })"

definition timer_tick :: "bool \<Rightarrow> int \<Rightarrow> 'z fp_state_scheme \<Rightarrow> 'z fp_state_scheme option" where
  "timer_tick ds num_ticks s =
     (if ds then do {
        c_assert (num_ticks > 0);
        let s = s\<lparr>ds_ticks := ds_ticks s + word_of_int num_ticks\<rparr>;
        timer_tick_loop (FIRST_LIST Servers (sched_l s)) s }
      else Some s)"

definition thread_block :: "sched_node \<Rightarrow> 'z fp_state_scheme \<Rightarrow> 'z fp_state_scheme option" where
  "thread_block t s = do {
     c_assert (\<not> sched_thd_member (thds s t));
     fp_rem_thd t s }"

definition thread_wakeup :: "sched_node \<Rightarrow> 'z fp_state_scheme \<Rightarrow> 'z fp_state_scheme option" where
  "thread_wakeup t s = do {
     c_assert (\<not> sched_thd_member (thds s t));
     if \<not> sched_thd_suspended (thds s t)
     then do { m \<leftarrow> sched_get_metric t s; fp_add_thd t (priority m) s }
     else Some s }"

subsection \<open>Parameters\<close>

text \<open>Strings end where the list ends; reading there gives the zero character.\<close>

definition char_at :: "string \<Rightarrow> nat \<Rightarrow> char" where
  "char_at s i = (if i < length s then s ! i else CHR 0x00)"

definition is_digit :: "char \<Rightarrow> bool" where
  "is_digit c \<longleftrightarrow> 48 \<le> (of_char c :: nat) \<and> (of_char c :: nat) < 58"

text \<open>\<^verbatim>\<open>atoi\<close> of the C library, at 32 bits.\<close>

definition atoi :: "string \<Rightarrow> int" where
  "atoi s =
     (let s = dropWhile (\<lambda>c. c = CHR '' '' \<or> 9 \<le> (of_char c :: nat) \<and> (of_char c :: nat) < 14) s;
          neg = (char_at s 0 = CHR ''-'');
          s = (if char_at s 0 = CHR ''-'' \<or> char_at s 0 = CHR ''+'' then tl s else s);
          v = foldl (\<lambda>v c. v * 10 + of_nat (of_char c) - 48) (0 :: u32) (takeWhile is_digit s)
      in sint (if neg then - v else v))"

definition ds_extract_nums :: "string \<Rightarrow> int \<times> nat" where
  "ds_extract_nums s = (let tmp = take 10 (takeWhile is_digit s) in (atoi tmp, length tmp))"

definition ds_parse_params :: "sched_node \<Rightarrow> string \<Rightarrow> 'z fp_state_scheme \<Rightarrow> (int \<times> 'z fp_state_scheme) option" where
  "ds_parse_params t p s = do {
     c_assert (char_at p 0 = CHR ''d'');
     let p = tl p;
     let (prio, n) = ds_extract_nums p;
     let p = drop n p;
     c_assert (char_at p 0 = CHR ''c'');
     let p = tl p;
     let (c, n) = ds_extract_nums p;
     let p = drop n p;
     _ \<leftarrow> sched_get_accounting t s;
     let s = upd_acct t (\<lambda>a. a\<lparr>C_amnt := word_of_int c, C_used := 0\<rparr>) s;
     c_assert (char_at p 0 = CHR ''t'');
     let p = tl p;
     let (per, n) = ds_extract_nums p;
     Some (prio, upd_acct t (\<lambda>a. a\<lparr>T_amnt := word_of_int per, T_exp := 0\<rparr>) s) }"

text \<open>In the relative case the conditional in front of \<^verbatim>\<open>ADD_LIST\<close> guards the first of its four assignments
only.\<close>

definition fp_params_prio :: "bool \<Rightarrow> nat \<Rightarrow> sched_node \<Rightarrow> string \<Rightarrow> 'z fp_state_scheme \<Rightarrow> (int \<times> 'z fp_state_scheme) option" where
  "fp_params_prio ds cur_id t p s =
     (if char_at p 0 = CHR ''r''
      then do {
        c \<leftarrow> sched_get_mapping cur_id s;
        let tmp = atoi (tl p);
        m \<leftarrow> sched_get_metric c s;
        let prio = uint (priority m) + tmp;
        _ \<leftarrow> sched_get_accounting t s;
        sa \<leftarrow> sched_get_accounting c s;
        let s = upd_acct t (\<lambda>_. sa) s;
        let s = (if ds
          then s\<lparr>sched_l := (if T_amnt (accounting (thds s t)) \<noteq> 0 then ADD_LIST Servers t (sched_l s) else ADD_LIST_rest Servers t (sched_l s))\<rparr>
          else s);
        Some (if prio > PRIO_LOWEST then PRIO_LOWEST else prio, s) }
      else if char_at p 0 = CHR ''a'' then Some (atoi (tl p), s)
      else if char_at p 0 = CHR ''i'' then Some (PRIO_LOWEST, s)
      else if char_at p 0 = CHR ''t'' then Some (PRIO_HIGHEST, s)
      else if ds \<and> char_at p 0 = CHR ''d''
      then do {
        (prio, s) \<leftarrow> ds_parse_params t p s;
        let s = (if EMPTY_LIST t (sched_l s) \<and> T_amnt (accounting (thds s t)) \<noteq> 0 then s\<lparr>sched_l := ADD_LIST Servers t (sched_l s)\<rparr> else s);
        s \<leftarrow> fp_move_end_runnable t s;
        Some (prio, s) }
      else Some (PRIO_LOW, s))"

definition fp_thread_params :: "bool \<Rightarrow> nat \<Rightarrow> sched_node \<Rightarrow> string \<Rightarrow> 'z fp_state_scheme \<Rightarrow> (int \<times> 'z fp_state_scheme) option" where
  "fp_thread_params ds cur_id t p s = do {
     (prio, s) \<leftarrow> fp_params_prio ds cur_id t p s;
     s \<leftarrow> (if sched_thd_ready (thds s t) then fp_rem_thd t s else Some s);
     s \<leftarrow> fp_add_thd t (word_of_int prio) s;
     Some (0, s) }"

definition thread_params_set :: "bool \<Rightarrow> nat \<Rightarrow> sched_node \<Rightarrow> string \<Rightarrow> 'z fp_state_scheme \<Rightarrow> (int \<times> 'z fp_state_scheme) option" where
  "thread_params_set ds cur_id t params s = fp_thread_params ds cur_id t params s"

text \<open>A reservation is an allocation \<open>a\<close> in a window \<open>w\<close>, both 16 bits wide and signed.\<close>

definition thread_resparams_set :: "bool \<Rightarrow> sched_node \<Rightarrow> 16 word \<times> 16 word \<Rightarrow> 'z fp_state_scheme \<Rightarrow> (int \<times> 'z fp_state_scheme) option" where
  "thread_resparams_set ds t rs s =
     (case rs of (a, w) \<Rightarrow>
        if \<not> ds then Some (0, s)
        else if sint a < 0 \<or> sint w < 0 \<or> sint a > sint w then Some (-1, s)
        else do {
          _ \<leftarrow> sched_get_accounting t s;
          Some (0, upd_acct t (\<lambda>x. x\<lparr>C_amnt := scast a, C_used := 0, T_amnt := scast w, T_exp := 0\<rparr>) s) })"

subsection \<open>Reports and initialisation\<close>

text \<open>Printing is left out; the counters it resets are not.\<close>

definition report_thd :: "sched_node \<Rightarrow> 'z fp_state_scheme \<Rightarrow> 'z fp_state_scheme option" where
  "report_thd t s = do {
     sa \<leftarrow> sched_get_accounting t s;
     let diff = a_ticks sa - prev_ticks sa;
     Some (if diff = 0 \<and> cycles sa = 0 then s else upd_acct t (\<lambda>a. a\<lparr>prev_ticks := a_ticks a, cycles := 0\<rparr>) s) }"

partial_function (option) report_queue :: "sched_node \<Rightarrow> sched_node \<Rightarrow> 'z fp_state_scheme \<Rightarrow> 'z fp_state_scheme option" where
  "report_queue head t s = (if t = head then Some s
     else do { s \<leftarrow> report_thd t s; report_queue head (FIRST_LIST t (prio_l s)) s })"

partial_function (option) report_servers :: "sched_node \<Rightarrow> 'z fp_state_scheme \<Rightarrow> 'z fp_state_scheme option" where
  "report_servers t s = (if t = Servers then Some s
     else do {
       _ \<leftarrow> sched_get_accounting t s;
       s \<leftarrow> (if sched_thd_suspended (thds s t) then report_thd t s else Some s);
       report_servers (FIRST_LIST t (sched_l s)) s })"

definition runqueue_print :: "bool \<Rightarrow> 'z fp_state_scheme \<Rightarrow> 'z fp_state_scheme option" where
  "runqueue_print ds s = do {
     s \<leftarrow> fold_opt (\<lambda>i s. report_queue (Runnable i) (FIRST_LIST (Runnable i) (prio_l s)) s) [0..<NUM_PRIOS] s;
     if ds then report_servers (FIRST_LIST Servers (sched_l s)) s else Some s }"

definition sched_initialization :: "bool \<Rightarrow> 'z fp_state_scheme \<Rightarrow> 'z fp_state_scheme option" where
  "sched_initialization ds s = do {
     s \<leftarrow> fold_opt (\<lambda>i s. sched_init_thd (Runnable i) 0 THD_FREE s) [0..<NUM_PRIOS] s;
     if ds then sched_init_thd Servers 0 THD_FREE s else Some s }"

subsection \<open>The mask of active priorities\<close>

lemma mask_high_loop_pow: "k < 32 \<Longrightarrow> mask_high_loop (2 ^ k) r = Some (r + of_nat k)"
proof (induction k arbitrary: r)
  case 0
  then show ?case by (subst mask_high_loop.simps) simp
next
  case (Suc k)
  have "(2 ^ Suc k :: u32) \<noteq> 1"
  proof
    assume "(2 ^ Suc k :: u32) = 1"
    then have "bit (2 ^ Suc k :: u32) (Suc k) = bit (1 :: u32) (Suc k)" by (rule arg_cong)
    then show False using Suc.prems by (simp add: bit_simps)
  qed
  moreover have "drop_bit 1 (2 ^ Suc k :: u32) = 2 ^ k"
    using Suc.prems by (intro bit_eqI) (auto simp: bit_simps)
  ultimately show ?case using Suc by (subst mask_high_loop.simps) (simp add: algebra_simps)
qed

lemma mask_high_lowest: "lowest (active s) k \<Longrightarrow> mask_high s = Some (of_nat k)"
  using ls_one_lowest [of "active s" k] mask_high_loop_pow [of k 0]
  by (simp add: mask_high_def ls_one_def lowest_def)

lemma mask_set_bit: "p < 32 \<Longrightarrow> bit (active (mask_set p s)) i \<longleftrightarrow> bit (active s) i \<or> i = p"
  by (auto simp: mask_set_def bit_simps)

lemma mask_unset_bit: "p < 32 \<Longrightarrow> bit (active (mask_unset p s)) i \<longleftrightarrow> bit (active s) i \<and> i \<noteq> p"
  by (auto simp: mask_unset_def bit_simps dest: bit_imp_le_length)

lemma mask_again: "(a AND NOT b) OR b = a OR (b :: u32)"
  by (rule bit_eqI) (auto simp: bit_simps)

lemma mask_sel [simp]:
  "thds (mask_set p s) = thds s" "prio_l (mask_set p s) = prio_l s" "sched_l (mask_set p s) = sched_l s" "ds_ticks (mask_set p s) = ds_ticks s"
  "thds (mask_unset p s) = thds s" "prio_l (mask_unset p s) = prio_l s" "sched_l (mask_unset p s) = sched_l s" "ds_ticks (mask_unset p s) = ds_ticks s"
  by (simp_all add: mask_set_def mask_unset_def)

subsection \<open>Run queues\<close>

text \<open>
  The run queues hold the threads \<open>q\<close>: queue \<open>p\<close> is the ring of its head with the threads \<open>q p\<close>, all of
  priority \<open>p\<close>; the mask has the bits of the queues with threads; a thread in no queue is a ring of its own,
  except the threads \<open>X\<close>, which are on other lists.
\<close>

definition prio_of :: "'z fp_state_scheme \<Rightarrow> nat \<Rightarrow> nat" where
  "prio_of s i = unat (priority (thds s (Thd i)))"

definition runq :: "nat set \<Rightarrow> 'z fp_state_scheme \<Rightarrow> (nat \<Rightarrow> nat list) \<Rightarrow> bool" where
  "runq X s q \<longleftrightarrow> (\<forall>p < 32. ring (prio_l s) (Runnable p # map Thd (q p)) \<and> (bit (active s) p \<longleftrightarrow> q p \<noteq> [])
       \<and> (\<forall>i \<in> set (q p). prio_of s i = p \<and> \<not> sched_thd_free (thds s (Thd i))))
     \<and> (\<forall>i. i \<notin> X \<longrightarrow> (\<forall>p < 32. i \<notin> set (q p)) \<longrightarrow> ring (prio_l s) [Thd i]) \<and> (\<forall>p < 32. set (q p) \<inter> X = {})"

text \<open>Changes of the queues leave those other lists alone.\<close>

definition others :: "nat set \<Rightarrow> sched_node set" where
  "others X = - (range Runnable \<union> Thd ` (- X))"

definition kept :: "nat set \<Rightarrow> 'z fp_state_scheme \<Rightarrow> 'z fp_state_scheme \<Rightarrow> bool" where
  "kept X s s' \<longleftrightarrow> (\<forall>ys. set ys \<subseteq> others X \<longrightarrow> ring (prio_l s') ys = ring (prio_l s) ys)"

lemma kept_same [intro]: "prio_l s' = prio_l s \<Longrightarrow> kept X s s'"
  by (simp add: kept_def)

lemma kept_trans: "kept X s s' \<Longrightarrow> kept X s' s'' \<Longrightarrow> kept X s s''"
  by (simp add: kept_def)

lemma others_iff [simp]: "Thd i \<in> others X \<longleftrightarrow> i \<in> X" "Runnable p \<notin> others X"
  by (auto simp: others_def)

lemma runq_facts:
  assumes "runq X s q"
  shows "\<And>p. p < 32 \<Longrightarrow> ring (prio_l s) (Runnable p # map Thd (q p))"
    "\<And>p. p < 32 \<Longrightarrow> bit (active s) p \<longleftrightarrow> q p \<noteq> []"
    "\<And>p i. p < 32 \<Longrightarrow> i \<in> set (q p) \<Longrightarrow> prio_of s i = p \<and> \<not> sched_thd_free (thds s (Thd i))"
    "\<And>i. i \<notin> X \<Longrightarrow> (\<And>p. p < 32 \<Longrightarrow> i \<notin> set (q p)) \<Longrightarrow> ring (prio_l s) [Thd i]"
    "\<And>p i. p < 32 \<Longrightarrow> i \<in> set (q p) \<Longrightarrow> i \<notin> X"
  using assms unfolding runq_def by blast+

lemma runq_distinct: "runq X s q \<Longrightarrow> p < 32 \<Longrightarrow> distinct (q p)"
  using ring_distinct [OF runq_facts(1), of X s q p] by (simp add: distinct_map)

lemma runq_disjoint: "runq X s q \<Longrightarrow> p < 32 \<Longrightarrow> p' < 32 \<Longrightarrow> i \<in> set (q p) \<Longrightarrow> i \<in> set (q p') \<Longrightarrow> p = p'"
  using runq_facts(3) [of X s q] by blast

text \<open>The ring of every other queue is kept where the nodes of one queue are relinked.\<close>

lemma runq_rings_disjoint:
  "runq X s q \<Longrightarrow> p < 32 \<Longrightarrow> p' < 32 \<Longrightarrow> p \<noteq> p' \<Longrightarrow> set (Runnable p # map Thd (q p)) \<inter> set (Runnable p' # map Thd (q p')) = {}"
  using runq_disjoint [of X s q p p'] by auto

lemma runq_rings_others: "runq X s q \<Longrightarrow> p < 32 \<Longrightarrow> set ys \<subseteq> others X \<Longrightarrow> set (Runnable p # map Thd (q p)) \<inter> set ys = {}"
  using runq_facts(5) [of X s q p] by auto

lemma runqI:
  assumes "\<And>p. p < 32 \<Longrightarrow> ring (prio_l s) (Runnable p # map Thd (q p))"
    "\<And>p. p < 32 \<Longrightarrow> bit (active s) p \<longleftrightarrow> q p \<noteq> []"
    "\<And>p i. p < 32 \<Longrightarrow> i \<in> set (q p) \<Longrightarrow> prio_of s i = p \<and> \<not> sched_thd_free (thds s (Thd i))"
    "\<And>i. i \<notin> X \<Longrightarrow> (\<And>p. p < 32 \<Longrightarrow> i \<notin> set (q p)) \<Longrightarrow> ring (prio_l s) [Thd i]"
    "\<And>p i. p < 32 \<Longrightarrow> i \<in> set (q p) \<Longrightarrow> i \<notin> X"
  shows "runq X s q"
  using assms unfolding runq_def by blast

text \<open>What is not in the mask, the links of the queues, the priorities and the marks of free threads does not
matter.\<close>

lemma runq_cong:
  assumes "prio_l s' = prio_l s" "active s' = active s" "\<And>i. priority (thds s' (Thd i)) = priority (thds s (Thd i))"
    "\<And>i. sched_thd_free (thds s' (Thd i)) = sched_thd_free (thds s (Thd i))"
  shows "runq X s' q \<longleftrightarrow> runq X s q"
  by (simp add: runq_def prio_of_def assms)

subsection \<open>Taking a thread out\<close>

definition without :: "nat \<Rightarrow> (nat \<Rightarrow> nat list) \<Rightarrow> nat \<Rightarrow> nat list" where
  "without i q p = remove1 i (q p)"

lemma without_notin: "(\<And>p. p < 32 \<Longrightarrow> i \<notin> set (q p)) \<Longrightarrow> p < 32 \<Longrightarrow> without i q p = q p"
  by (simp add: without_def remove1_idem)

lemma runq_ext: "(\<And>p. p < 32 \<Longrightarrow> q p = q' p) \<Longrightarrow> runq X s q \<longleftrightarrow> runq X s q'"
  unfolding runq_def by simp

lemma queue_split:
  assumes "runq X s q" "p < 32" "i \<in> set (q p)"
  obtains as bs where "q p = as @ i # bs" "i \<notin> set as" "i \<notin> set bs" "remove1 i (q p) = as @ bs"
proof -
  from assms(3) obtain as bs where s: "q p = as @ i # bs" by (meson split_list)
  with runq_distinct [OF assms(1,2)] have "i \<notin> set as" "i \<notin> set bs" by auto
  with s that show ?thesis by (simp add: remove1_append)
qed

lemma alone_iff:
  assumes "runq X s q" "p < 32" "i \<in> set (q p)"
  shows "\<not> EMPTY_LIST (Thd i) (prio_l s)" "lnext (prio_l s) (Thd i) = lprev (prio_l s) (Thd i) \<longleftrightarrow> q p = [i]"
proof -
  from assms obtain as bs where q: "q p = as @ i # bs" "i \<notin> set as" "i \<notin> set bs" by (rule queue_split)
  have "ring (prio_l s) ((Runnable p # map Thd as) @ Thd i # map Thd bs)" using runq_facts(1) [OF assms(1,2)] q(1) by simp
  then have r: "ring (prio_l s) (Thd i # map Thd bs @ Runnable p # map Thd as)"
    using ring_rotate [of "prio_l s" "Runnable p # map Thd as" "Thd i # map Thd bs"] by simp
  show "\<not> EMPTY_LIST (Thd i) (prio_l s)" using ring_EMPTY [OF r] by simp
  have d: "distinct (map Thd bs @ Runnable p # map Thd as)" using ring_distinct [OF r] by simp
  have n: "lnext (prio_l s) (Thd i) = hd (map Thd bs @ [Runnable p])" using ring_links(1) [OF r] by (cases bs) simp_all
  have l: "lprev (prio_l s) (Thd i) = last (Runnable p # map Thd as)" using ring_links(2) [OF r] by simp
  show "lnext (prio_l s) (Thd i) = lprev (prio_l s) (Thd i) \<longleftrightarrow> q p = [i]"
    unfolding n l q(1) using d by (cases bs; cases as rule: rev_cases) auto
qed

lemma fp_rem_thd_ok:
  assumes "runq X s q" "\<not> sched_thd_free (thds s (Thd i))" "i \<notin> X"
  shows "\<exists>s'. fp_rem_thd (Thd i) s = Some s' \<and> runq X s' (without i q) \<and> thds s' = thds s \<and> kept X s s'
    \<and> (\<forall>l p. p = prio_of s i \<and> p < 32 \<longrightarrow> mask_set p (s'\<lparr>prio_l := l\<rparr>) = mask_set p (s\<lparr>prio_l := l\<rparr>)) \<and> prio_l s' = REM_LIST (Thd i) (prio_l s)"
proof (cases "\<exists>p < 32. i \<in> set (q p)")
  case False
  then have "ring (prio_l s) [Thd i]" using runq_facts(4) [OF assms(1,3)] by blast
  then have "fp_rem_thd (Thd i) s = Some s" using assms(2)
    by (simp add: fp_rem_thd_def sched_get_metric_def EMPTY_LIST_def ring_single REM_LIST_alone)
  moreover have "runq X s (without i q)" using assms(1) False without_notin [of i q] runq_ext [of q "without i q" X s] by simp
  ultimately show ?thesis using \<open>ring (prio_l s) [Thd i]\<close> by (simp add: REM_LIST_alone kept_def)
next
  case True
  then obtain p where p: "p < 32" "i \<in> set (q p)" by blast
  from assms(1) p obtain as bs where q: "q p = as @ i # bs" "i \<notin> set as" "i \<notin> set bs" "remove1 i (q p) = as @ bs" by (rule queue_split)
  have prio: "unat (priority (thds s (Thd i))) = p" using runq_facts(3) [OF assms(1) p] by (simp add: prio_of_def)
  define s1 where "s1 = (if q p = [i] then mask_unset p s else s)"
  define s2 where "s2 = s1\<lparr>prio_l := REM_LIST (Thd i) (prio_l s)\<rparr>"
  have "fp_rem_thd (Thd i) s = Some s2"
    using alone_iff [OF assms(1) p] assms(2) p(1) prio
    by (simp add: fp_rem_thd_def sched_get_metric_def Let_def s2_def s1_def NUM_PRIOS_def)
  moreover have "runq X s2 (without i q)"
  proof (rule runqI)
    fix p' :: nat assume p': "p' < 32"
    have w: "without i q p' = (if p' = p then as @ bs else q p')"
    proof (cases "p' = p")
      case False
      then have "i \<notin> set (q p')" using runq_disjoint [OF assms(1) p(1) p' p(2)] by blast
      with False show ?thesis by (simp add: without_def remove1_idem)
    qed (simp add: without_def q(4))
    have r: "ring (prio_l s) (Runnable p # map Thd as @ Thd i # map Thd bs)" using runq_facts(1) [OF assms(1) p(1)] q(1) by simp
    show "ring (prio_l s2) (Runnable p' # map Thd (without i q p'))"
    proof (cases "p' = p")
      case True
      then show ?thesis using ring_REM [OF r] w by (simp add: s2_def)
    next
      case False
      have "set (Runnable p # map Thd as @ Thd i # map Thd bs) \<inter> set (Runnable p' # map Thd (q p')) = {}"
        using runq_rings_disjoint [OF assms(1) p(1) p'] False q(1) by simp
      then show ?thesis using ring_REM_other [OF r, of "Thd i"] runq_facts(1) [OF assms(1) p'] w False by (simp add: s2_def)
    qed
    show "bit (active s2) p' \<longleftrightarrow> without i q p' \<noteq> []"
    proof -
      have "q p = [i] \<longleftrightarrow> as @ bs = []" using q(1) by (cases as) auto
      with runq_facts(2) [OF assms(1) p'] w mask_unset_bit [OF p(1), of s p'] p(2) show ?thesis
        by (cases "p' = p"; cases "as @ bs = []") (auto simp: s2_def s1_def)
    qed
    show "prio_of s2 j = p' \<and> \<not> sched_thd_free (thds s2 (Thd j))" if "j \<in> set (without i q p')" for j
    proof -
      have "j \<in> set (q p')" using that unfolding without_def by (meson notin_set_remove1)
      then show ?thesis using runq_facts(3) [OF assms(1) p'] by (simp add: s2_def s1_def prio_of_def)
    qed
    show "j \<notin> X" if "j \<in> set (without i q p')" for j
      using that runq_facts(5) [OF assms(1) p'] unfolding without_def by (meson notin_set_remove1)
  next
    fix j assume jX: "j \<notin> X" and j: "\<And>p. p < 32 \<Longrightarrow> j \<notin> set (without i q p)"
    show "ring (prio_l s2) [Thd j]"
    proof (cases "j = i")
      case True
      then show ?thesis using ring_REM_self [of "Thd i"] by (simp add: s2_def)
    next
      case False
      have "j \<notin> set (q p')" if "p' < 32" for p'
        using j [OF that] False in_set_remove1 [of j i "q p'"] by (simp add: without_def)
      note nq = this
      have "ring (prio_l s) [Thd j]" by (rule runq_facts(4) [OF assms(1) jX nq])
      moreover have "Thd j \<notin> set (Runnable p # map Thd as @ Thd i # map Thd bs)" using nq [OF p(1)] q(1) by auto
      moreover have "ring (prio_l s) (Runnable p # map Thd as @ Thd i # map Thd bs)" using runq_facts(1) [OF assms(1) p(1)] q(1) by simp
      ultimately show ?thesis using ring_REM_other [of "prio_l s" "Runnable p # map Thd as @ Thd i # map Thd bs" "Thd i" "[Thd j]"] by (simp add: s2_def)
    qed
  qed
  moreover have "mask_set p (s2\<lparr>prio_l := l\<rparr>) = mask_set p (s\<lparr>prio_l := l\<rparr>)" for l
    by (simp add: s2_def s1_def mask_set_def mask_unset_def mask_again)
  moreover have "kept X s s2"
  proof -
    have r: "ring (prio_l s) (Runnable p # map Thd as @ Thd i # map Thd bs)" using runq_facts(1) [OF assms(1) p(1)] q(1) by simp
    have "ring (REM_LIST (Thd i) (prio_l s)) ys = ring (prio_l s) ys" if "set ys \<subseteq> others X" for ys
      by (rule ring_REM_other [OF r]) (use runq_rings_others [OF assms(1) p(1) that] q(1) in simp_all)
    then show ?thesis by (simp add: kept_def s2_def)
  qed
  ultimately show ?thesis using prio by (simp add: prio_of_def) (simp add: s2_def s1_def)
qed

subsection \<open>Putting a thread in\<close>

text \<open>A thread in no queue is linked into the ring of queue \<open>p\<close>, behind the node \<open>h\<close> of the ring.\<close>

lemma runq_insert:
  assumes "runq X s q" "p < 32" "prio_of s i = p" "\<not> sched_thd_free (thds s (Thd i))" "\<And>p'. p' < 32 \<Longrightarrow> i \<notin> set (q p')" "i \<notin> X"
    and h: "h \<in> set (Runnable p # map Thd (q p))"
    and r: "ring (ADD_LIST h (Thd i) (prio_l s)) (Runnable p # map Thd xs)" and xs: "set xs = insert i (set (q p))"
  shows "runq X (mask_set p (s\<lparr>prio_l := ADD_LIST h (Thd i) (prio_l s)\<rparr>)) (q(p := xs))"
    "kept X s (mask_set p (s\<lparr>prio_l := ADD_LIST h (Thd i) (prio_l s)\<rparr>))"
proof -
  obtain ys where rh: "ring (prio_l s) (h # ys)" "set (h # ys) = set (Runnable p # map Thd (q p))"
  proof -
    from h obtain as bs where ab: "Runnable p # map Thd (q p) = as @ h # bs" by (meson split_list)
    moreover have "ring (prio_l s) (h # bs @ as)"
      using runq_facts(1) [OF assms(1,2)] ring_rotate [of "prio_l s" as "h # bs"] ab by simp
    ultimately show ?thesis using that [of "bs @ as"] by (metis Un_commute append_Cons set_append)
  qed
  have other: "ring (ADD_LIST h (Thd i) (prio_l s)) zs \<longleftrightarrow> ring (prio_l s) zs"
    if "Thd i \<notin> set zs" "set (Runnable p # map Thd (q p)) \<inter> set zs = {}" for zs
    by (rule ring_ADD_other [OF rh(1) that(1)]) (use that(2) rh(2) in simp)
  have alone: "ring (ADD_LIST h (Thd i) (prio_l s)) [Thd j]" if "j \<noteq> i" "j \<notin> X" "\<And>p. p < 32 \<Longrightarrow> j \<notin> set (q p)" for j
    using that other [of "[Thd j]"] runq_facts(4) [OF assms(1) that(2,3)] assms(2) by auto
  let ?s = "mask_set p (s\<lparr>prio_l := ADD_LIST h (Thd i) (prio_l s)\<rparr>)"
  show "kept X s ?s" unfolding kept_def
  proof (intro allI impI)
    fix ys :: "sched_node list" assume y: "set ys \<subseteq> others X"
    have "Thd i \<notin> set ys" using y assms(6) others_iff(1) by blast
    then show "ring (prio_l ?s) ys = ring (prio_l s) ys" using other [of ys] runq_rings_others [OF assms(1,2) y] by simp
  qed
  show "runq X ?s (q(p := xs))"
  proof (rule runqI)
    fix p' :: nat assume p': "p' < 32"
    show "ring (prio_l ?s) (Runnable p' # map Thd ((q(p := xs)) p'))"
    proof (cases "p' = p")
      case True
      with r show ?thesis by simp
    next
      case False
      then show ?thesis
        using other [of "Runnable p' # map Thd (q p')"] runq_facts(1) [OF assms(1) p'] runq_rings_disjoint [OF assms(1,2) p'] assms(5) [OF p'] by auto
    qed
    show "bit (active ?s) p' \<longleftrightarrow> (q(p := xs)) p' \<noteq> []"
      using runq_facts(2) [OF assms(1) p'] xs by (auto simp: mask_set_bit [OF assms(2)])
    show "prio_of ?s j = p' \<and> \<not> sched_thd_free (thds ?s (Thd j))" if "j \<in> set ((q(p := xs)) p')" for j
      using that runq_facts(3) [OF assms(1) p'] assms(3,4) xs by (auto simp: prio_of_def split: if_splits)
    show "j \<notin> X" if "j \<in> set ((q(p := xs)) p')" for j
      using that runq_facts(5) [OF assms(1) p'] assms(6) xs by (auto split: if_splits)
  next
    fix j assume jX: "j \<notin> X" and j: "\<And>p'. p' < 32 \<Longrightarrow> j \<notin> set ((q(p := xs)) p')"
    have "j \<noteq> i" using j [OF assms(2)] xs by auto
    moreover have "j \<notin> set (q p')" if "p' < 32" for p' using j [OF that] xs by (auto split: if_splits)
    ultimately show "ring (prio_l ?s) [Thd j]" using alone jX by simp
  qed
qed

lemma without_notin_set: "runq X s q \<Longrightarrow> p < 32 \<Longrightarrow> i \<notin> set (without i q p)"
  using runq_distinct [of X s q p] by (simp add: without_def)

lemma runq_without_other:
  assumes "runq X s q" "p < 32" "prio_of s i = p"
  shows "(without i q)(p := xs) = (\<lambda>p'. if p' < 32 then (q(p := xs)) p' else without i q p')" (is "?l = ?r")
proof
  fix p'
  have "without i q p' = q p'" if "p' < 32" "p' \<noteq> p"
    using that runq_facts(3) [OF assms(1) that(1), of i] assms(3) by (auto simp: without_def intro: remove1_idem)
  then show "?l p' = ?r p'" using assms(2) by simp
qed

lemma fp_move_end_runnable_ok:
  assumes "runq X s q" "\<not> sched_thd_free (thds s (Thd i))" "sched_thd_ready (thds s (Thd i))" "\<not> sched_thd_suspended (thds s (Thd i))"
    "prio_of s i = p" "p < 32" "i \<notin> X"
  shows "\<exists>s'. fp_move_end_runnable (Thd i) s = Some s' \<and> runq X s' (q(p := remove1 i (q p) @ [i])) \<and> thds s' = thds s \<and> kept X s s'"
proof -
  obtain s1 where s1: "runq X s1 (without i q)" "thds s1 = thds s" "\<And>l. mask_set p (s1\<lparr>prio_l := l\<rparr>) = mask_set p (s\<lparr>prio_l := l\<rparr>)"
    "prio_l s1 = REM_LIST (Thd i) (prio_l s)" "kept X s s1" using fp_rem_thd_ok [OF assms(1,2,7)] assms(5,6) by auto
  let ?h = "LAST_LIST (Runnable p) (prio_l s1)" and ?l = "prio_l s1"
  let ?s = "mask_set p (s1\<lparr>prio_l := ADD_LIST ?h (Thd i) ?l\<rparr>)"
  have r: "ring ?l (Runnable p # map Thd (without i q p))" by (rule runq_facts(1) [OF s1(1) assms(6)])
  have ni: "\<And>p'. p' < 32 \<Longrightarrow> i \<notin> set (without i q p')" by (rule without_notin_set [OF assms(1)])
  have h: "?h \<in> set (Runnable p # map Thd (without i q p))" unfolding ring_LAST [OF r] by (rule last_in_set) simp
  have "ring (ADD_LIST ?h (Thd i) ?l) (Runnable p # map Thd (without i q p) @ [Thd i])"
    by (rule ring_ADD_END [OF r]) (use ni [OF assms(6)] in auto)
  moreover have "prio_of s1 i = p" "\<not> sched_thd_free (thds s1 (Thd i))" using assms(2,5) s1(2) by (simp_all add: prio_of_def)
  ultimately have "runq X ?s ((without i q)(p := without i q p @ [i]))" "kept X s1 ?s"
    using runq_insert [OF s1(1) assms(6) _ _ ni assms(7) h, of "without i q p @ [i]"] by simp_all
  note k = kept_trans [OF s1(5) this(2)] and this(1)
  from this(2) have "runq X ?s (q(p := remove1 i (q p) @ [i]))"
    unfolding runq_without_other [OF assms(1,6,5)] by (subst (asm) runq_ext [where q' = "q(p := remove1 i (q p) @ [i])"]) (auto simp: without_def)
  moreover have "fp_move_end_runnable (Thd i) s = Some ?s"
    using assms(2-6) s1(3,4) by (simp add: fp_move_end_runnable_def sched_get_metric_def prio_of_def NUM_PRIOS_def Let_def)
  ultimately show ?thesis using s1(2) k by (intro exI [of _ ?s]) simp
qed

lemma sched_set_thd_urgency_ok:
  assumes "\<not> sched_thd_free (thds s t)" "evt_id (thds s t) < NUM_SCHED_EVTS"
  shows "\<exists>s'. sched_set_thd_urgency t u s = Some s' \<and> thds s' = (thds s)(t := (thds s t)\<lparr>urgency := u\<rparr>) \<and> prio_l s' = prio_l s
    \<and> sched_l s' = sched_l s \<and> active s' = active s \<and> ds_ticks s' = ds_ticks s"
  using assms by (auto simp: sched_set_thd_urgency_def cos_sched_set_evt_urgency_def sched_get_metric_def upd_sthd_def upd_nevt_def NUM_SCHED_EVTS_def)

lemma flags_only [simp]:
  "sched_thd_free (t\<lparr>priority := a\<rparr>) = sched_thd_free t" "sched_thd_ready (t\<lparr>priority := a\<rparr>) = sched_thd_ready t"
  "sched_thd_suspended (t\<lparr>priority := a\<rparr>) = sched_thd_suspended t" "sched_thd_member (t\<lparr>priority := a\<rparr>) = sched_thd_member t"
  "sched_thd_free (t\<lparr>urgency := a\<rparr>) = sched_thd_free t" "sched_thd_ready (t\<lparr>urgency := a\<rparr>) = sched_thd_ready t"
  "sched_thd_suspended (t\<lparr>urgency := a\<rparr>) = sched_thd_suspended t" "sched_thd_member (t\<lparr>urgency := a\<rparr>) = sched_thd_member t"
  "sched_thd_free (t\<lparr>accounting := c\<rparr>) = sched_thd_free t" "sched_thd_ready (t\<lparr>accounting := c\<rparr>) = sched_thd_ready t"
  "sched_thd_suspended (t\<lparr>accounting := c\<rparr>) = sched_thd_suspended t" "sched_thd_member (t\<lparr>accounting := c\<rparr>) = sched_thd_member t"
  by (simp_all add: sched_thd_free_def sched_thd_ready_def sched_thd_suspended_def sched_thd_member_def sched_thd_blocked_def
      sched_thd_inactive_evt_def sched_thd_dying_def)

text \<open>A thread is added where it is in no queue, or in the queue of the priority it gets.\<close>

lemma fp_add_thd_ok:
  assumes "runq X s q" "\<not> sched_thd_free (thds s (Thd i))" "sched_thd_ready (thds s (Thd i))" "\<not> sched_thd_suspended (thds s (Thd i))"
    "evt_id (thds s (Thd i)) < NUM_SCHED_EVTS" "unat prio = p" "p < 32" "\<And>p'. p' < 32 \<Longrightarrow> i \<in> set (q p') \<Longrightarrow> p' = p" "i \<notin> X"
  shows "\<exists>s'. fp_add_thd (Thd i) prio s = Some s' \<and> runq X s' (q(p := remove1 i (q p) @ [i]))
    \<and> thds s' = (thds s)(Thd i := (thds s (Thd i))\<lparr>priority := prio, urgency := prio\<rparr>) \<and> kept X s s'"
proof -
  define s1 where "s1 = upd_sthd (Thd i) (\<lambda>x. x\<lparr>priority := prio\<rparr>) s"
  have t1: "thds s1 = (thds s)(Thd i := (thds s (Thd i))\<lparr>priority := prio\<rparr>)" by (simp add: s1_def)
  have "evt_id (thds s1 (Thd i)) < NUM_SCHED_EVTS" "\<not> sched_thd_free (thds s1 (Thd i))" using assms(2,5) by (simp_all add: t1)
  from sched_set_thd_urgency_ok [OF this(2,1)] obtain s2 where s2: "sched_set_thd_urgency (Thd i) prio s1 = Some s2"
    "thds s2 = (thds s)(Thd i := (thds s (Thd i))\<lparr>priority := prio, urgency := prio\<rparr>)" "prio_l s2 = prio_l s" "active s2 = active s"
    by (auto simp: s1_def upd_sthd_def)
  have "runq X s2 q"
  proof (rule runqI)
    fix p' j assume "p' < 32" "j \<in> set (q p')"
    then show "prio_of s2 j = p' \<and> \<not> sched_thd_free (thds s2 (Thd j))"
      using runq_facts(3) [OF assms(1), of p' j] assms(6,8) by (auto simp: prio_of_def s2(2))
  next
    fix j assume "j \<notin> X" "\<And>p'. p' < 32 \<Longrightarrow> j \<notin> set (q p')"
    then show "ring (prio_l s2) [Thd j]" unfolding s2(3) by (rule runq_facts(4) [OF assms(1)])
  qed (simp_all add: runq_facts(1,2,5) [OF assms(1)] s2(3,4))
  moreover have "prio_of s2 i = p" using assms(6) by (simp add: prio_of_def s2(2))
  ultimately obtain s3 where "fp_move_end_runnable (Thd i) s2 = Some s3" "runq X s3 (q(p := remove1 i (q p) @ [i]))" "thds s3 = thds s2"
    "kept X s2 s3" using fp_move_end_runnable_ok [of X s2 q i p] assms(2-4,7,9) by (auto simp: s2(2))
  moreover have "kept X s s3" by (rule kept_trans [OF kept_same calculation(4)]) (rule s2(3))
  ultimately show ?thesis using s2 assms(2-4,6,7) by (simp add: fp_add_thd_def sched_get_metric_def NUM_PRIOS_def s1_def [symmetric])
qed

lemma fp_add_start_runnable_ok:
  assumes "runq X s q" "\<not> sched_thd_free (thds s (Thd i))" "sched_thd_ready (thds s (Thd i))" "prio_of s i = p" "p < 32"
    "\<And>p'. p' < 32 \<Longrightarrow> i \<notin> set (q p')" "i \<notin> X"
  shows "\<exists>s'. fp_add_start_runnable (Thd i) s = Some s' \<and> runq X s' (q(p := i # q p)) \<and> thds s' = thds s \<and> kept X s s'"
proof -
  have "ring (ADD_LIST (Runnable p) (Thd i) (prio_l s)) (Runnable p # Thd i # map Thd (q p))"
    by (rule ring_ADD [OF runq_facts(1) [OF assms(1,5)]]) (use assms(6) [OF assms(5)] in auto)
  then have "runq X (mask_set p (s\<lparr>prio_l := ADD_LIST (Runnable p) (Thd i) (prio_l s)\<rparr>)) (q(p := i # q p))"
    "kept X s (mask_set p (s\<lparr>prio_l := ADD_LIST (Runnable p) (Thd i) (prio_l s)\<rparr>))"
    using runq_insert [OF assms(1,5,4,2,6,7), of "Runnable p" "i # q p"] by simp_all
  with assms(2-5) show ?thesis
    by (simp add: fp_add_start_runnable_def sched_get_metric_def prio_of_def NUM_PRIOS_def)
qed

subsection \<open>The choice of a thread\<close>

text \<open>The threads of all queues in the order in which they are to run.\<close>

definition in_order :: "(nat \<Rightarrow> nat list) \<Rightarrow> nat list" where
  "in_order q = concat (map q [0..<32])"

lemma in_order_set: "set (in_order q) = (\<Union>p \<in> {..<32}. set (q p))"
  by (auto simp: in_order_def)

lemma upt_split: "p < n \<Longrightarrow> [0..<n] = [0..<p] @ p # [Suc p..<n]"
  using upt_add_eq_append [of 0 p "n - p"] by (simp add: upt_conv_Cons)

lemma in_order_split:
  assumes "p < 32" "\<forall>p' < p. q p' = []"
  shows "in_order q = q p @ concat (map q [Suc p..<32])"
proof -
  have "concat (map q [0..<p]) = []" using assms(2) by simp
  then show ?thesis unfolding in_order_def upt_split [OF assms(1)] by simp
qed

lemma in_order_first:
  assumes "in_order q \<noteq> []"
  shows "\<exists>p. p < 32 \<and> q p \<noteq> [] \<and> (\<forall>p' < p. q p' = []) \<and> hd (in_order q) = hd (q p)"
proof -
  obtain k where k: "k < 32" "q k \<noteq> []" using assms by (auto simp: in_order_def)
  define p where "p = (LEAST p. q p \<noteq> [])"
  have p: "q p \<noteq> []" "p \<le> k" unfolding p_def using k(2) by (rule LeastI, rule Least_le)
  moreover have e: "\<forall>p' < p. q p' = []" using not_less_Least [of _ "\<lambda>p. q p \<noteq> []"] unfolding p_def by blast
  moreover have "p < 32" using p(2) k(1) by simp
  ultimately show ?thesis using in_order_split [OF \<open>p < 32\<close> e] by auto
qed

lemma in_order_hdI:
  assumes "p < 32" "q p \<noteq> []" "\<forall>p' < p. q p' = []"
  shows "in_order q \<noteq> []" "hd (in_order q) = hd (q p)"
  using in_order_split [OF assms(1,3)] assms(2) by auto

definition all_ready :: "'z fp_state_scheme \<Rightarrow> (nat \<Rightarrow> nat list) \<Rightarrow> bool" where
  "all_ready s q \<longleftrightarrow> (\<forall>p < 32. \<forall>i \<in> set (q p). sched_thd_ready (thds s (Thd i)))"

lemma fp_get_highest_prio_ok:
  assumes "runq X s q" "all_ready s q" "in_order q \<noteq> []"
  shows "fp_get_highest_prio s = Some (Thd (hd (in_order q)))"
proof -
  from in_order_first [OF assms(3)] obtain p where p: "p < 32" "q p \<noteq> []" "\<forall>p' < p. q p' = []" "hd (in_order q) = hd (q p)" by blast
  have "lowest (active s) p" unfolding lowest_def
    using p runq_facts(2) [OF assms(1)] by auto
  then have m: "mask_high s = Some (of_nat p)" by (rule mask_high_lowest)
  have u: "unat (of_nat p :: u16) = p" using p(1) by (simp add: of_nat_inverse)
  have h: "hd (q p) \<in> set (q p)" using p(2) by simp
  have f: "FIRST_LIST (Runnable p) (prio_l s) = Thd (hd (q p))"
    using ring_FIRST [OF runq_facts(1) [OF assms(1) p(1)]] p(2) by (simp add: hd_map)
  have t: "unat (priority (thds s (Thd (hd (q p))))) = p" "\<not> sched_thd_free (thds s (Thd (hd (q p))))"
    using runq_facts(3) [OF assms(1) p(1) h] by (simp_all add: prio_of_def)
  have "priority (thds s (Thd (hd (q p)))) = of_nat p" using t(1) u by (simp only: word_unat_eq_iff)
  with assms(2) h p(1,4) m u f t(2) show ?thesis
    by (simp add: fp_get_highest_prio_def sched_get_metric_def NUM_PRIOS_def all_ready_def)
qed

lemma without_hd:
  assumes "in_order q \<noteq> []" "hd (in_order q) \<noteq> i"
  shows "in_order (without i q) \<noteq> [] \<and> hd (in_order (without i q)) = hd (in_order q)"
proof -
  from in_order_first [OF assms(1)] obtain p where p: "p < 32" "q p \<noteq> []" "\<forall>p' < p. q p' = []" "hd (in_order q) = hd (q p)" by blast
  obtain x xs where x: "q p = x # xs" "x \<noteq> i" using p(2,4) assms(2) by (cases "q p") auto
  then have "without i q p = x # remove1 i xs" by (simp add: without_def)
  moreover have "\<forall>p' < p. without i q p' = []" using p(3) by (simp add: without_def)
  ultimately show ?thesis using in_order_hdI [of p "without i q"] p(1,4) x(1) by simp
qed

lemma schedule_ok:
  assumes "runq X s q" "all_ready s q" "in_order (without i q) \<noteq> []" "\<not> sched_thd_member (thds s (Thd i))"
  shows "\<exists>s'. schedule (Some (Thd i)) s = Some (Thd (hd (in_order (without i q))), s') \<and> runq X s' q \<and> thds s' = thds s \<and> kept X s s'"
proof -
  have ne: "in_order q \<noteq> []"
  proof
    assume "in_order q = []"
    then have "without i q p = []" if "p < 32" for p using that by (auto simp: in_order_def without_def)
    with assms(3) show False by (simp add: in_order_def)
  qed
  have top: "fp_get_highest_prio s = Some (Thd (hd (in_order q)))" by (rule fp_get_highest_prio_ok [OF assms(1,2) ne])
  show ?thesis
  proof (cases "hd (in_order q) = i")
    case False
    then show ?thesis using without_hd [OF ne False] top assms(1,4) by (simp add: schedule_def kept_def)
  next
    case True
    from in_order_first [OF ne] obtain p where p: "p < 32" "q p \<noteq> []" "hd (in_order q) = hd (q p)" by blast
    then have q: "q p = i # tl (q p)" using True by (metis list.collapse)
    then have iq: "i \<in> set (q p)" by (metis list.set_intros(1))
    have i: "prio_of s i = p" "\<not> sched_thd_free (thds s (Thd i))" "sched_thd_ready (thds s (Thd i))"
      using runq_facts(3) [OF assms(1) p(1) iq] assms(2) p(1) iq by (auto simp: all_ready_def)
    have X: "i \<notin> X" by (rule runq_facts(5) [OF assms(1) p(1) iq])
    from fp_rem_thd_ok [OF assms(1) i(2) X] obtain s1 where s1: "fp_rem_thd (Thd i) s = Some s1" "runq X s1 (without i q)" "thds s1 = thds s"
      "kept X s s1" by blast
    have "all_ready s1 (without i q)" using assms(2) s1(3) unfolding all_ready_def without_def by (metis notin_set_remove1)
    then have t: "fp_get_highest_prio s1 = Some (Thd (hd (in_order (without i q))))" by (rule fp_get_highest_prio_ok [OF s1(2) _ assms(3)])
    from fp_add_start_runnable_ok [OF s1(2), of i p] i s1(3) p(1) without_notin_set [OF assms(1)] X
    obtain s2 where s2: "fp_add_start_runnable (Thd i) s1 = Some s2" "runq X s2 ((without i q)(p := i # without i q p))" "thds s2 = thds s"
      "kept X s1 s2" by (auto simp: prio_of_def)
    have "i # without i q p = q p" unfolding without_def by (subst (2) q, subst q) simp
    then have "runq X s2 q" using s2(2) unfolding runq_without_other [OF assms(1) p(1) i(1)]
      by (subst (asm) runq_ext [where q' = q]) auto
    then show ?thesis using True top s1(1) t s2(1,3) assms(4) kept_trans [OF s1(4) s2(4)]
      by (simp add: schedule_def fp_get_second_highest_prio_def)
  qed
qed

subsection \<open>The passage of time\<close>

lemma use_quanta_ok:
  "\<exists>sa'. use_quanta sa = Some sa' \<and> cycles sa' \<le> QUANTUM \<and> T_amnt sa' = T_amnt sa \<and> pol_cycles sa' = pol_cycles sa"
proof (induction "unat (cycles sa)" arbitrary: sa rule: less_induct)
  case less
  show ?case
  proof (cases "cycles sa > QUANTUM")
    case True
    then have "unat (cycles sa - QUANTUM) = unat (cycles sa) - unat QUANTUM" by (intro unat_sub) simp
    moreover have "0 < unat QUANTUM" "unat QUANTUM < unat (cycles sa)" using True by (simp_all add: QUANTUM_def word_less_nat_alt)
    ultimately have "unat (cycles (sa\<lparr>cycles := cycles sa - QUANTUM, a_ticks := a_ticks sa + 1\<rparr>)) < unat (cycles sa)" by simp
    from less.hyps [OF this] True show ?thesis by (subst use_quanta.simps) simp
  next
    case False
    then have "use_quanta sa = Some sa" by (subst use_quanta.simps) simp
    with False show ?thesis by (simp add: not_less)
  qed
qed

text \<open>A thread that is no server and has used up its quantum goes to the end of its queue.\<close>

lemma time_elapsed_ok:
  assumes "runq X s q" "\<not> sched_thd_free (thds s (Thd i))" "sched_thd_ready (thds s (Thd i))" "\<not> sched_thd_suspended (thds s (Thd i))"
    "prio_of s i = p" "p < 32" "T_amnt (accounting (thds s (Thd i))) = 0" "QUANTUM \<le> cycles (accounting (thds s (Thd i))) + ucast pt" "i \<notin> X"
  shows "\<exists>s' a. time_elapsed (Thd i) pt s = Some s' \<and> runq X s' (q(p := remove1 i (q p) @ [i]))
    \<and> thds s' = (thds s)(Thd i := (thds s (Thd i))\<lparr>accounting := a\<rparr>) \<and> T_amnt a = 0 \<and> cycles a \<le> QUANTUM"
proof -
  let ?t = "Thd i"
  define a0 where "a0 = (accounting (thds s ?t))\<lparr>pol_cycles := pol_cycles (accounting (thds s ?t)) + ucast pt,
    cycles := cycles (accounting (thds s ?t)) + ucast pt\<rparr>"
  obtain a1 where a1: "use_quanta a0 = Some a1" "cycles a1 \<le> QUANTUM" "T_amnt a1 = 0"
    using use_quanta_ok [of a0] assms(7) by (auto simp: a0_def)
  define s1 where "s1 = upd_acct ?t (\<lambda>_. a1) (upd_acct ?t (\<lambda>_. a0) s)"
  have t1: "thds s1 = (thds s)(?t := (thds s ?t)\<lparr>accounting := a1\<rparr>)" by (simp add: s1_def upd_acct_def)
  have "runq X s1 q" using assms(1) by (subst runq_cong [of s1 s]) (simp_all add: t1, simp_all add: s1_def upd_acct_def upd_sthd_def)
  then obtain s2 where s2: "fp_move_end_runnable ?t s1 = Some s2" "runq X s2 (q(p := remove1 i (q p) @ [i]))" "thds s2 = thds s1"
    using fp_move_end_runnable_ok [of X s1 q i p] assms(2-6,9) by (auto simp: t1 prio_of_def)
  define s3 where "s3 = (if pol_cycles a1 > QUANTUM then upd_acct ?t (\<lambda>a. a\<lparr>pol_cycles := pol_cycles a - QUANTUM\<rparr>) s2 else s2)"
  obtain a where a: "thds s3 = (thds s)(?t := (thds s ?t)\<lparr>accounting := a\<rparr>)" "T_amnt a = 0" "cycles a \<le> QUANTUM"
    using a1 s2(3) t1 by (cases "pol_cycles a1 > QUANTUM") (auto simp: s3_def upd_acct_def)
  have "runq X s3 (q(p := remove1 i (q p) @ [i]))"
    using s2(2) by (subst runq_cong [of s3 s2]) (simp_all add: a(1) s2(3) t1, simp_all add: s3_def upd_acct_def upd_sthd_def)
  moreover have "time_elapsed ?t pt s = Some s3"
  proof -
    have ge: "QUANTUM \<le> cycles a0" using assms(8) by (simp add: a0_def)
    have nb: "\<not> sched_thd_inactive_evt (thds s ?t)" "\<not> sched_thd_blocked (thds s ?t)" using assms(3) by (simp_all add: sched_thd_ready_def)
    have nb1: "\<not> sched_thd_inactive_evt (thds s1 ?t)" "\<not> sched_thd_blocked (thds s1 ?t)"
      using nb by (simp_all add: t1 sched_thd_inactive_evt_def sched_thd_blocked_def)
    have r1: "sched_thd_ready (thds s1 ?t)" "\<not> sched_thd_suspended (thds s1 ?t)" using assms(3,4) by (simp_all add: t1)
    have "accounting (thds s2 ?t) = a1" by (simp add: s2(3) t1)
    then show ?thesis using assms(2,8) ge a1 s2(1) nb1 r1
      by (simp add: time_elapsed_def sched_get_accounting_def a0_def [symmetric] s1_def [symmetric] s3_def Let_def) (simp add: upd_acct_def)
  qed
  ultimately show ?thesis using a by blast
qed

text \<open>Time passes in full quanta: each time the scheduler chooses a thread, which uses up a quantum.\<close>

fun quanta :: "nat \<Rightarrow> 'z fp_state_scheme \<Rightarrow> sched_node list option" where
  "quanta 0 s = Some []"
| "quanta (Suc k) s = do {
     (t, s) \<leftarrow> schedule None s;
     s \<leftarrow> time_elapsed t 16000000 s;
     ts \<leftarrow> quanta k s;
     Some (t # ts) }"

definition no_servers :: "'z fp_state_scheme \<Rightarrow> nat list \<Rightarrow> bool" where
  "no_servers s xs \<longleftrightarrow> (\<forall>i \<in> set xs. \<not> sched_thd_suspended (thds s (Thd i)) \<and> T_amnt (accounting (thds s (Thd i))) = 0
     \<and> cycles (accounting (thds s (Thd i))) \<le> QUANTUM)"

lemma quantum_sum: "c \<le> QUANTUM \<Longrightarrow> QUANTUM \<le> c + ucast (16000000 :: u32)"
proof -
  assume c: "c \<le> QUANTUM"
  then have "unat c \<le> 16000000" by (simp add: QUANTUM_def word_le_nat_alt)
  then have "unat (c + QUANTUM) = unat c + unat QUANTUM" by (intro unat_add_lem [THEN iffD1]) (simp add: QUANTUM_def)
  then have "QUANTUM \<le> c + QUANTUM" by (simp add: word_le_nat_alt)
  moreover have "ucast (16000000 :: u32) = QUANTUM" by (simp add: QUANTUM_def)
  ultimately show ?thesis by simp
qed

lemma in_order_least:
  assumes "\<And>p j. p < 32 \<Longrightarrow> j \<in> set (q p) \<Longrightarrow> prio_of s j = p" "in_order q \<noteq> []"
  shows "hd (in_order q) \<in> set (in_order q) \<and> (\<forall>j \<in> set (in_order q). prio_of s (hd (in_order q)) \<le> prio_of s j)"
proof (intro conjI ballI)
  show "hd (in_order q) \<in> set (in_order q)" using assms(2) by simp
  fix j assume "j \<in> set (in_order q)"
  then obtain p' where p': "p' < 32" "j \<in> set (q p')" by (auto simp: in_order_set)
  from in_order_first [OF assms(2)] obtain p where p: "p < 32" "q p \<noteq> []" "\<forall>p' < p. q p' = []" "hd (in_order q) = hd (q p)" by blast
  have "prio_of s (hd (in_order q)) = p" using assms(1) [OF p(1), of "hd (q p)"] p(2,4) by simp
  moreover have "prio_of s j = p'" by (rule assms(1) [OF p'])
  moreover have "p \<le> p'" using p(3) p'(2) by (metis empty_iff empty_set not_le)
  ultimately show "prio_of s (hd (in_order q)) \<le> prio_of s j" by simp
qed

lemma in_order_without:
  assumes "runq X s q"
  shows "set (in_order (without i q)) = set (in_order q) - {i}"
proof -
  have "set (without i q p) = set (q p) - {i}" if "p < 32" for p
    using runq_distinct [OF assms that] by (simp add: without_def set_remove1_eq)
  then show ?thesis by (auto simp: in_order_set)
qed

subsection \<open>Properties\<close>

text \<open>With deferrable servers, giving a thread a priority relative to one that is no server destroys the list
of servers: the guard in front of \<^verbatim>\<open>ADD_LIST\<close> covers only its first assignment.  The next tick of the timer
then fails.\<close>

lemma relative_params_break_servers:
  assumes "sched_get_mapping cur s = Some c" "\<not> sched_thd_free (thds s c)" "\<not> sched_thd_free (thds s (Thd i))"
    "T_amnt (accounting (thds s c)) = 0" "ring (sched_l s) [Thd i]"
  shows "\<exists>prio s'. fp_params_prio True cur (Thd i) (CHR ''r'' # p) s = Some (prio, s') \<and> timer_tick True 1 s' = None"
proof -
  define s1 where "s1 = upd_acct (Thd i) (\<lambda>_. accounting (thds s c)) s"
  define s2 where "s2 = s1\<lparr>sched_l := ADD_LIST_rest Servers (Thd i) (sched_l s1)\<rparr>"
  have T: "T_amnt (accounting (thds s1 (Thd i))) = 0" using assms(4) by (simp add: s1_def upd_acct_def)
  then obtain prio where "fp_params_prio True cur (Thd i) (CHR ''r'' # p) s = Some (prio, s2)"
    using assms(1-3) by (simp add: fp_params_prio_def char_at_def sched_get_metric_def sched_get_accounting_def s1_def [symmetric] s2_def Let_def)
  moreover have "FIRST_LIST Servers (sched_l s2) = Thd i" by (simp add: s2_def FIRST_LIST_def ADD_LIST_rest_def Let_def)
  then have "timer_tick True 1 s2 = None" using T
    by (simp add: timer_tick_def timer_tick_loop.simps replenish_def sched_get_accounting_def c_assert_def s2_def)
  ultimately show ?thesis by blast
qed

text \<open>C7.  The run queues implement an array of first-in first-out queues, one for each priority, and the
mask of active priorities always shows which of them hold threads.  Blocking a thread takes it out of its
queue; waking a thread puts it at the end of the queue of its priority.  No assertion of the policy fails.
The threads \<open>X\<close> are on lists of the component around the policy, such as that of blocked threads.\<close>

theorem fp_rr_refines_queues:
  assumes "runq X s q" "\<not> sched_thd_free (thds s (Thd i))" "\<not> sched_thd_member (thds s (Thd i))" "evt_id (thds s (Thd i)) < NUM_SCHED_EVTS"
    "i \<notin> X"
  shows "(\<exists>s'. thread_block (Thd i) s = Some s' \<and> runq X s' (without i q) \<and> thds s' = thds s)
    \<and> (sched_thd_ready (thds s (Thd i)) \<and> \<not> sched_thd_suspended (thds s (Thd i)) \<and> prio_of s i = p \<and> p < 32 \<longrightarrow>
        (\<exists>s'. thread_wakeup (Thd i) s = Some s' \<and> runq X s' (q(p := remove1 i (q p) @ [i]))))"
proof (intro conjI impI)
  show "\<exists>s'. thread_block (Thd i) s = Some s' \<and> runq X s' (without i q) \<and> thds s' = thds s"
    using fp_rem_thd_ok [OF assms(1,2,5)] assms(3) by (auto simp: thread_block_def)
  assume h: "sched_thd_ready (thds s (Thd i)) \<and> \<not> sched_thd_suspended (thds s (Thd i)) \<and> prio_of s i = p \<and> p < 32"
  have "\<And>p'. p' < 32 \<Longrightarrow> i \<in> set (q p') \<Longrightarrow> p' = p" using runq_facts(3) [OF assms(1)] h by auto
  then have "\<exists>s'. fp_add_thd (Thd i) (priority (thds s (Thd i))) s = Some s' \<and> runq X s' (q(p := remove1 i (q p) @ [i]))"
    using fp_add_thd_ok [OF assms(1,2), of "priority (thds s (Thd i))" p] h assms(4,5) by (auto simp: prio_of_def)
  then show "\<exists>s'. thread_wakeup (Thd i) s = Some s' \<and> runq X s' (q(p := remove1 i (q p) @ [i]))"
    using h assms(2,3) by (auto simp: thread_wakeup_def sched_get_metric_def)
qed

text \<open>Two threads of priority 3 and one of priority 5, in its queue since it woke up last.\<close>

definition fp_example :: fp_state where
  "fp_example = \<lparr>thds = (\<lambda>_. zero_sthd)(Thd 1 := zero_sthd\<lparr>priority := 3\<rparr>, Thd 2 := zero_sthd\<lparr>priority := 3\<rparr>, Thd 4 := zero_sthd\<lparr>priority := 5\<rparr>),
     sched_thd_map = (\<lambda>_. None), sched_map_evt_thd = (\<lambda>_. None), holding_thd = (\<lambda>_. None),
     prio_l = \<lparr>lnext = id(Runnable 3 := Thd 1, Thd 1 := Thd 2, Thd 2 := Runnable 3, Runnable 5 := Thd 4, Thd 4 := Runnable 5),
       lprev = id(Runnable 3 := Thd 2, Thd 2 := Thd 1, Thd 1 := Runnable 3, Runnable 5 := Thd 4, Thd 4 := Runnable 5)\<rparr>,
     sched_l = zero_links, grp_l = zero_links, cevt_l = zero_links, notif = zero_area, cos_curr_evt = 0, active = 0x28, ds_ticks = 0\<rparr>"

definition fp_queues :: "nat \<Rightarrow> nat list" where
  "fp_queues = (\<lambda>_. [])(3 := [1, 2], 5 := [4])"

lemma fp_example_ok:
  "runq {} fp_example fp_queues" "all_ready fp_example fp_queues" "thds fp_example (Thd 7) = zero_sthd"
proof -
  have b: "bit (active fp_example) p \<longleftrightarrow> p = 3 \<or> p = 5" for p
  proof -
    have "active fp_example = push_bit 3 1 OR push_bit 5 1" by (simp add: fp_example_def)
    then show ?thesis by (simp only: bit_or_iff bit_push_bit_iff) (auto simp: bit_1_iff)
  qed
  show "runq {} fp_example fp_queues"
  proof (rule runqI)
    fix p :: nat
    show "ring (prio_l fp_example) (Runnable p # map Thd (fp_queues p))"
      by (cases "p = 3"; cases "p = 5") (simp_all add: fp_queues_def fp_example_def ring_def)
    show "bit (active fp_example) p \<longleftrightarrow> fp_queues p \<noteq> []" unfolding b by (simp add: fp_queues_def)
    show "prio_of fp_example i = p \<and> \<not> sched_thd_free (thds fp_example (Thd i))" if "i \<in> set (fp_queues p)" for i
      using that by (cases "p = 3"; cases "p = 5") (auto simp: fp_queues_def fp_example_def prio_of_def sched_thd_free_def has_def zero_sthd_def)
  next
    fix i :: nat assume i: "\<And>p. p < 32 \<Longrightarrow> i \<notin> set (fp_queues p)"
    have "i \<noteq> 1" "i \<noteq> 2" "i \<noteq> 4" using i [of 3] i [of 5] by (auto simp: fp_queues_def)
    then show "ring (prio_l fp_example) [Thd i]" by (simp add: ring_single fp_example_def)
  qed simp
  show "all_ready fp_example fp_queues"
    by (auto simp: all_ready_def fp_queues_def fp_example_def sched_thd_ready_def sched_thd_blocked_def sched_thd_inactive_evt_def
        sched_thd_dying_def has_def zero_sthd_def split: if_splits)
  show "thds fp_example (Thd 7) = zero_sthd" by (simp add: fp_example_def)
qed

lemma fp_example_thds:
  "\<not> sched_thd_free (thds fp_example (Thd i))" "\<not> sched_thd_member (thds fp_example (Thd i))" "evt_id (thds fp_example (Thd i)) < NUM_SCHED_EVTS"
  "sched_thd_ready (thds fp_example (Thd i))" "\<not> sched_thd_suspended (thds fp_example (Thd i))"
  by (simp_all add: fp_example_def sched_thd_free_def sched_thd_member_def sched_thd_ready_def sched_thd_suspended_def sched_thd_blocked_def
      sched_thd_inactive_evt_def sched_thd_dying_def has_def zero_sthd_def NUM_SCHED_EVTS_def)

theorem fp_rr_refines_queues_witness:
  "runq {} fp_example fp_queues \<and> (\<exists>s'. thread_block (Thd 2) fp_example = Some s' \<and> runq {} s' (without 2 fp_queues))
   \<and> (\<exists>s'. thread_wakeup (Thd 7) fp_example = Some s' \<and> runq {} s' (fp_queues(0 := [7])))"
proof -
  have "prio_of fp_example 7 = 0" "fp_queues 0 = []" using fp_example_ok(3) by (simp_all add: prio_of_def zero_sthd_def fp_queues_def)
  then have "\<exists>s'. thread_wakeup (Thd 7) fp_example = Some s' \<and> runq {} s' (fp_queues(0 := remove1 7 (fp_queues 0) @ [7]))"
    using fp_example_thds(4,5)
    by (intro fp_rr_refines_queues [OF fp_example_ok(1) fp_example_thds(1-3), THEN conjunct2, rule_format]) simp_all
  then have w: "\<exists>s'. thread_wakeup (Thd 7) fp_example = Some s' \<and> runq {} s' (fp_queues(0 := [7]))"
    unfolding \<open>fp_queues 0 = []\<close> by (simp only: remove1.simps append_Nil)
  have "\<exists>s'. thread_block (Thd 2) fp_example = Some s' \<and> runq {} s' (without 2 fp_queues)"
    using fp_rr_refines_queues [OF fp_example_ok(1) fp_example_thds(1-3), THEN conjunct1] by blast
  with w fp_example_ok(1) show ?thesis by (intro conjI)
qed

text \<open>C8.  \<^verbatim>\<open>schedule\<close> never chooses the thread it is told to leave out.  Where another thread is in a run
queue it chooses one, and of all other threads in the queues none has a higher priority.  The queues are as
before.\<close>

theorem schedule_highest_other:
  assumes "runq X s q" "all_ready s q" "\<not> sched_thd_member (thds s (Thd i))" "j \<in> set (in_order q)" "j \<noteq> i"
  shows "\<exists>n s'. schedule (Some (Thd i)) s = Some (Thd n, s') \<and> n \<noteq> i \<and> n \<in> set (in_order q)
    \<and> (\<forall>j \<in> set (in_order q). j = i \<or> prio_of s n \<le> prio_of s j) \<and> runq X s' q"
proof -
  have "j \<in> set (in_order (without i q))" unfolding in_order_without [OF assms(1)] using assms(4,5) by blast
  then have ne: "in_order (without i q) \<noteq> []" by (rule list.set_cases) simp_all
  obtain s' where s': "schedule (Some (Thd i)) s = Some (Thd (hd (in_order (without i q))), s')" "runq X s' q"
    using schedule_ok [OF assms(1,2) ne assms(3)] by blast
  have pr: "prio_of s j = p" if "p < 32" "j \<in> set (without i q p)" for p j
  proof -
    from that(2) have "j \<in> set (q p)" unfolding without_def by (rule set_remove1_subset [THEN subsetD])
    then show ?thesis using runq_facts(3) [OF assms(1) that(1)] by blast
  qed
  have "hd (in_order (without i q)) \<in> set (in_order q) - {i}
    \<and> (\<forall>j \<in> set (in_order q) - {i}. prio_of s (hd (in_order (without i q))) \<le> prio_of s j)"
    unfolding in_order_without [OF assms(1), symmetric] by (rule in_order_least [OF _ ne]) (erule (1) pr)
  then have least: "hd (in_order (without i q)) \<in> set (in_order q) - {i}"
    "\<forall>j \<in> set (in_order q) - {i}. prio_of s (hd (in_order (without i q))) \<le> prio_of s j" by blast+
  then have "\<forall>j \<in> set (in_order q). j = i \<or> prio_of s (hd (in_order (without i q))) \<le> prio_of s j" by blast
  with least(1) s' show ?thesis by blast
qed

theorem schedule_highest_other_witness:
  "runq {} fp_example fp_queues \<and> 2 \<in> set (in_order fp_queues)
   \<and> (\<exists>n s'. schedule (Some (Thd 1)) fp_example = Some (Thd n, s') \<and> n \<noteq> 1 \<and> prio_of fp_example n \<le> 3 \<and> runq {} s' fp_queues)"
proof -
  have o: "2 \<in> set (in_order fp_queues)" by (auto simp: in_order_set fp_queues_def intro: bexI [of _ 3])
  have "prio_of fp_example 2 = 3" by (simp add: prio_of_def fp_example_def)
  with schedule_highest_other [OF fp_example_ok(1,2) fp_example_thds(2) o, of 1] o fp_example_ok(1) show ?thesis by fastforce
qed

text \<open>C19.  Threads of the same priority share the processor in turn.  Let \<open>p\<close> be the highest priority with
threads, none of them a server, and let time pass in quanta, each used up by the thread \<^verbatim>\<open>schedule\<close> chooses.
Then the \<open>k\<close> threads chosen first are those of the queue of \<open>p\<close>, one after the other and again from the
start; so each of the \<open>n\<close> threads runs within any \<open>n\<close> consecutive quanta.\<close>

theorem round_robin:
  assumes "runq X s q" "all_ready s q" "p < 32" "q p \<noteq> []" "\<forall>p' < p. q p' = []" "no_servers s (q p)"
  shows "quanta k s = Some (map (\<lambda>j. Thd (q p ! (j mod length (q p)))) [0..<k])"
  using assms
proof (induction k arbitrary: s q)
  case (Suc k)
  note pr = Suc.prems
  obtain i xs where q: "q p = i # xs" using pr(4) by (cases "q p") auto
  have i: "prio_of s i = p" "\<not> sched_thd_free (thds s (Thd i))" "sched_thd_ready (thds s (Thd i))" "\<not> sched_thd_suspended (thds s (Thd i))"
    "T_amnt (accounting (thds s (Thd i))) = 0" "cycles (accounting (thds s (Thd i))) \<le> QUANTUM"
    using runq_facts(3) [OF pr(1,3), of i] pr(2,3,6) q by (auto simp: all_ready_def no_servers_def)
  have n: "schedule None s = Some (Thd i, s)"
    using fp_get_highest_prio_ok [OF pr(1,2) in_order_hdI(1) [OF pr(3-5)]] in_order_hdI(2) [OF pr(3-5)] q by (simp add: schedule_def)
  have X: "i \<notin> X" using runq_facts(5) [OF pr(1,3), of i] q by simp
  from time_elapsed_ok [OF pr(1) i(2-4,1) pr(3) i(5) quantum_sum [OF i(6)] X] q
  obtain s' a where s': "time_elapsed (Thd i) 16000000 s = Some s'" "runq X s' (q(p := xs @ [i]))"
    "thds s' = (thds s)(Thd i := (thds s (Thd i))\<lparr>accounting := a\<rparr>)" "T_amnt a = 0" "cycles a \<le> QUANTUM" by auto
  let ?q = "q(p := xs @ [i])"
  have ar: "all_ready s' ?q" using pr(2,3) q by (auto simp: all_ready_def s'(3))
  have ns: "no_servers s' (?q p)" using pr(6) q s'(4,5) by (auto simp: no_servers_def s'(3))
  have rot: "(xs @ [i]) ! (j mod Suc (length xs)) = (i # xs) ! (Suc j mod Suc (length xs))" for j
    using nth_rotate1 [of "j mod Suc (length xs)" "i # xs"] by (simp add: mod_Suc_eq)
  have "quanta k s' = Some (map (\<lambda>j. Thd (?q p ! (j mod length (?q p)))) [0..<k])"
    by (rule Suc.IH [OF s'(2) ar pr(3) _ _ ns]) (use pr(5) in auto)
  then have "quanta k s' = Some (map (\<lambda>j. Thd ((i # xs) ! (Suc j mod Suc (length xs)))) [0..<k])"
    by (simp only: fun_upd_same length_append_singleton rot)
  then have "quanta (Suc k) s = Some (Thd i # map (\<lambda>j. Thd ((i # xs) ! (Suc j mod Suc (length xs)))) [0..<k])"
    using n s'(1) by simp
  then show ?case unfolding map_upt_Suc q by simp
qed simp

theorem round_robin_witness:
  "no_servers fp_example (fp_queues 3) \<and> quanta 3 fp_example = Some [Thd 1, Thd 2, Thd 1]"
proof -
  have q: "fp_queues 3 \<noteq> []" "\<forall>p' < 3. fp_queues p' = []" "fp_queues 3 = [1, 2]" by (simp_all add: fp_queues_def)
  have n: "no_servers fp_example (fp_queues 3)"
    using fp_example_thds(5) by (auto simp: no_servers_def q(3)) (simp_all add: fp_example_def zero_sthd_def zero_acct_def QUANTUM_def)
  have "quanta 3 fp_example = Some (map (\<lambda>j. Thd (fp_queues 3 ! (j mod length (fp_queues 3)))) [0..<3])"
    by (rule round_robin [OF fp_example_ok(1,2) _ q(1,2) n]) simp
  then show ?thesis using n by (simp add: q(3) upt_rec)
qed

end
