(* ===== verification/Sched_Base.thy ===== *)
theory Sched_Base
  imports Fprr Scheduling
begin

text \<open>
  The scheduler component around the policy (\<^verbatim>\<open>components/implementation/sched/cos_sched_base.c\<close>): blocking and
  waking of threads, component locks with help for the holder, the reaction to events from the kernel, the
  timer, and the interface to schedulers below.  \<open>cur\<close> is the number of the running thread.  Every operation
  runs under the scheduler lock.

  Where the code switches threads, the model gives the thread and the flags of the system call (\<open>None\<close>: the
  thread keeps running), as the loop around the call repeats the choice while the kernel asks for it.  What
  follows the switch in the code of a blocked thread is an operation of its own.  Printing is left out; the
  counters it resets are not.  The system call in \<^verbatim>\<open>sched_wakeup\<close> that breaks the chain of preempted threads acts on
  the state of the kernel only (theory \<open>Brands\<close>), not on that of the component.
\<close>

subsection \<open>State\<close>

definition THD_PHANTOM :: u16 where "THD_PHANTOM = 0x400"
definition SCHED_CEVT_OTHER :: u32 where "SCHED_CEVT_OTHER = 0x1"
definition SCHED_CEVT_WAKE :: u32 where "SCHED_CEVT_WAKE = 0x2"
definition SCHED_CEVT_BLOCK :: u32 where "SCHED_CEVT_BLOCK = 0x4"
definition TIMER_FREQ :: "64 word" where "TIMER_FREQ = 100"
definition REPORT_FREQ :: "64 word" where "REPORT_FREQ = 5"
definition EVT_BRAND_ACTIVE :: u8 where "EVT_BRAND_ACTIVE = 0x4"
definition EVT_BRAND_READY :: u8 where "EVT_BRAND_READY = 0x8"
definition EVT_BRAND_PEND :: u8 where "EVT_BRAND_PEND = 0x10"

definition sched_thd_phantom :: "sched_thd \<Rightarrow> bool" where "sched_thd_phantom t \<longleftrightarrow> has (st_flags t) THD_PHANTOM"

record sched_base = fp_state +
  b_ticks :: "64 word"
  wakeup_time :: "64 word"
  child_wakeup_time :: "64 word"
  wakeup_thd :: "sched_node option"
  timer :: "sched_node option"
  idle :: "sched_node option"
  sched_root :: bool

abbreviation set_flags :: "sched_node \<Rightarrow> u16 \<Rightarrow> u16 \<Rightarrow> sched_base \<Rightarrow> sched_base" where
  "set_flags t off on s \<equiv> upd_sthd t (\<lambda>x. x\<lparr>st_flags := (st_flags x AND NOT off) OR on\<rparr>) s"

definition sched_get_current :: "nat \<Rightarrow> sched_base \<Rightarrow> sched_node option" where
  "sched_get_current cur s = sched_get_mapping cur s"

subsection \<open>Waking\<close>

definition fp_pre_wakeup :: "sched_node \<Rightarrow> sched_base \<Rightarrow> sched_base option" where
  "fp_pre_wakeup t s = do {
     c_assert (0 \<le> wake_cnt (thds s t) \<and> wake_cnt (thds s t) \<le> 2);
     if wake_cnt (thds s t) = 2 then Some s
     else do {
       let s = upd_sthd t (\<lambda>x. x\<lparr>wake_cnt := wake_cnt x + 1\<rparr>) s;
       c_assert (sched_thd_dependent (thds s t) \<or> sched_thd_blocked (thds s t) \<or> wake_cnt (thds s t) = 2);
       Some s } }"

text \<open>
  \<^verbatim>\<open>fp_resume_thd\<close>, \<^verbatim>\<open>activate_child_sched\<close> and \<^verbatim>\<open>fp_wakeup\<close> call each other: resuming a thread of a child scheduler
  wakes the thread of that scheduler.
\<close>

partial_function (option) fp_resume_thd :: "sched_node \<Rightarrow> sched_base \<Rightarrow> sched_base option" where
  "fp_resume_thd t s = do {
     c_assert (sched_thd_blocked (thds s t));
     c_assert (\<not> sched_thd_free (thds s t));
     c_assert (\<not> sched_thd_ready (thds s t));
     let s = set_flags t THD_BLOCKED THD_READY s;
     let s = s\<lparr>prio_l := REM_LIST t (prio_l s)\<rparr>;
     if \<not> sched_thd_member (thds s t)
     then do {
       c_assert (sched_root s \<or> Some t \<noteq> timer s \<and> \<not> sched_thd_phantom (thds s t));
       thread_wakeup t s }
     else if EMPTY_LIST t (cevt_l s)
     then do {
       grp \<leftarrow> sched_get_grp t s;
       g \<leftarrow> grp;
       let s = s\<lparr>cevt_l := ADD_LIST g t (cevt_l s)\<rparr>;
       c_assert (sched_thd_grp (thds s g));
       c_assert (\<not> sched_thd_free (thds s g));
       c_assert (0 \<le> wake_cnt (thds s g) \<and> wake_cnt (thds s g) \<le> 2);
       s \<leftarrow> (if wake_cnt (thds s g) = 0
         then do {
           c_assert (sched_thd_blocked (thds s g));
           s \<leftarrow> fp_pre_wakeup g s;
           c_assert (wake_cnt (thds s g) = 1);
           fp_resume_thd g (upd_sthd g (\<lambda>x. x\<lparr>blocking_component := 0\<rparr>) s) }
         else Some s);
       c_assert (\<not> sched_thd_blocked (thds s g));
       Some s }
     else Some s }"

definition fp_wakeup :: "sched_node \<Rightarrow> sched_base \<Rightarrow> sched_base option" where
  "fp_wakeup t s = do {
     c_assert (wake_cnt (thds s t) = 1);
     fp_resume_thd t (upd_sthd t (\<lambda>x. x\<lparr>blocking_component := 0\<rparr>) s) }"

definition activate_child_sched :: "sched_node \<Rightarrow> sched_base \<Rightarrow> sched_base option" where
  "activate_child_sched g s = do {
     c_assert (sched_thd_grp (thds s g));
     c_assert (\<not> sched_thd_free (thds s g));
     c_assert (0 \<le> wake_cnt (thds s g) \<and> wake_cnt (thds s g) \<le> 2);
     s \<leftarrow> (if wake_cnt (thds s g) = 0
       then do {
         c_assert (sched_thd_blocked (thds s g));
         s \<leftarrow> fp_pre_wakeup g s;
         fp_wakeup g s }
       else Some s);
     c_assert (\<not> sched_thd_blocked (thds s g));
     Some s }"

subsection \<open>Events from the kernel\<close>

definition fp_activate_upcall :: "sched_node \<Rightarrow> sched_base \<Rightarrow> sched_base option" where
  "fp_activate_upcall uc s =
     (if sched_thd_inactive_evt (thds s uc)
      then do {
        let s = set_flags uc THD_UC_READY THD_READY s;
        let s = s\<lparr>prio_l := REM_LIST uc (prio_l s)\<rparr>;
        c_assert (sched_root s \<or> Some uc \<noteq> timer s \<and> \<not> sched_thd_phantom (thds s uc));
        thread_wakeup uc s }
      else Some s)"

definition fp_deactivate_upcall :: "sched_node \<Rightarrow> sched_base \<Rightarrow> sched_base option" where
  "fp_deactivate_upcall uc s = do {
     let s = set_flags uc THD_READY THD_UC_READY s;
     s \<leftarrow> thread_block uc s;
     c_assert (EMPTY_LIST uc (prio_l s));
     Some (s\<lparr>prio_l := ADD_LIST Upcall_deactive uc (prio_l s)\<rparr>) }"

definition evt_callback :: "nat \<Rightarrow> sched_node \<Rightarrow> u8 \<Rightarrow> u32 \<Rightarrow> sched_base \<Rightarrow> sched_base option" where
  "evt_callback cur t flags cpu_usage s = do {
     c_assert (\<not> sched_thd_member (thds s t));
     if sched_thd_free (thds s t) \<or> sched_thd_dying (thds s t) then Some s
     else do {
       s \<leftarrow> (if has flags (EVT_BRAND_ACTIVE OR EVT_BRAND_READY OR EVT_BRAND_PEND)
         then
           if sched_thd_grp (thds s t)
           then do {
             s \<leftarrow> activate_child_sched t s;
             Some (upd_sthd t (\<lambda>x. x\<lparr>cevt_flags := cevt_flags x OR SCHED_CEVT_OTHER\<rparr>) s) }
           else if has flags EVT_BRAND_ACTIVE then fp_activate_upcall t s
           else if has flags EVT_BRAND_READY
           then do { c_assert (sched_get_current cur s \<noteq> Some t); fp_deactivate_upcall t s }
           else None
         else Some s);
       if \<not> sched_thd_phantom (thds s t) then time_elapsed t cpu_usage s else Some s } }"

subsection \<open>Choosing the thread to run\<close>

text \<open>The flags of the thread are compared with flags of the system call, as the code has it.\<close>

definition resolve_dependencies :: "sched_node \<Rightarrow> sched_base \<Rightarrow> (sched_node \<times> sched_base) option" where
  "resolve_dependencies nxt s = do {
     (dep, s) \<leftarrow> sched_thd_dependency nxt s;
     case dep of
       None \<Rightarrow> Some (nxt, s)
     | Some dep \<Rightarrow> do {
         c_assert (\<not> has (st_flags (thds s nxt)) (COS_SCHED_BRAND_WAIT OR COS_SCHED_TAILCALL));
         c_assert (\<not> sched_thd_blocked (thds s dep) \<and> sched_thd_ready (thds s dep));
         c_assert (\<not> sched_thd_free (thds s dep));
         c_assert (dep \<noteq> nxt);
         Some (dep, s) } }"

text \<open>The second half of the loop: from the thread chosen to the system call.\<close>

definition switch_to :: "sched_node option \<Rightarrow> u16 \<Rightarrow> sched_node \<Rightarrow> sched_base \<Rightarrow> ((sched_node \<times> u16) option \<times> sched_base) option" where
  "switch_to current flags nxt s = do {
     (nxt, s) \<leftarrow> resolve_dependencies nxt s;
     if Some nxt = current then Some (None, s)
     else if \<not> sched_root s \<and> Some nxt = idle s \<and> current = timer s then Some (None, s)
     else do {
       nxt \<leftarrow> (if \<not> sched_root s \<and> Some nxt = idle s then timer s else Some nxt);
       let flags = (if sched_thd_grp (thds s nxt) then flags OR COS_SCHED_CHILD_EVT else flags);
       c_assert (\<not> sched_thd_blocked (thds s nxt));
       Some (Some (nxt, flags), s) } }"

definition take_events :: "nat \<Rightarrow> sched_base \<Rightarrow> sched_base option" where
  "take_events cur s =
     (if pending_event (notif s) \<noteq> 0
      then do {
        (_, s) \<leftarrow> cos_sched_process_events (evt_callback cur) 0 (s\<lparr>notif := (notif s)\<lparr>pending_event := 0\<rparr>\<rparr>);
        Some s }
      else Some s)"

definition sched_switch_thread_target ::
  "nat \<Rightarrow> u16 \<Rightarrow> sched_node option \<Rightarrow> sched_base \<Rightarrow> ((sched_node \<times> u16) option \<times> sched_base) option" where
  "sched_switch_thread_target cur flags target s = do {
     let current = sched_get_current cur s;
     s \<leftarrow> take_events cur s;
     case target of
       Some t \<Rightarrow> switch_to current flags t s
     | None \<Rightarrow>
         if has flags (COS_SCHED_BRAND_WAIT OR COS_SCHED_TAILCALL)
         then do {
           (nxt, s) \<leftarrow> schedule current s;
           c_assert (sched_root s \<or> timer s \<noteq> Some nxt);
           c_assert (Some nxt \<noteq> current);
           c_assert (\<not> sched_thd_member (thds s nxt));
           switch_to current flags nxt s }
         else do {
           (nxt, s) \<leftarrow> schedule None s;
           c_assert (sched_root s \<or> timer s \<noteq> Some nxt);
           c_assert (\<not> sched_thd_member (thds s nxt));
           if Some nxt = current
           then do {
             (d, s) \<leftarrow> sched_thd_dependency nxt s;
             if d = None then Some (None, s) else switch_to current flags nxt s }
           else switch_to current flags nxt s } }"

definition sched_switch_thread :: "nat \<Rightarrow> u16 \<Rightarrow> sched_base \<Rightarrow> ((sched_node \<times> u16) option \<times> sched_base) option" where
  "sched_switch_thread cur flags s = sched_switch_thread_target cur flags None s"

subsection \<open>Blocking\<close>

definition fp_pre_block :: "sched_node \<Rightarrow> sched_base \<Rightarrow> sched_base option" where
  "fp_pre_block t s = do {
     c_assert (wake_cnt (thds s t) > 0);
     c_assert (wake_cnt (thds s t) \<le> 2);
     Some (upd_sthd t (\<lambda>x. x\<lparr>wake_cnt := wake_cnt x - 1, block_time := b_ticks s\<rparr>) s) }"

definition fp_block_thd :: "sched_node \<Rightarrow> sched_base \<Rightarrow> sched_base option" where
  "fp_block_thd t s = do {
     c_assert (\<not> sched_thd_free (thds s t));
     c_assert (\<not> sched_thd_blocked (thds s t));
     c_assert (wake_cnt (thds s t) = 0);
     let s = set_flags t THD_READY THD_BLOCKED s;
     s \<leftarrow> (if \<not> sched_thd_member (thds s t)
       then do {
         s \<leftarrow> thread_block t s;
         c_assert (EMPTY_LIST t (prio_l s));
         Some s }
       else if EMPTY_LIST t (cevt_l s)
       then do {
         grp \<leftarrow> sched_get_grp t s;
         g \<leftarrow> grp;
         activate_child_sched g (s\<lparr>cevt_l := ADD_LIST g t (cevt_l s)\<rparr>) }
       else Some s);
     Some (s\<lparr>prio_l := ADD_LIST Blocked_head t (prio_l s)\<rparr>) }"

definition fp_block :: "sched_node \<Rightarrow> nat \<Rightarrow> sched_base \<Rightarrow> sched_base option" where
  "fp_block t spdid s = do {
     c_assert (wake_cnt (thds s t) = 0);
     fp_block_thd t (upd_sthd t (\<lambda>x. x\<lparr>blocking_component := spdid\<rparr>) s) }"

text \<open>Blocking returns, or the thread sleeps and the processor is given to another one.\<close>

datatype block_result = Returns int | Sleeps "(sched_node \<times> u16) option"

definition block_switch :: "nat \<Rightarrow> sched_node option \<Rightarrow> sched_base \<Rightarrow> (block_result \<times> sched_base) option" where
  "block_switch cur dep s = do {
     (n, s) \<leftarrow> sched_switch_thread_target cur 0 dep s;
     Some (Sleeps n, s) }"

definition sched_block :: "nat \<Rightarrow> nat \<Rightarrow> nat \<Rightarrow> sched_base \<Rightarrow> (block_result \<times> sched_base) option" where
  "sched_block cur spdid dep_id s = do {
     thd \<leftarrow> sched_get_current cur s;
     c_assert (spdid \<noteq> 0);
     let x = thds s thd;
     if contended_component x \<noteq> 0 \<or> \<not> (blocking_component x = 0 \<or> blocking_component x = spdid) then Some (Returns (-1), s)
     else do {
       c_assert (\<not> sched_thd_free x);
       c_assert (\<not> sched_thd_blocked x);
       let dep = (if dep_id = 0 then None else sched_get_mapping dep_id s);
       if dep_id \<noteq> 0 \<and> (case dep of None \<Rightarrow> True | Some d \<Rightarrow> sched_thd_blocked (thds s d)) then Some (Returns (-1), s)
       else do {
         s \<leftarrow> fp_pre_block thd s;
         if wake_cnt (thds s thd) \<noteq> 0
         then do { c_assert (wake_cnt (thds s thd) = 1); Some (Returns 0, s) }
         else do {
           s \<leftarrow> (if dep_id \<noteq> 0
             then do {
               let s = upd_sthd thd (\<lambda>x. x\<lparr>dependency_thd := dep, st_flags := st_flags x OR THD_DEPENDENCY\<rparr>) s;
               c_assert (contended_component (thds s thd) = 0);
               Some s }
             else fp_block thd spdid s);
           c_assert (wake_cnt (thds s thd) < 2);
           block_switch cur dep s } } } }"

text \<open>The loop in which a blocked thread finds itself when it runs again; \<open>dep\<close> is the thread it waits for.\<close>

definition sched_block_again :: "nat \<Rightarrow> sched_node option \<Rightarrow> sched_base \<Rightarrow> (block_result \<times> sched_base) option" where
  "sched_block_again cur dep s = do {
     thd \<leftarrow> sched_get_current cur s;
     if wake_cnt (thds s thd) = 0
     then do {
       c_assert (dep = None \<or> dep = dependency_thd (thds s thd));
       block_switch cur dep s }
     else do {
       c_assert (wake_cnt (thds s thd) = 1);
       let ret = sint (ucast (b_ticks s - block_time (thds s thd) - 1) :: u32);
       Some (Returns (if ret > 0 then ret else 0), s) } }"

definition sched_wakeup :: "nat \<Rightarrow> nat \<Rightarrow> nat \<Rightarrow> sched_base \<Rightarrow> (int \<times> (sched_node \<times> u16) option \<times> sched_base) option" where
  "sched_wakeup cur spdid thd_id s =
     (case sched_get_mapping thd_id s of
        None \<Rightarrow> Some (-1, None, s)
      | Some thd \<Rightarrow> do {
          s \<leftarrow> fp_pre_wakeup thd s;
          c_assert (blocking_component (thds s thd) = 0 \<or> blocking_component (thds s thd) = spdid);
          if dependency_thd (thds s thd) \<noteq> None
          then do {
            c_assert (sched_thd_dependent (thds s thd));
            c_assert (contended_component (thds s thd) = 0);
            let s = upd_sthd thd (\<lambda>x. x\<lparr>st_flags := st_flags x AND NOT THD_DEPENDENCY, dependency_thd := None\<rparr>) s;
            (n, s) \<leftarrow> sched_switch_thread cur 0 s;
            Some (0, n, s) }
          else if \<not> sched_thd_blocked (thds s thd) then Some (0, None, s)
          else do {
            s \<leftarrow> fp_wakeup thd s;
            (n, s) \<leftarrow> sched_switch_thread cur 0 s;
            Some (0, n, s) } })"

subsection \<open>Component locks\<close>

text \<open>One round of the loop: the lock is taken, or the processor is given to its holder.\<close>

definition sched_component_take :: "nat \<Rightarrow> nat \<Rightarrow> sched_base \<Rightarrow> (bool \<times> (sched_node \<times> u16) option \<times> sched_base) option" where
  "sched_component_take cur spdid s = do {
     c \<leftarrow> sched_get_current cur s;
     c_assert (\<not> sched_thd_blocked (thds s c));
     c_assert (spdid \<noteq> 0);
     (holder, s) \<leftarrow> sched_take_crit_sect spdid c s;
     case holder of
       None \<Rightarrow> Some (True, None, s)
     | Some h \<Rightarrow> do {
         c_assert (c \<noteq> h);
         (n, s) \<leftarrow> sched_switch_thread_target cur 0 (Some h) s;
         Some (False, n, s) } }"

definition sched_component_release :: "nat \<Rightarrow> nat \<Rightarrow> sched_base \<Rightarrow> (int \<times> (sched_node \<times> u16) option \<times> sched_base) option" where
  "sched_component_release cur spdid s = do {
     c \<leftarrow> sched_get_current cur s;
     (_, s) \<leftarrow> sched_release_crit_sect spdid c s;
     (n, s) \<leftarrow> sched_switch_thread cur 0 s;
     Some (0, n, s) }"

subsection \<open>Time\<close>

partial_function (option) child_wakeups :: "sched_node \<Rightarrow> 64 word \<Rightarrow> sched_base \<Rightarrow> (64 word \<times> sched_base) option" where
  "child_wakeups t low s = (if t = Blocked_head then Some (low, s)
     else do {
       let nxt = FIRST_LIST t (prio_l s);
       if sched_thd_grp (thds s t) \<and> wakeup_tick (thds s t) \<noteq> 0
       then do {
         s \<leftarrow> (if wakeup_tick (thds s t) \<le> b_ticks s
           then do {
             s \<leftarrow> (if wakeup_tick (thds s t) > tick (thds s t)
               then do {
                 s \<leftarrow> activate_child_sched t s;
                 Some (upd_sthd t (\<lambda>x. x\<lparr>cevt_flags := cevt_flags x OR SCHED_CEVT_OTHER\<rparr>) s) }
               else Some s);
             Some (upd_sthd t (\<lambda>x. x\<lparr>wakeup_tick := 0\<rparr>) s) }
           else Some s);
         let w = wakeup_tick (thds s t);
         child_wakeups nxt (if w \<noteq> 0 \<and> (low = 0 \<or> w < low) then w else low) s }
       else child_wakeups nxt low s })"

definition sched_process_wakeups :: "sched_base \<Rightarrow> sched_base option" where
  "sched_process_wakeups s = do {
     s \<leftarrow> (case wakeup_thd s of
         Some w \<Rightarrow>
           if wakeup_time s \<noteq> 0 \<and> wakeup_time s \<le> b_ticks s
           then
             if wake_cnt (thds s w) < 2
             then do {
               s \<leftarrow> fp_pre_wakeup w (s\<lparr>wakeup_time := 0\<rparr>);
               if sched_thd_blocked (thds s w) then fp_wakeup w s else Some s }
             else do { c_assert (\<not> sched_thd_blocked (thds s w)); Some s }
           else Some s
       | None \<Rightarrow> Some s);
     (low, s) \<leftarrow> child_wakeups (FIRST_LIST Blocked_head (prio_l s)) 0 s;
     Some (s\<lparr>child_wakeup_time := low\<rparr>) }"

text \<open>\<open>ds\<close> is the build of the policy.\<close>

definition report_thd_accouting :: "bool \<Rightarrow> sched_base \<Rightarrow> sched_base option" where
  "report_thd_accouting ds s = do {
     s \<leftarrow> runqueue_print ds s;
     s \<leftarrow> (if sched_root s then Some s
       else do {
         t \<leftarrow> timer s;
         _ \<leftarrow> sched_get_accounting t s;
         Some (upd_acct t (\<lambda>a. a\<lparr>prev_ticks := a_ticks a\<rparr>) s) });
     s \<leftarrow> report_queue Blocked_head (FIRST_LIST Blocked_head (prio_l s)) s;
     report_queue Upcall_deactive (FIRST_LIST Upcall_deactive (prio_l s)) s }"

text \<open>One tick.\<close>

definition sched_timer_tick :: "bool \<Rightarrow> nat \<Rightarrow> sched_base \<Rightarrow> ((sched_node \<times> u16) option \<times> sched_base) option" where
  "sched_timer_tick ds cur s = do {
     s \<leftarrow> (if b_ticks s mod (REPORT_FREQ * TIMER_FREQ) = REPORT_FREQ * TIMER_FREQ - 1 then report_thd_accouting ds s else Some s);
     s \<leftarrow> sched_process_wakeups (s\<lparr>b_ticks := b_ticks s + 1\<rparr>);
     s \<leftarrow> timer_tick ds 1 s;
     sched_switch_thread cur COS_SCHED_BRAND_WAIT s }"

definition fp_event_completion :: "nat \<Rightarrow> sched_base \<Rightarrow> ((sched_node \<times> u16) option \<times> sched_base) option" where
  "fp_event_completion cur s = sched_switch_thread cur COS_SCHED_TAILCALL s"

definition sched_timeout :: "nat \<Rightarrow> nat \<Rightarrow> u32 \<Rightarrow> sched_base \<Rightarrow> ((sched_node \<times> u16) option \<times> sched_base) option" where
  "sched_timeout cur self amnt s =
     (if amnt = 0 then Some (None, s)
      else do {
        thd \<leftarrow> sched_get_mapping cur s;
        let abs_timeout = b_ticks s + ucast amnt;
        let s = (if wakeup_time s = 0 \<or> abs_timeout < wakeup_time s then s\<lparr>wakeup_time := abs_timeout\<rparr> else s);
        if Some thd \<noteq> wakeup_thd s then Some (None, s)
        else do {
          s \<leftarrow> fp_pre_block thd s;
          if wake_cnt (thds s thd) \<noteq> 0
          then do { c_assert (wake_cnt (thds s thd) = 1); Some (None, s) }
          else do {
            s \<leftarrow> fp_block thd self s;
            sched_switch_thread cur 0 s } } })"

definition sched_timeout_thd :: "nat \<Rightarrow> sched_base \<Rightarrow> int \<times> sched_base" where
  "sched_timeout_thd cur s = (case sched_get_mapping cur s of None \<Rightarrow> (-1, s) | Some thd \<Rightarrow> (0, s\<lparr>wakeup_thd := Some thd\<rparr>))"

definition sched_timestamp :: "sched_base \<Rightarrow> u32" where
  "sched_timestamp s = ucast (b_ticks s)"

subsection \<open>Threads\<close>

definition fp_kill_thd :: "nat \<Rightarrow> sched_node \<Rightarrow> sched_base \<Rightarrow> ((sched_node \<times> u16) option \<times> sched_base) option" where
  "fp_kill_thd cur t s = do {
     let c = sched_get_current cur s;
     c_assert (\<not> sched_thd_grp (thds s t));
     let s = upd_sthd t (\<lambda>x. x\<lparr>st_flags := THD_DYING\<rparr>) s;
     s \<leftarrow> thread_remove t s;
     let s = s\<lparr>cevt_l := REM_LIST t (cevt_l s), prio_l := REM_LIST t (prio_l s), grp_l := REM_LIST t (grp_l s)\<rparr>;
     (n, s) \<leftarrow> sched_switch_thread cur 0 s;
     c_assert (n \<noteq> None \<or> c \<noteq> Some t);
     Some (n, s) }"

text \<open>\<open>cntl\<close> is the answer of the kernel to the registration of an event, \<open>tid\<close> the number of the new thread.\<close>

definition sched_setup_thread_no_policy :: "(nat \<Rightarrow> nat \<Rightarrow> int) \<Rightarrow> nat \<Rightarrow> sched_base \<Rightarrow> (sched_node \<times> sched_base) option" where
  "sched_setup_thread_no_policy cntl tid s = do {
     (n, s) \<leftarrow> sched_alloc_thd tid s;
     (e, s) \<leftarrow> sched_alloc_event cntl n s;
     c_assert (\<not> 0 > e);
     Some (n, snd (sched_add_mapping tid n s)) }"

definition sched_setup_thread_nocrt :: "bool \<Rightarrow> (nat \<Rightarrow> nat \<Rightarrow> int) \<Rightarrow> nat \<Rightarrow> nat \<Rightarrow> string \<Rightarrow> sched_base \<Rightarrow> (sched_node \<times> sched_base) option" where
  "sched_setup_thread_nocrt ds cntl cur tid metric_str s = do {
     (n, s) \<leftarrow> sched_setup_thread_no_policy cntl tid s;
     s \<leftarrow> thread_new n s;
     (_, s) \<leftarrow> thread_params_set ds cur n metric_str s;
     Some (n, s) }"

definition sched_setup_thread_arg :: "bool \<Rightarrow> (nat \<Rightarrow> nat \<Rightarrow> int) \<Rightarrow> nat \<Rightarrow> nat \<Rightarrow> string \<Rightarrow> sched_base \<Rightarrow> (sched_node \<times> sched_base) option" where
  "sched_setup_thread_arg ds cntl cur tid metric_str s = do {
     c_assert (0 \<noteq> tid);
     sched_setup_thread_nocrt ds cntl cur tid metric_str s }"

text \<open>The parameters come as an array of bytes that must lie in the argument region (\<open>interned\<close>) and end with a
zero byte.\<close>

definition sched_create_thread :: "bool \<Rightarrow> bool \<Rightarrow> (nat \<Rightarrow> nat \<Rightarrow> int) \<Rightarrow> nat \<Rightarrow> nat \<Rightarrow> string \<Rightarrow> sched_base \<Rightarrow> (int \<times> sched_base) option" where
  "sched_create_thread interned ds cntl cur tid data s =
     (if \<not> interned then Some (-1, s)
      else if data = [] then None
      else if last data \<noteq> CHR 0x00 then Some (-1, s)
      else do {
        _ \<leftarrow> sched_get_current cur s;
        (n, s) \<leftarrow> sched_setup_thread_arg ds cntl cur tid (takeWhile (\<lambda>c. c \<noteq> CHR 0x00) data) s;
        Some (int (st_id (thds s n)), s) })"

definition sched_create_thread_default :: "bool \<Rightarrow> (nat \<Rightarrow> nat \<Rightarrow> int) \<Rightarrow> nat \<Rightarrow> nat \<Rightarrow> string option \<Rightarrow> sched_base \<Rightarrow> (int \<times> sched_base) option" where
  "sched_create_thread_default ds cntl cur tid config s =
     (case config of
        None \<Rightarrow> Some (-1, s)
      | Some str \<Rightarrow> do {
          (n, s) \<leftarrow> sched_setup_thread_arg ds cntl cur tid str s;
          _ \<leftarrow> sched_get_current cur s;
          Some (0, s) })"

definition sched_thread_params :: "bool \<Rightarrow> nat \<Rightarrow> 16 word \<times> 16 word \<Rightarrow> sched_base \<Rightarrow> (int \<times> sched_base) option" where
  "sched_thread_params ds thd_id rs s =
     (case sched_get_mapping thd_id s of None \<Rightarrow> Some (-1, s) | Some t \<Rightarrow> thread_resparams_set ds t rs s)"

definition sched_priority :: "nat \<Rightarrow> sched_base \<Rightarrow> int" where
  "sched_priority tid s = (case sched_get_mapping tid s of None \<Rightarrow> -1 | Some t \<Rightarrow> uint (priority (thds s t)))"

subsection \<open>Child schedulers\<close>

text \<open>A child scheduler with nothing to do blocks, unless a wake-up came first: then \<open>Returns 0\<close>.\<close>

definition deactivate_child_sched :: "nat \<Rightarrow> sched_node \<Rightarrow> sched_base \<Rightarrow> (block_result \<times> sched_base) option" where
  "deactivate_child_sched cur t s = do {
     c_assert (sched_thd_grp (thds s t));
     c_assert (\<not> sched_thd_free (thds s t));
     c_assert (sched_thd_ready (thds s t));
     c_assert (0 < wake_cnt (thds s t) \<and> wake_cnt (thds s t) \<le> 2);
     s \<leftarrow> fp_pre_block t s;
     if wake_cnt (thds s t) = 0
     then do {
       s \<leftarrow> fp_block t 0 s;
       c_assert (sched_thd_blocked (thds s t));
       block_switch cur None s }
     else Some (Returns 0, s) }"

text \<open>\<open>promote\<close> and \<open>grant\<close> are the answers of the kernel.\<close>

definition sched_child_cntl_thd :: "int \<Rightarrow> int \<Rightarrow> nat \<Rightarrow> nat \<Rightarrow> sched_base \<Rightarrow> (int \<times> sched_base) option" where
  "sched_child_cntl_thd promote grant cur spdid s = do {
     c \<leftarrow> sched_get_current cur s;
     s \<leftarrow> sched_grp_make c spdid s;
     c_assert (promote = 0);
     c_assert (grant = 0);
     Some (0, upd_sthd c (\<lambda>x. x\<lparr>tick := b_ticks s\<rparr>) s) }"

definition sched_child_thd_crt :: "(nat \<Rightarrow> nat \<Rightarrow> int) \<Rightarrow> int \<Rightarrow> nat \<Rightarrow> nat \<Rightarrow> nat \<Rightarrow> sched_base \<Rightarrow> (int \<times> sched_base) option" where
  "sched_child_thd_crt cntl grant cur spdid tid s = do {
     t \<leftarrow> sched_get_current cur s;
     if \<not> (sched_thd_member (thds s t) \<or> sched_thd_grp (thds s t)) then Some (-1, s)
     else do {
       st \<leftarrow> (if sched_thd_grp (thds s t) then Some t else group (thds s t));
       if cid (thds s st) \<noteq> spdid then Some (-1, s)
       else do {
         c_assert (0 \<noteq> tid);
         (n, s) \<leftarrow> sched_alloc_thd tid s;
         let s = snd (sched_add_mapping tid n s);
         (_, s) \<leftarrow> sched_share_event cntl n st s;
         s \<leftarrow> sched_grp_add st n s;
         c_assert (sched_thd_grp (thds s st) \<and> sched_thd_member (thds s n));
         c_assert (grant = 0);
         Some (int tid, s) } } }"

record sched_child_evt =
  ce_t :: u32
  ce_tid :: nat
  ce_time_elapsed :: "64 word"

definition child_ticks_stale :: "sched_node \<Rightarrow> sched_base \<Rightarrow> bool option" where
  "child_ticks_stale t s = do { c_assert (sched_thd_grp (thds s t)); Some (tick (thds s t) \<noteq> b_ticks s) }"

definition child_ticks_update :: "sched_node \<Rightarrow> sched_child_evt \<Rightarrow> sched_base \<Rightarrow> sched_child_evt \<times> sched_base" where
  "child_ticks_update t e s =
     (if b_ticks s > tick (thds s t)
      then (e\<lparr>ce_time_elapsed := b_ticks s - tick (thds s t)\<rparr>, upd_sthd t (\<lambda>x. x\<lparr>tick := b_ticks s\<rparr>) s)
      else (e, s))"

text \<open>An event for the child, with the number of further events, or a child that sleeps.\<close>

datatype get_evt_result = Evt int sched_child_evt | Child_sleeps "(sched_node \<times> u16) option"

text \<open>Taking the event of one thread of the child.\<close>

definition child_thd_evt :: "sched_node \<Rightarrow> sched_child_evt \<Rightarrow> sched_base \<Rightarrow> (get_evt_result \<times> sched_base) option" where
  "child_thd_evt t e s = do {
     let (e, s) = child_ticks_update t e s;
     let et = FIRST_LIST t (cevt_l s);
     let s = s\<lparr>cevt_l := REM_LIST et (cevt_l s)\<rparr>;
     c_assert (sched_thd_member (thds s et));
     kind \<leftarrow> (if sched_thd_blocked (thds s et) then Some SCHED_CEVT_BLOCK
       else if sched_thd_ready (thds s et) \<or> sched_thd_dependent (thds s et) then Some SCHED_CEVT_WAKE else None);
     let more = (if EMPTY_LIST t (cevt_l s) then 0 else 1);
     Some (Evt more (e\<lparr>ce_tid := st_id (thds s et), ce_t := kind\<rparr>), upd_sthd t (\<lambda>x. x\<lparr>cevt_flags := 0\<rparr>) s) }"

text \<open>The loop of \<^verbatim>\<open>sched_child_get_evt\<close>: it returns an event, or it blocks the child; then it is entered again when
the child runs.  A wake-up that came first makes it go round once more at once.\<close>

definition no_cevt :: sched_child_evt where
  "no_cevt = \<lparr>ce_t = SCHED_CEVT_OTHER, ce_tid = 0, ce_time_elapsed = 0\<rparr>"

partial_function (option) child_get_evt_loop :: "nat \<Rightarrow> sched_node \<Rightarrow> bool \<Rightarrow> sched_base \<Rightarrow> (get_evt_result \<times> sched_base) option" where
  "child_get_evt_loop cur t idl s =
     (if \<not> EMPTY_LIST t (cevt_l s) then child_thd_evt t no_cevt s
      else do {
        stale \<leftarrow> child_ticks_stale t s;
        if has (cevt_flags (thds s t)) SCHED_CEVT_OTHER \<or> stale \<or> \<not> idl
        then do {
          let (e, s) = child_ticks_update t no_cevt s;
          Some (Evt 0 e, upd_sthd t (\<lambda>x. x\<lparr>cevt_flags := 0\<rparr>) s) }
        else do {
          (r, s) \<leftarrow> deactivate_child_sched cur t s;
          case r of Returns _ \<Rightarrow> child_get_evt_loop cur t idl s | Sleeps n \<Rightarrow> Some (Child_sleeps n, s) } })"

definition sched_child_get_evt :: "nat \<Rightarrow> nat \<Rightarrow> bool \<Rightarrow> u32 \<Rightarrow> sched_base \<Rightarrow> (get_evt_result \<times> sched_base) option" where
  "sched_child_get_evt cur spdid idl wake_diff s = do {
     t \<leftarrow> sched_get_current cur s;
     if \<not> sched_thd_grp (thds s t) \<or> cid (thds s t) \<noteq> spdid then Some (Evt (-1) no_cevt, upd_sthd t (\<lambda>x. x\<lparr>cevt_flags := 0\<rparr>) s)
     else child_get_evt_loop cur t idl (upd_sthd t (\<lambda>x. x\<lparr>wakeup_tick := tick x + ucast wake_diff\<rparr>) s) }"

text \<open>In the child: what an event of the parent does; \<open>prev_print\<close> is the static variable with the time of the last
report.\<close>

definition sched_process_cevt :: "bool \<Rightarrow> 64 word \<Rightarrow> sched_child_evt \<Rightarrow> sched_base \<Rightarrow> (64 word \<times> sched_base) option" where
  "sched_process_cevt ds prev_print e s = do {
     s \<leftarrow> (if ce_t e = SCHED_CEVT_WAKE
       then do {
         t \<leftarrow> sched_get_mapping (ce_tid e) s;
         c_assert (wake_cnt (thds s t) = 0);
         if sched_thd_blocked (thds s t) then do { s \<leftarrow> fp_pre_wakeup t s; fp_wakeup t s } else Some s }
       else if ce_t e = SCHED_CEVT_BLOCK
       then do {
         t \<leftarrow> sched_get_mapping (ce_tid e) s;
         s \<leftarrow> fp_pre_block t s;
         c_assert (wake_cnt (thds s t) = 0);
         fp_block t 0 s }
       else Some s);
     if ce_time_elapsed e \<noteq> 0
     then do {
       let s = s\<lparr>b_ticks := b_ticks s + ce_time_elapsed e\<rparr>;
       s \<leftarrow> timer_tick ds (sint (ucast (ce_time_elapsed e) :: u32)) s;
       (pp, s) \<leftarrow> (if b_ticks s - prev_print \<ge> REPORT_FREQ * TIMER_FREQ
         then do { s \<leftarrow> report_thd_accouting ds s; Some (prev_print + REPORT_FREQ * TIMER_FREQ, s) }
         else Some (prev_print, s));
       s \<leftarrow> sched_process_wakeups s;
       Some (pp, s) }
     else Some (prev_print, s) }"

text \<open>What the child asks the parent for: whether it idles, and the number of ticks until it wants to run again.\<close>

definition child_evt_request :: "sched_base \<Rightarrow> (bool \<times> u32 \<times> sched_base) option" where
  "child_evt_request s = do {
     (n, s) \<leftarrow> schedule None s;
     c_assert (Some n \<noteq> timer s);
     if Some n = idle s
     then do {
       s \<leftarrow> sched_process_wakeups s;
       let wt = wakeup_time s;
       let cwt = child_wakeup_time s;
       let wake_tm = (if cwt = 0 then wt else if wt = 0 then cwt else if wt < cwt then wt else cwt);
       c_assert (wake_tm = 0 \<or> b_ticks s \<le> wake_tm);
       Some (True, if wake_tm \<noteq> 0 then ucast (wake_tm - b_ticks s) else 0, s\<lparr>notif := (notif s)\<lparr>pending_cevt := 0\<rparr>\<rparr>) }
     else Some (False, 0, s\<lparr>notif := (notif s)\<lparr>pending_cevt := 0\<rparr>\<rparr>) }"

text \<open>The thread of a child scheduler asks the parent for events and reacts to them as long as there are more
(\<open>cont\<close>, with the event \<open>e\<close>, is the answer of the parent to the request); then it calls \<^verbatim>\<open>sched_switch_thread\<close>.\<close>

definition child_evt_answer :: "bool \<Rightarrow> 64 word \<Rightarrow> int \<Rightarrow> sched_child_evt \<Rightarrow> sched_base \<Rightarrow> (bool \<times> 64 word \<times> sched_base) option" where
  "child_evt_answer ds prev_print cont e s = do {
     c_assert (0 \<le> cont);
     (prev_print, s) \<leftarrow> sched_process_cevt ds prev_print e s;
     Some (cont \<noteq> 0, prev_print, s) }"

definition sched_init :: "bool \<Rightarrow> sched_base \<Rightarrow> sched_base option" where
  "sched_init ds s = do {
     s \<leftarrow> sched_init_thd Blocked_head 0 THD_FREE s;
     s \<leftarrow> sched_init_thd Upcall_deactive 0 THD_FREE s;
     sched_initialization ds (sched_ds_init s) }"

end
