(* ===== verification/Block_Wake.thy ===== *)
theory Block_Wake
  imports Sched_Base
begin

text \<open>
  Blocking and waking in the scheduler component.  The run queues of the policy, the list of blocked threads
  and the counters of the threads implement a simple abstract scheduler: queues of threads that can run, a
  list of sleeping threads, and for each thread whether a wake-up is stored.
\<close>

subsection \<open>Flags\<close>

lemma has_exp: "has f (2 ^ k) \<longleftrightarrow> bit f k" for f :: u16
  by (simp add: has_def and_exp_eq_0_iff_not_bit)

lemma flag_bits:
  "sched_thd_blocked t \<longleftrightarrow> bit (st_flags t) 0" "sched_thd_free t \<longleftrightarrow> bit (st_flags t) 2" "sched_thd_grp t \<longleftrightarrow> bit (st_flags t) 3"
  "sched_thd_member t \<longleftrightarrow> bit (st_flags t) 4" "sched_thd_inactive_evt t \<longleftrightarrow> bit (st_flags t) 6" "sched_thd_suspended t \<longleftrightarrow> bit (st_flags t) 7"
  "sched_thd_dependent t \<longleftrightarrow> bit (st_flags t) 8" "sched_thd_dying t \<longleftrightarrow> bit (st_flags t) 9" "sched_thd_phantom t \<longleftrightarrow> bit (st_flags t) 10"
  using has_exp [of "st_flags t" 0] has_exp [of "st_flags t" 2] has_exp [of "st_flags t" 3] has_exp [of "st_flags t" 4] has_exp [of "st_flags t" 6]
    has_exp [of "st_flags t" 7] has_exp [of "st_flags t" 8] has_exp [of "st_flags t" 9] has_exp [of "st_flags t" 10]
  by (simp_all add: sched_thd_blocked_def sched_thd_free_def sched_thd_grp_def sched_thd_member_def sched_thd_inactive_evt_def sched_thd_suspended_def
      sched_thd_dependent_def sched_thd_dying_def sched_thd_phantom_def THD_flag_defs THD_PHANTOM_def)

lemma flag_bit: "bit THD_BLOCKED k \<longleftrightarrow> k = 0" "bit THD_READY k \<longleftrightarrow> k = 1" "bit THD_DEPENDENCY k \<longleftrightarrow> k = 8"
proof -
  have *: "THD_BLOCKED = 2 ^ 0" "THD_READY = 2 ^ 1" "THD_DEPENDENCY = 2 ^ 8" by (simp_all add: THD_flag_defs)
  show "bit THD_BLOCKED k \<longleftrightarrow> k = 0" unfolding * bit_exp_iff by (auto simp: possible_bit_def)
  show "bit THD_READY k \<longleftrightarrow> k = 1" unfolding * bit_exp_iff by (auto simp: possible_bit_def)
  show "bit THD_DEPENDENCY k \<longleftrightarrow> k = 8" unfolding * bit_exp_iff by (auto simp: possible_bit_def)
qed

lemma unblock_bits: "bit ((f AND NOT THD_BLOCKED) OR THD_READY) k \<longleftrightarrow> (bit f k \<and> k \<noteq> 0) \<or> k = 1" for f :: u16
  by (auto simp: bit_or_iff bit_and_iff bit_not_iff flag_bit dest: bit_imp_le_length)

lemma block_bits: "bit ((f AND NOT THD_READY) OR THD_BLOCKED) k \<longleftrightarrow> (bit f k \<and> k \<noteq> 1) \<or> k = 0" for f :: u16
  by (auto simp: bit_or_iff bit_and_iff bit_not_iff flag_bit dest: bit_imp_le_length)

subsection \<open>Threads on other lists\<close>

lemma runq_rem_other:
  assumes "runq X s q" "ring (prio_l s) xs" "Thd i \<in> set xs" "set xs \<subseteq> others X"
  shows "runq (X - {i}) (s\<lparr>prio_l := REM_LIST (Thd i) (prio_l s)\<rparr>) q"
proof (rule runqI)
  fix p :: nat assume p: "p < 32"
  show "ring (prio_l (s\<lparr>prio_l := REM_LIST (Thd i) (prio_l s)\<rparr>)) (Runnable p # map Thd (q p))"
    using ring_REM_other [OF assms(2,3)] runq_rings_others [OF assms(1) p assms(4)] runq_facts(1) [OF assms(1) p] by (simp add: Int_commute)
  show "bit (active (s\<lparr>prio_l := REM_LIST (Thd i) (prio_l s)\<rparr>)) p \<longleftrightarrow> q p \<noteq> []" using runq_facts(2) [OF assms(1) p] by simp
  fix j assume "j \<in> set (q p)"
  then show "prio_of (s\<lparr>prio_l := REM_LIST (Thd i) (prio_l s)\<rparr>) j = p \<and> \<not> sched_thd_free (thds (s\<lparr>prio_l := REM_LIST (Thd i) (prio_l s)\<rparr>) (Thd j))"
    "j \<notin> X - {i}" using runq_facts(3,5) [OF assms(1) p] by (simp_all add: prio_of_def)
next
  fix j assume j: "j \<notin> X - {i}" "\<And>p. p < 32 \<Longrightarrow> j \<notin> set (q p)"
  show "ring (prio_l (s\<lparr>prio_l := REM_LIST (Thd i) (prio_l s)\<rparr>)) [Thd j]"
  proof (cases "j = i")
    case True
    then show ?thesis by (simp add: ring_REM_self)
  next
    case False
    with j(1) have "j \<notin> X" by simp
    then have "Thd j \<notin> set xs" "ring (prio_l s) [Thd j]" using assms(4) others_iff(1) [of j X] runq_facts(4) [OF assms(1) _ j(2)] by blast+
    then show ?thesis using ring_REM_other [OF assms(2,3), of "[Thd j]"] by simp
  qed
qed

lemma runq_add_other:
  assumes "runq X s q" "ring (prio_l s) (h # xs)" "set (h # xs) \<subseteq> others X" "i \<notin> X" "\<And>p. p < 32 \<Longrightarrow> i \<notin> set (q p)"
  shows "runq (insert i X) (s\<lparr>prio_l := ADD_LIST h (Thd i) (prio_l s)\<rparr>) q"
proof (rule runqI)
  fix p :: nat assume p: "p < 32"
  have "Thd i \<notin> set (Runnable p # map Thd (q p))" using assms(5) [OF p] by auto
  moreover have "set (h # xs) \<inter> set (Runnable p # map Thd (q p)) = {}"
    using runq_rings_others [OF assms(1) p assms(3)] by (subst Int_commute)
  ultimately show "ring (prio_l (s\<lparr>prio_l := ADD_LIST h (Thd i) (prio_l s)\<rparr>)) (Runnable p # map Thd (q p))"
    using ring_ADD_other [OF assms(2), of "Thd i" "Runnable p # map Thd (q p)"] runq_facts(1) [OF assms(1) p] by (simp del: set_map list.set)
  show "bit (active (s\<lparr>prio_l := ADD_LIST h (Thd i) (prio_l s)\<rparr>)) p \<longleftrightarrow> q p \<noteq> []" using runq_facts(2) [OF assms(1) p] by simp
  fix j assume "j \<in> set (q p)"
  then show "prio_of (s\<lparr>prio_l := ADD_LIST h (Thd i) (prio_l s)\<rparr>) j = p \<and> \<not> sched_thd_free (thds (s\<lparr>prio_l := ADD_LIST h (Thd i) (prio_l s)\<rparr>) (Thd j))"
    "j \<notin> insert i X" using runq_facts(3,5) [OF assms(1) p] assms(5) [OF p] by (auto simp add: prio_of_def)
next
  fix j assume j: "j \<notin> insert i X" "\<And>p. p < 32 \<Longrightarrow> j \<notin> set (q p)"
  then have "Thd j \<notin> set (h # xs)" "ring (prio_l s) [Thd j]" using assms(3) others_iff(1) [of j X] runq_facts(4) [OF assms(1) _ j(2)] by blast+
  then show "ring (prio_l (s\<lparr>prio_l := ADD_LIST h (Thd i) (prio_l s)\<rparr>)) [Thd j]"
    using ring_ADD_other [OF assms(2), of "Thd i" "[Thd j]"] j(1) by simp
qed

text \<open>The run queues \<open>q\<close> together with the list of blocked threads \<open>B\<close>.\<close>

definition lists_ok :: "'z fp_state_scheme \<Rightarrow> (nat \<Rightarrow> nat list) \<Rightarrow> nat list \<Rightarrow> bool" where
  "lists_ok s q B \<longleftrightarrow> runq (set B) s q \<and> ring (prio_l s) (Blocked_head # map Thd B)"

lemma blocked_others: "set (Blocked_head # map Thd B) \<subseteq> others (set B)"
  by (auto simp: others_def)

lemma lists_rem:
  assumes "lists_ok s q B" "i \<in> set B"
  shows "lists_ok (s\<lparr>prio_l := REM_LIST (Thd i) (prio_l s)\<rparr>) q (remove1 i B)"
proof -
  have r: "ring (prio_l s) (Blocked_head # map Thd B)" and q: "runq (set B) s q" using assms(1) by (simp_all add: lists_ok_def)
  have "distinct B" using ring_distinct [OF r] by (simp add: distinct_map)
  then have "set (remove1 i B) = set B - {i}" by (rule set_remove1_eq)
  moreover obtain as bs where B: "B = as @ i # bs" "i \<notin> set as" "remove1 i B = as @ bs"
    using assms(2) split_list_first [of i B] by (auto simp: remove1_append)
  have "ring (REM_LIST (Thd i) (prio_l s)) (Blocked_head # map Thd as @ map Thd bs)" by (rule ring_REM) (use r B(1) in simp)
  ultimately show ?thesis using runq_rem_other [OF q r _ blocked_others, of i] assms(2) B(3) by (simp add: lists_ok_def)
qed

lemma lists_add:
  assumes "lists_ok s q B" "i \<notin> set B" "\<And>p. p < 32 \<Longrightarrow> i \<notin> set (q p)"
  shows "lists_ok (s\<lparr>prio_l := ADD_LIST Blocked_head (Thd i) (prio_l s)\<rparr>) q (i # B)"
proof -
  have r: "ring (prio_l s) (Blocked_head # map Thd B)" and q: "runq (set B) s q" using assms(1) by (simp_all add: lists_ok_def)
  have "ring (ADD_LIST Blocked_head (Thd i) (prio_l s)) (Blocked_head # Thd i # map Thd B)" by (rule ring_ADD [OF r]) (use assms(2) in auto)
  then show ?thesis using runq_add_other [OF q r blocked_others assms(2,3)] by (simp add: lists_ok_def)
qed

lemma lists_kept: "lists_ok s q B \<Longrightarrow> runq (set B) s' q' \<Longrightarrow> kept (set B) s s' \<Longrightarrow> lists_ok s' q' B"
  using blocked_others [of B] by (simp add: lists_ok_def kept_def)

lemma lists_cong:
  assumes "prio_l s' = prio_l s" "active s' = active s" "\<And>i. priority (thds s' (Thd i)) = priority (thds s (Thd i))"
    "\<And>i. sched_thd_free (thds s' (Thd i)) = sched_thd_free (thds s (Thd i))"
  shows "lists_ok s' q B \<longleftrightarrow> lists_ok s q B"
  using runq_cong [of s' s, OF assms] by (simp add: lists_ok_def assms(1))

subsection \<open>Putting a thread to sleep and waking it\<close>

text \<open>A thread of the scheduler itself, without help for others and without a budget.\<close>

definition plain :: "sched_thd \<Rightarrow> bool" where
  "plain x \<longleftrightarrow> (\<forall>k \<in> {2, 3, 4, 6, 7, 8, 9}. \<not> bit (st_flags x) k) \<and> contended_component x = 0 \<and> dependency_thd x = None
     \<and> evt_id x < NUM_SCHED_EVTS \<and> unat (priority x) < 32"

lemma plain_facts:
  assumes "plain x"
  shows "\<not> sched_thd_free x" "\<not> sched_thd_grp x" "\<not> sched_thd_member x" "\<not> sched_thd_inactive_evt x" "\<not> sched_thd_suspended x"
    "\<not> sched_thd_dependent x" "\<not> sched_thd_dying x" "contended_component x = 0" "dependency_thd x = None" "evt_id x < NUM_SCHED_EVTS"
    "unat (priority x) < 32" "sched_thd_ready x \<longleftrightarrow> \<not> sched_thd_blocked x"
  using assms by (simp_all add: plain_def flag_bits sched_thd_ready_def)

definition asleep :: "nat \<Rightarrow> sched_thd \<Rightarrow> sched_thd" where
  "asleep spd x = x\<lparr>blocking_component := spd, st_flags := (st_flags x AND NOT THD_READY) OR THD_BLOCKED\<rparr>"

definition awake :: "sched_thd \<Rightarrow> sched_thd" where
  "awake x = x\<lparr>blocking_component := 0, st_flags := (st_flags x AND NOT THD_BLOCKED) OR THD_READY\<rparr>"

lemma plain_asleep [simp]: "plain (asleep spd x) = plain x" "sched_thd_blocked (asleep spd x)" "wake_cnt (asleep spd x) = wake_cnt x"
  "blocking_component (asleep spd x) = spd" "priority (asleep spd x) = priority x" "sched_thd_free (asleep spd x) = sched_thd_free x"
  "block_time (asleep spd x) = block_time x" "evt_id (asleep spd x) = evt_id x" "sched_thd_member (asleep spd x) = sched_thd_member x"
  by (simp_all add: asleep_def plain_def flag_bits block_bits)

lemma plain_awake [simp]: "plain (awake x) = plain x" "\<not> sched_thd_blocked (awake x)" "wake_cnt (awake x) = wake_cnt x"
  "blocking_component (awake x) = 0" "priority (awake x) = priority x" "sched_thd_free (awake x) = sched_thd_free x"
  "block_time (awake x) = block_time x" "evt_id (awake x) = evt_id x" "sched_thd_member (awake x) = sched_thd_member x"
  by (simp_all add: awake_def plain_def flag_bits unblock_bits)

text \<open>What these operations do not touch.\<close>

definition frame :: "sched_base \<Rightarrow> sched_base \<Rightarrow> bool" where
  "frame s s' \<longleftrightarrow> sched_root s' = sched_root s \<and> sched_thd_map s' = sched_thd_map s \<and> pending_event (notif s') = pending_event (notif s)
     \<and> b_ticks s' = b_ticks s"

lemma frame_refl [simp]: "frame s s" and frame_trans: "frame s s' \<Longrightarrow> frame s' s'' \<Longrightarrow> frame s s''"
  by (simp_all add: frame_def)

lemma frame_upd [simp]: "frame s (upd_sthd t f s)" "frame s (upd_nevt i g s)" "frame s (s\<lparr>prio_l := l\<rparr>)" "frame s (mask_set p s)" "frame s (mask_unset p s)"
  by (simp_all add: frame_def upd_sthd_def upd_nevt_def mask_set_def mask_unset_def)

lemma fp_rem_thd_frame:
  assumes "fp_rem_thd t s = Some s'"
  shows "frame s s'"
proof -
  from assms have "(\<exists>l. s' = s\<lparr>prio_l := l\<rparr>) \<or> (\<exists>p l. s' = (mask_unset p s)\<lparr>prio_l := l\<rparr>)"
    unfolding fp_rem_thd_def sched_get_metric_def by (auto simp: Let_def split: if_splits)
  then show ?thesis using frame_trans [OF frame_upd(5) frame_upd(3)] frame_upd(3) by blast
qed

lemma set_urgency_frame:
  assumes "sched_set_thd_urgency t u s = Some s'"
  shows "frame s s'"
proof -
  from assms have "(\<exists>f. s' = upd_sthd t f s) \<or> (\<exists>f i g. s' = upd_sthd t f (upd_nevt i g s))"
    unfolding sched_set_thd_urgency_def cos_sched_set_evt_urgency_def sched_get_metric_def
    by (cases "evt_id (thds s t) = 0") (auto split: if_splits)
  then show ?thesis using frame_trans [OF frame_upd(2) frame_upd(1)] frame_upd(1) by blast
qed

lemma move_end_frame:
  assumes "fp_move_end_runnable t s = Some s'"
  shows "frame s s'"
proof -
  from assms obtain p l where "s' = mask_set p (s\<lparr>prio_l := l\<rparr>)"
    unfolding fp_move_end_runnable_def sched_get_metric_def by (auto simp: Let_def split: if_splits)
  then show ?thesis using frame_trans [OF frame_upd(3) frame_upd(4)] by simp
qed

lemma fp_add_thd_frame:
  assumes "fp_add_thd t p s = Some s'"
  shows "frame s s'"
proof -
  from assms obtain f s1 where "sched_set_thd_urgency t p (upd_sthd t f s) = Some s1" "fp_move_end_runnable t s1 = Some s'"
    unfolding fp_add_thd_def by (auto simp: Let_def Option.bind_eq_Some_conv split: if_splits)
  then show ?thesis using frame_trans [OF frame_trans [OF frame_upd(1) set_urgency_frame] move_end_frame] by blast
qed

lemma fp_block_ok:
  assumes "lists_ok s q B" "plain (thds s (Thd i))" "\<not> sched_thd_blocked (thds s (Thd i))" "wake_cnt (thds s (Thd i)) = 0" "i \<notin> set B"
  shows "\<exists>s'. fp_block (Thd i) spd s = Some s' \<and> lists_ok s' (without i q) (i # B) \<and> thds s' = (thds s)(Thd i := asleep spd (thds s (Thd i)))
    \<and> frame s s'"
proof -
  let ?x = "thds s (Thd i)"
  note pl = plain_facts [OF assms(2)]
  define s1 where "s1 = upd_sthd (Thd i) (asleep spd) s"
  have t1: "thds s1 = (thds s)(Thd i := asleep spd ?x)" by (simp add: s1_def)
  have "lists_ok s1 q B" using assms(1) by (subst lists_cong [of s1 s]) (simp_all add: t1, simp_all add: s1_def upd_sthd_def)
  then have q1: "runq (set B) s1 q" by (simp add: lists_ok_def)
  have f1: "\<not> sched_thd_free (thds s1 (Thd i))" "\<not> sched_thd_member (thds s1 (Thd i))" using pl by (simp_all add: t1)
  from fp_rem_thd_ok [OF q1 f1(1) assms(5)] obtain s2 where s2: "fp_rem_thd (Thd i) s1 = Some s2" "runq (set B) s2 (without i q)"
    "thds s2 = thds s1" "kept (set B) s1 s2" "prio_l s2 = REM_LIST (Thd i) (prio_l s1)" by blast
  have l2: "lists_ok s2 (without i q) B" by (rule lists_kept [OF \<open>lists_ok s1 q B\<close> s2(2,4)])
  have e: "EMPTY_LIST (Thd i) (prio_l s2)" using ring_REM_self [of "Thd i" "prio_l s1"] by (simp add: s2(5) EMPTY_LIST_def ring_single)
  have "upd_sthd (Thd i) (\<lambda>x. x\<lparr>st_flags := (st_flags x AND NOT THD_READY) OR THD_BLOCKED\<rparr>) (upd_sthd (Thd i) (\<lambda>x. x\<lparr>blocking_component := spd\<rparr>) s) = s1"
    by (simp add: s1_def upd_sthd_def asleep_def)
  then have "fp_block (Thd i) spd s = Some (s2\<lparr>prio_l := ADD_LIST Blocked_head (Thd i) (prio_l s2)\<rparr>)"
    using assms(3,4) pl(1) f1 s2(1) e by (simp add: fp_block_def fp_block_thd_def thread_block_def flag_bits Let_def)
  moreover have "lists_ok (s2\<lparr>prio_l := ADD_LIST Blocked_head (Thd i) (prio_l s2)\<rparr>) (without i q) (i # B)"
    by (rule lists_add [OF l2 assms(5) without_notin_set [OF q1]])
  moreover have "frame s (s2\<lparr>prio_l := ADD_LIST Blocked_head (Thd i) (prio_l s2)\<rparr>)"
    using fp_rem_thd_frame [OF s2(1)] by (simp add: frame_def s1_def upd_sthd_def)
  ultimately show ?thesis using s2(3) t1 by simp
qed

lemma fp_wakeup_ok:
  assumes "lists_ok s q B" "plain (thds s (Thd i))" "sched_thd_blocked (thds s (Thd i))" "wake_cnt (thds s (Thd i)) = 1" "i \<in> set B"
    "sched_root s" "prio_of s i = p"
  shows "\<exists>s'. fp_wakeup (Thd i) s = Some s' \<and> lists_ok s' (q(p := q p @ [i])) (remove1 i B)
    \<and> (\<exists>u. thds s' = (thds s)(Thd i := (awake (thds s (Thd i)))\<lparr>urgency := u\<rparr>)) \<and> frame s s'"
proof -
  let ?x = "thds s (Thd i)"
  note pl = plain_facts [OF assms(2)]
  define s1 where "s1 = upd_sthd (Thd i) awake s"
  have t1: "thds s1 = (thds s)(Thd i := awake ?x)" by (simp add: s1_def)
  have "lists_ok s1 q B" using assms(1) by (subst lists_cong [of s1 s]) (simp_all add: t1, simp_all add: s1_def upd_sthd_def)
  from lists_rem [OF this assms(5)] have l2: "lists_ok (s1\<lparr>prio_l := REM_LIST (Thd i) (prio_l s1)\<rparr>) q (remove1 i B)" .
  define s2 where "s2 = s1\<lparr>prio_l := REM_LIST (Thd i) (prio_l s1)\<rparr>"
  have q2: "runq (set (remove1 i B)) s2 q" using l2 by (simp add: lists_ok_def s2_def)
  have dB: "distinct B" using assms(1) ring_distinct [of "prio_l s" "Blocked_head # map Thd B"] by (simp add: lists_ok_def distinct_map)
  have n: "i \<notin> set (remove1 i B)" using dB by simp
  have nq: "i \<notin> set (q p')" if "p' < 32" for p' using assms(1,5) runq_facts(5) [of "set B" s q p' i] that by (auto simp: lists_ok_def)
  have p: "unat (priority (thds s2 (Thd i))) = p" "p < 32" using assms(7) pl(11) by (simp_all add: s2_def t1 prio_of_def)
  have pa: "plain (thds s2 (Thd i))" "\<not> sched_thd_blocked (thds s2 (Thd i))" using assms(2) by (simp_all add: s2_def t1)
  note pl2 = plain_facts [OF pa(1)]
  have r2: "sched_thd_ready (thds s2 (Thd i))" using pl2(12) pa(2) by simp
  from fp_add_thd_ok [OF q2 pl2(1) r2 pl2(5,10) p _ n] nq obtain s3 where s3: "fp_add_thd (Thd i) (priority (thds s2 (Thd i))) s2 = Some s3"
    "runq (set (remove1 i B)) s3 (q(p := remove1 i (q p) @ [i]))" "thds s3 = (thds s2)(Thd i := (thds s2 (Thd i))\<lparr>priority := priority (thds s2 (Thd i)), urgency := priority (thds s2 (Thd i))\<rparr>)"
    "kept (set (remove1 i B)) s2 s3" by auto
  have "remove1 i (q p) = q p" using nq [OF p(2)] by (rule remove1_idem)
  then have l3: "lists_ok s3 (q(p := q p @ [i])) (remove1 i B)" using lists_kept [OF l2 [folded s2_def] s3(2,4)] by simp
  have "upd_sthd (Thd i) (\<lambda>x. x\<lparr>st_flags := (st_flags x AND NOT THD_BLOCKED) OR THD_READY\<rparr>) (upd_sthd (Thd i) (\<lambda>x. x\<lparr>blocking_component := 0\<rparr>) s) = s1"
    by (simp add: s1_def upd_sthd_def awake_def)
  then have "fp_wakeup (Thd i) s = thread_wakeup (Thd i) s2"
    using assms(3,4,6) pl(1,12) pl2(3) by (simp add: fp_wakeup_def fp_resume_thd.simps s2_def flag_bits sched_thd_ready_def Let_def) (simp add: s1_def upd_sthd_def)
  also have "\<dots> = Some s3" using pl2(1,3,5) s3(1) by (simp add: thread_wakeup_def sched_get_metric_def)
  finally have "fp_wakeup (Thd i) s = Some s3" .
  moreover have eq: "(awake ?x)\<lparr>priority := priority ?x, urgency := priority ?x\<rparr> = (awake ?x)\<lparr>urgency := priority ?x\<rparr>"
    by (rule sched_thd.equality) simp_all
  have "thds s3 = (thds s)(Thd i := (awake ?x)\<lparr>priority := priority ?x, urgency := priority ?x\<rparr>)" using s3(3) by (simp add: s2_def t1)
  then have "thds s3 = (thds s)(Thd i := (awake ?x)\<lparr>urgency := priority ?x\<rparr>)" unfolding eq .
  moreover have "frame s s3" using fp_add_thd_frame [OF s3(1)] by (simp add: frame_def s2_def s1_def upd_sthd_def)
  ultimately show ?thesis using l3 by blast
qed

subsection \<open>The choice of the next thread\<close>

lemma no_dependency: "\<not> sched_thd_dependent (thds s n) \<Longrightarrow> sched_thd_dependency n s = Some (None, s)"
  by (simp add: sched_thd_dependency_def thd_dependency_loop.simps thd_dependency_def)

lemma switch_ok:
  assumes "fp_get_highest_prio s = Some (Thd n)" "plain (thds s (Thd n))" "\<not> sched_thd_blocked (thds s (Thd n))" "sched_root s" "pending_event (notif s) = 0"
  shows "sched_switch_thread cur 0 s = Some (if sched_get_current cur s = Some (Thd n) then None else Some (Thd n, 0), s)"
proof -
  have "schedule None s = Some (Thd n, s)" using assms(1) by (simp add: schedule_def)
  moreover have "\<not> has 0 (COS_SCHED_BRAND_WAIT OR COS_SCHED_TAILCALL)" by (simp add: has_def)
  ultimately show ?thesis
    using assms(2-5) plain_facts(2,3,6) [OF assms(2)] no_dependency [of s "Thd n"]
    by (auto simp: sched_switch_thread_def sched_switch_thread_target_def take_events_def switch_to_def resolve_dependencies_def)
qed

subsection \<open>The abstract scheduler\<close>

record abs_sched =
  a_queues :: "nat \<Rightarrow> nat list"
  a_blocked :: "nat list"
  a_stored :: "nat \<Rightarrow> bool"

text \<open>A thread that blocks uses up a stored wake-up or goes to sleep.  Waking a sleeping thread puts it at the end
of the queue of its priority; waking another one stores the wake-up.\<close>

definition abs_block :: "nat \<Rightarrow> abs_sched \<Rightarrow> abs_sched" where
  "abs_block i a = (if a_stored a i then a\<lparr>a_stored := (a_stored a)(i := False)\<rparr>
     else a\<lparr>a_queues := without i (a_queues a), a_blocked := i # a_blocked a\<rparr>)"

definition abs_wake :: "nat \<Rightarrow> nat \<Rightarrow> abs_sched \<Rightarrow> abs_sched" where
  "abs_wake p i a = (if i \<in> set (a_blocked a) then a\<lparr>a_queues := (a_queues a)(p := a_queues a p @ [i]), a_blocked := remove1 i (a_blocked a)\<rparr>
     else a\<lparr>a_stored := (a_stored a)(i := True)\<rparr>)"

definition thread_refines :: "sched_base \<Rightarrow> abs_sched \<Rightarrow> nat \<Rightarrow> bool" where
  "thread_refines s a i \<longleftrightarrow> plain (thds s (Thd i)) \<and> i < MAX_NUM_THREADS \<and> sched_thd_map s i = Some (Thd i)
     \<and> (if i \<in> set (a_blocked a) then sched_thd_blocked (thds s (Thd i)) \<and> wake_cnt (thds s (Thd i)) = 0 \<and> \<not> a_stored a i
        else \<not> sched_thd_blocked (thds s (Thd i)) \<and> blocking_component (thds s (Thd i)) = 0
          \<and> wake_cnt (thds s (Thd i)) = (if a_stored a i then 2 else 1))"

definition refines :: "sched_base \<Rightarrow> abs_sched \<Rightarrow> bool" where
  "refines s a \<longleftrightarrow> lists_ok s (a_queues a) (a_blocked a) \<and> sched_root s \<and> pending_event (notif s) = 0
     \<and> (\<forall>i \<in> set (in_order (a_queues a)) \<union> set (a_blocked a). thread_refines s a i)"

lemma refines_facts:
  assumes "refines s a"
  shows "lists_ok s (a_queues a) (a_blocked a)" "sched_root s" "pending_event (notif s) = 0"
    "\<And>i. i \<in> set (in_order (a_queues a)) \<Longrightarrow> thread_refines s a i" "\<And>i. i \<in> set (a_blocked a) \<Longrightarrow> thread_refines s a i"
    "runq (set (a_blocked a)) s (a_queues a)"
  using assms by (auto simp: refines_def lists_ok_def)

lemma in_queue_not_blocked: "refines s a \<Longrightarrow> i \<in> set (in_order (a_queues a)) \<Longrightarrow> i \<notin> set (a_blocked a)"
  using runq_facts(5) [OF refines_facts(6)] by (auto simp: in_order_set)

lemma refines_mapping: "thread_refines s a i \<Longrightarrow> sched_get_mapping i s = Some (Thd i)"
  using plain_facts(1) [of "thds s (Thd i)"] by (simp add: thread_refines_def sched_get_mapping_def sched_thd_free_def)

lemma refines_all_ready:
  assumes "refines s a"
  shows "all_ready s (a_queues a)"
proof -
  have "sched_thd_ready (thds s (Thd i))" if "i \<in> set (in_order (a_queues a))" for i
    using refines_facts(4) [OF assms that] in_queue_not_blocked [OF assms that] plain_facts(12) [of "thds s (Thd i)"] by (simp add: thread_refines_def)
  then show ?thesis by (auto simp: all_ready_def in_order_set)
qed

lemma refines_switch:
  assumes "refines s a" "in_order (a_queues a) \<noteq> []"
  shows "sched_switch_thread cur 0 s = Some (if sched_get_current cur s = Some (Thd (hd (in_order (a_queues a)))) then None
    else Some (Thd (hd (in_order (a_queues a))), 0), s)"
proof (rule switch_ok)
  have h: "hd (in_order (a_queues a)) \<in> set (in_order (a_queues a))" using assms(2) by simp
  show "fp_get_highest_prio s = Some (Thd (hd (in_order (a_queues a))))"
    by (rule fp_get_highest_prio_ok [OF refines_facts(6) [OF assms(1)] refines_all_ready [OF assms(1)] assms(2)])
  show "plain (thds s (Thd (hd (in_order (a_queues a)))))" "\<not> sched_thd_blocked (thds s (Thd (hd (in_order (a_queues a)))))"
    using refines_facts(4) [OF assms(1) h] in_queue_not_blocked [OF assms(1) h] by (simp_all add: thread_refines_def)
qed (rule refines_facts(2,3) [OF assms(1)])+

subsection \<open>The operations refine the abstract scheduler\<close>

lemma plain_cnt [simp]:
  "plain (x\<lparr>wake_cnt := c\<rparr>) = plain x" "plain (x\<lparr>block_time := t\<rparr>) = plain x" "plain (x\<lparr>urgency := u\<rparr>) = plain x"
  "sched_thd_blocked (x\<lparr>wake_cnt := c\<rparr>) = sched_thd_blocked x" "sched_thd_blocked (x\<lparr>block_time := t\<rparr>) = sched_thd_blocked x"
  "sched_thd_blocked (x\<lparr>urgency := u\<rparr>) = sched_thd_blocked x"
  "sched_thd_free (x\<lparr>wake_cnt := c\<rparr>) = sched_thd_free x" "sched_thd_free (x\<lparr>block_time := t\<rparr>) = sched_thd_free x"
  by (simp_all add: plain_def flag_bits)

text \<open>A change of the counter of a thread that can run.\<close>

lemma refines_count:
  assumes "refines s a" "i \<in> set (in_order (a_queues a))"
    "f = (\<lambda>x. x\<lparr>wake_cnt := (if b then 2 else 1)\<rparr>) \<or> f = (\<lambda>x. x\<lparr>wake_cnt := (if b then 2 else 1), block_time := t\<rparr>)"
  shows "refines (upd_sthd (Thd i) f s) (a\<lparr>a_stored := (a_stored a)(i := b)\<rparr>)"
proof -
  let ?s = "upd_sthd (Thd i) f s" and ?a = "a\<lparr>a_stored := (a_stored a)(i := b)\<rparr>"
  have nb: "i \<notin> set (a_blocked a)" by (rule in_queue_not_blocked [OF assms(1,2)])
  have f: "plain (f x) = plain x" "sched_thd_blocked (f x) = sched_thd_blocked x" "sched_thd_free (f x) = sched_thd_free x" "priority (f x) = priority x"
    "blocking_component (f x) = blocking_component x" "wake_cnt (f x) = (if b then 2 else 1)" for x using assms(3) by auto
  have "lists_ok ?s (a_queues a) (a_blocked a) = lists_ok s (a_queues a) (a_blocked a)"
    by (rule lists_cong) (simp_all add: f, simp_all add: upd_sthd_def)
  moreover have "frame s ?s" by simp
  moreover have "thread_refines ?s ?a j" if "thread_refines s a j" for j
    using that nb f by (auto simp: thread_refines_def)
  ultimately show ?thesis using assms(1) by (simp add: refines_def frame_def)
qed

lemma sched_block_stored:
  assumes "refines s a" "cur \<in> set (in_order (a_queues a))" "a_stored a cur" "spd \<noteq> 0"
  shows "\<exists>s'. sched_block cur spd 0 s = Some (Returns 0, s') \<and> refines s' (abs_block cur a)"
proof -
  let ?x = "thds s (Thd cur)" and ?s = "upd_sthd (Thd cur) (\<lambda>x. x\<lparr>wake_cnt := 1, block_time := b_ticks s\<rparr>) s"
  have r: "thread_refines s a cur" "cur \<notin> set (a_blocked a)" using refines_facts(4) [OF assms(1,2)] in_queue_not_blocked [OF assms(1,2)] by auto
  then have x: "plain ?x" "\<not> sched_thd_blocked ?x" "blocking_component ?x = 0" "wake_cnt ?x = 2" using assms(3) by (simp_all add: thread_refines_def)
  have "?s = upd_sthd (Thd cur) (\<lambda>x. x\<lparr>wake_cnt := wake_cnt x - 1, block_time := b_ticks s\<rparr>) s" using x(4) by (simp add: upd_sthd_def)
  then have "fp_pre_block (Thd cur) s = Some ?s" using x(4) by (simp add: fp_pre_block_def)
  then have "sched_block cur spd 0 s = Some (Returns 0, ?s)"
    using x plain_facts(1,8) [OF x(1)] refines_mapping [OF r(1)] assms(4) by (simp add: sched_block_def sched_get_current_def Let_def)
  moreover have "refines ?s (abs_block cur a)" unfolding abs_block_def 
    using assms(3) refines_count [OF assms(1,2), of "\<lambda>x. x\<lparr>wake_cnt := 1, block_time := b_ticks s\<rparr>" False "b_ticks s"] by simp
  ultimately show ?thesis by blast
qed

lemma sched_block_sleeps:
  assumes "refines s a" "cur \<in> set (in_order (a_queues a))" "\<not> a_stored a cur" "spd \<noteq> 0" "in_order (without cur (a_queues a)) \<noteq> []"
  shows "\<exists>s'. sched_block cur spd 0 s = Some (Sleeps (Some (Thd (hd (in_order (without cur (a_queues a)))), 0)), s')
    \<and> refines s' (abs_block cur a) \<and> blocking_component (thds s' (Thd cur)) = spd"
proof -
  let ?x = "thds s (Thd cur)" and ?q = "without cur (a_queues a)"
  define s1 where "s1 = upd_sthd (Thd cur) (\<lambda>x. x\<lparr>wake_cnt := 0, block_time := b_ticks s\<rparr>) s"
  have r: "thread_refines s a cur" "cur \<notin> set (a_blocked a)" using refines_facts(4) [OF assms(1,2)] in_queue_not_blocked [OF assms(1,2)] by auto
  then have x: "plain ?x" "\<not> sched_thd_blocked ?x" "blocking_component ?x = 0" "wake_cnt ?x = 1" using assms(3) by (simp_all add: thread_refines_def)
  have t1: "thds s1 = (thds s)(Thd cur := ?x\<lparr>wake_cnt := 0, block_time := b_ticks s\<rparr>)" by (simp add: s1_def)
  have "lists_ok s1 (a_queues a) (a_blocked a) = lists_ok s (a_queues a) (a_blocked a)"
    by (rule lists_cong) (simp_all add: t1, simp_all add: s1_def upd_sthd_def)
  then have l1: "lists_ok s1 (a_queues a) (a_blocked a)" using refines_facts(1) [OF assms(1)] by simp
  obtain s2 where s2: "fp_block (Thd cur) spd s1 = Some s2" "lists_ok s2 ?q (cur # a_blocked a)"
    "thds s2 = (thds s1)(Thd cur := asleep spd (thds s1 (Thd cur)))" "frame s1 s2"
    using fp_block_ok [OF l1, of cur spd] x r(2) by (auto simp: t1)
  have fr: "frame s s2" by (rule frame_trans [OF _ s2(4)]) (simp add: s1_def)
  have ref: "refines s2 (abs_block cur a)" unfolding refines_def
  proof (intro conjI ballI)
    show "lists_ok s2 (a_queues (abs_block cur a)) (a_blocked (abs_block cur a))" using s2(2) assms(3) by (simp add: abs_block_def)
    show "sched_root s2" "pending_event (notif s2) = 0" using fr refines_facts(2,3) [OF assms(1)] by (simp_all add: frame_def)
    fix j assume "j \<in> set (in_order (a_queues (abs_block cur a))) \<union> set (a_blocked (abs_block cur a))"
    then have "j = cur \<or> j \<noteq> cur \<and> thread_refines s a j"
      using assms(3) refines_facts(4,5) [OF assms(1)] in_order_without [OF refines_facts(6) [OF assms(1)]] by (auto simp: abs_block_def)
    then show "thread_refines s2 (abs_block cur a) j"
      using r(1) assms(3) fr by (auto simp: thread_refines_def abs_block_def s2(3) t1 frame_def)
  qed
  have "s1 = upd_sthd (Thd cur) (\<lambda>x. x\<lparr>wake_cnt := wake_cnt x - 1, block_time := b_ticks s\<rparr>) s" using x(4) by (simp add: s1_def upd_sthd_def)
  then have "fp_pre_block (Thd cur) s = Some s1" using x(4) by (simp add: fp_pre_block_def)
  moreover have "wake_cnt (thds s2 (Thd cur)) = 0" by (simp add: s2(3) t1)
  moreover have "sched_switch_thread_target cur 0 None s2 = Some (Some (Thd (hd (in_order ?q)), 0), s2)"
  proof -
    have "hd (in_order ?q) \<in> set (in_order ?q)" using assms(5) by simp
    then have "hd (in_order ?q) \<noteq> cur" using in_order_without [OF refines_facts(6) [OF assms(1)]] by auto
    moreover have "thread_refines s2 (abs_block cur a) cur" using refines_facts(5) [OF ref] assms(3) by (simp add: abs_block_def)
    ultimately show ?thesis using refines_switch [OF ref, of cur] assms(3,5) refines_mapping
      by (auto simp: sched_switch_thread_def abs_block_def sched_get_current_def)
  qed
  ultimately have "sched_block cur spd 0 s = Some (Sleeps (Some (Thd (hd (in_order ?q)), 0)), s2)"
    using x plain_facts(1,8) [OF x(1)] refines_mapping [OF r(1)] assms(4) s2(1)
    by (simp add: sched_block_def sched_get_current_def block_switch_def Let_def) (simp add: t1)
  moreover have "blocking_component (thds s2 (Thd cur)) = spd" by (simp add: s2(3))
  ultimately show ?thesis using ref by blast
qed

lemma sched_wakeup_stored:
  assumes "refines s a" "i \<in> set (in_order (a_queues a))"
  shows "\<exists>s'. sched_wakeup cur spd i s = Some (0, None, s') \<and> refines s' (abs_wake p i a)"
proof -
  let ?x = "thds s (Thd i)" and ?s = "upd_sthd (Thd i) (\<lambda>x. x\<lparr>wake_cnt := 2\<rparr>) s"
  have r: "thread_refines s a i" "i \<notin> set (a_blocked a)" using refines_facts(4) [OF assms] in_queue_not_blocked [OF assms] by auto
  then have x: "plain ?x" "\<not> sched_thd_blocked ?x" "blocking_component ?x = 0" "wake_cnt ?x = 1 \<or> wake_cnt ?x = 2" by (auto simp: thread_refines_def)
  have "fp_pre_wakeup (Thd i) s = Some ?s"
  proof (cases "wake_cnt ?x = 2")
    case True
    then have "?x\<lparr>wake_cnt := 2\<rparr> = ?x" by (intro sched_thd.equality) simp_all
    then have "?s = s" by (simp add: upd_sthd_def)
    with True show ?thesis by (simp add: fp_pre_wakeup_def)
  next
    case False
    then have "wake_cnt ?x = 1" using x(4) by simp
    then have "?s = upd_sthd (Thd i) (\<lambda>x. x\<lparr>wake_cnt := wake_cnt x + 1\<rparr>) s" by (simp add: upd_sthd_def)
    with \<open>wake_cnt ?x = 1\<close> show ?thesis by (simp add: fp_pre_wakeup_def)
  qed
  then have "sched_wakeup cur spd i s = Some (0, None, ?s)"
    using x(2,3) plain_facts(9) [OF x(1)] refines_mapping [OF r(1)] by (simp add: sched_wakeup_def)
  moreover have "refines ?s (abs_wake p i a)" unfolding abs_wake_def
    using r(2) refines_count [OF assms, of "\<lambda>x. x\<lparr>wake_cnt := 2\<rparr>" True] by simp
  ultimately show ?thesis by blast
qed

lemma sched_wakeup_wakes:
  assumes "refines s a" "i \<in> set (a_blocked a)" "blocking_component (thds s (Thd i)) = spd" "sched_get_current cur s = Some (Thd cur)"
  defines "a' \<equiv> abs_wake (prio_of s i) i a"
  shows "\<exists>s'. sched_wakeup cur spd i s = Some (0, if hd (in_order (a_queues a')) = cur then None else Some (Thd (hd (in_order (a_queues a'))), 0), s')
    \<and> refines s' a'"
proof -
  let ?x = "thds s (Thd i)" and ?B = "remove1 i (a_blocked a)" and ?p = "prio_of s i"
  let ?q = "(a_queues a)(?p := a_queues a ?p @ [i])"
  have a': "a' = a\<lparr>a_queues := ?q, a_blocked := ?B\<rparr>" using assms(2) by (simp add: a'_def abs_wake_def)
  have r: "thread_refines s a i" by (rule refines_facts(5) [OF assms(1,2)])
  then have x: "plain ?x" "sched_thd_blocked ?x" "wake_cnt ?x = 0" "\<not> a_stored a i" using assms(2) by (simp_all add: thread_refines_def)
  define s1 where "s1 = upd_sthd (Thd i) (\<lambda>x. x\<lparr>wake_cnt := 1\<rparr>) s"
  have t1: "thds s1 = (thds s)(Thd i := ?x\<lparr>wake_cnt := 1\<rparr>)" by (simp add: s1_def)
  have "lists_ok s1 (a_queues a) (a_blocked a) = lists_ok s (a_queues a) (a_blocked a)"
    by (rule lists_cong) (simp_all add: t1, simp_all add: s1_def upd_sthd_def)
  then have l1: "lists_ok s1 (a_queues a) (a_blocked a)" using refines_facts(1) [OF assms(1)] by simp
  have f1: "frame s s1" by (simp add: s1_def)
  have "prio_of s1 i = ?p" by (simp add: prio_of_def t1)
  then obtain s2 u where s2: "fp_wakeup (Thd i) s1 = Some s2" "lists_ok s2 ?q ?B"
    "thds s2 = (thds s1)(Thd i := (awake (thds s1 (Thd i)))\<lparr>urgency := u\<rparr>)" "frame s1 s2"
    using fp_wakeup_ok [OF l1, of i ?p] x assms(2) f1 refines_facts(2) [OF assms(1)] by (auto simp: t1 frame_def)
  have fr: "frame s s2" by (rule frame_trans [OF f1 s2(4)])
  have dB: "distinct (a_blocked a)"
    using refines_facts(1) [OF assms(1)] ring_distinct [of "prio_l s" "Blocked_head # map Thd (a_blocked a)"] by (simp add: lists_ok_def distinct_map)
  have p: "?p < 32" using plain_facts(11) [OF x(1)] by (simp add: prio_of_def)
  have ref: "refines s2 a'" unfolding refines_def
  proof (intro conjI ballI)
    show "lists_ok s2 (a_queues a') (a_blocked a')" using s2(2) by (simp add: a')
    show "sched_root s2" "pending_event (notif s2) = 0" using fr refines_facts(2,3) [OF assms(1)] by (simp_all add: frame_def)
    fix j assume "j \<in> set (in_order (a_queues a')) \<union> set (a_blocked a')"
    then have "j = i \<or> j \<noteq> i \<and> thread_refines s a j"
      using refines_facts(4,5) [OF assms(1)] set_remove1_subset [of i "a_blocked a"] by (auto simp: a' in_order_set split: if_splits)
    then show "thread_refines s2 a' j"
      using r x(4) fr dB by (auto simp: thread_refines_def a' s2(3) t1 frame_def in_set_remove1)
  qed
  have i': "i \<in> set (in_order (a_queues a'))" using p by (auto simp: a' in_order_set)
  then have ne: "in_order (a_queues a') \<noteq> []" by auto
  have "s1 = upd_sthd (Thd i) (\<lambda>x. x\<lparr>wake_cnt := wake_cnt x + 1\<rparr>) s" using x(3) by (simp add: s1_def upd_sthd_def)
  then have pre: "fp_pre_wakeup (Thd i) s = Some s1" using x(2,3) by (simp add: fp_pre_wakeup_def)
  have st: "dependency_thd (thds s1 (Thd i)) = None" "sched_thd_blocked (thds s1 (Thd i))" "blocking_component (thds s1 (Thd i)) = spd"
    using plain_facts(9) [OF x(1)] x(2) assms(3) by (simp_all add: t1)
  have c: "sched_get_current cur s2 = Some (Thd cur)"
  proof -
    have "has (st_flags (thds s2 (Thd cur))) THD_FREE = has (st_flags (thds s (Thd cur))) THD_FREE"
      using plain_awake(6) [of "?x\<lparr>wake_cnt := 1\<rparr>"] by (auto simp: s2(3) t1 sched_thd_free_def [symmetric] flag_bits)
    then show ?thesis using assms(4) fr by (auto simp: sched_get_current_def sched_get_mapping_def frame_def split: if_splits option.splits)
  qed
  let ?n = "hd (in_order (a_queues a'))"
  have "sched_switch_thread cur 0 s2 = Some (if ?n = cur then None else Some (Thd ?n, 0), s2)"
    using refines_switch [OF ref ne, of cur] c by (simp add: eq_commute [of cur])
  then have "sched_wakeup cur spd i s = Some (0, if ?n = cur then None else Some (Thd ?n, 0), s2)"
    by (simp add: sched_wakeup_def refines_mapping [OF r] pre st s2(1) del: fun_upd_apply)
  with ref show ?thesis by blast
qed

text \<open>A woken thread returns from \<^verbatim>\<open>sched_block\<close> when it runs again, unless a second wake-up came in between.\<close>

lemma sched_block_again_returns:
  assumes "refines s a" "i \<in> set (in_order (a_queues a))"
  shows "sched_block_again i None s = (if a_stored a i then None else Some (Returns (max 0 (sint (ucast (b_ticks s - block_time (thds s (Thd i)) - 1) :: u32))), s))"
proof -
  have r: "thread_refines s a i" "i \<notin> set (a_blocked a)" using refines_facts(4) [OF assms] in_queue_not_blocked [OF assms] by auto
  then show ?thesis using refines_mapping [OF r(1)]
    by (auto simp: sched_block_again_def sched_get_current_def thread_refines_def max_def Let_def)
qed

subsection \<open>Properties\<close>


text \<open>C39.  A second wake-up of a blocked thread, before it runs again, stops the scheduler: the counter is 2 then, and
the thread fails the assertion behind the loop in \<^verbatim>\<open>sched_block\<close>, which expects 1.\<close>

theorem double_wakeup_fails:
  assumes "refines s a" "cur \<in> set (in_order (a_queues a))" "i \<in> set (a_blocked a)" "blocking_component (thds s (Thd i)) = spd"
  shows "\<exists>n s1 s2. sched_wakeup cur spd i s = Some (0, n, s1) \<and> sched_wakeup cur spd i s1 = Some (0, None, s2) \<and> sched_block_again i None s2 = None"
proof -
  let ?a = "abs_wake (prio_of s i) i a" and ?b = "abs_wake 0 i (abs_wake (prio_of s i) i a)"
  have c: "sched_get_current cur s = Some (Thd cur)"
    using refines_mapping [OF refines_facts(4) [OF assms(1,2)]] by (simp add: sched_get_current_def)
  from sched_wakeup_wakes [OF assms(1,3,4) c] obtain n s1 where s1: "sched_wakeup cur spd i s = Some (0, n, s1)" "refines s1 ?a" by blast
  have "prio_of s i < 32" using plain_facts(11) [of "thds s (Thd i)"] refines_facts(5) [OF assms(1,3)] by (simp add: thread_refines_def prio_of_def)
  then have i: "i \<in> set (in_order (a_queues ?a))" using assms(3) by (auto simp: abs_wake_def in_order_set)
  from sched_wakeup_stored [OF s1(2) i] obtain s2 where s2: "sched_wakeup cur spd i s1 = Some (0, None, s2)" "refines s2 ?b" by blast
  have "?b = ?a\<lparr>a_stored := (a_stored ?a)(i := True)\<rparr>" using in_queue_not_blocked [OF s1(2) i] by (simp add: abs_wake_def [of 0])
  then have "i \<in> set (in_order (a_queues ?b))" "a_stored ?b i" using i by simp_all
  with sched_block_again_returns [OF s2(2)] s1(1) s2(1) show ?thesis by auto
qed

text \<open>Threads 1 and 2 can run, thread 2 with a wake-up stored; thread 7 is blocked by component 6.\<close>

definition runs :: "u16 \<Rightarrow> int \<Rightarrow> sched_thd" where
  "runs p c = zero_sthd\<lparr>priority := p, wake_cnt := c, st_flags := THD_READY\<rparr>"

definition base_example :: sched_base where
  "base_example = \<lparr>thds = (\<lambda>_. zero_sthd)(Thd 1 := runs 3 1, Thd 2 := runs 3 2, Thd 7 := (runs 2 0)\<lparr>st_flags := THD_BLOCKED, blocking_component := 6\<rparr>),
     sched_thd_map = (\<lambda>i. Some (Thd i)), sched_map_evt_thd = (\<lambda>_. None), holding_thd = (\<lambda>_. None),
     prio_l = \<lparr>lnext = id(Runnable 3 := Thd 1, Thd 1 := Thd 2, Thd 2 := Runnable 3, Blocked_head := Thd 7, Thd 7 := Blocked_head),
       lprev = id(Runnable 3 := Thd 2, Thd 2 := Thd 1, Thd 1 := Runnable 3, Blocked_head := Thd 7, Thd 7 := Blocked_head)\<rparr>,
     sched_l = zero_links, grp_l = zero_links, cevt_l = zero_links, notif = zero_area, cos_curr_evt = 0, active = 8, ds_ticks = 0,
     b_ticks = 0, wakeup_time = 0, child_wakeup_time = 0, wakeup_thd = None, timer = None, idle = None, sched_root = True\<rparr>"

definition abs_example :: abs_sched where
  "abs_example = \<lparr>a_queues = (\<lambda>_. [])(3 := [1, 2]), a_blocked = [7], a_stored = (\<lambda>i. i = 2)\<rparr>"

lemma base_example_queues: "set (in_order (a_queues abs_example)) = {1, 2}"
  by (auto simp: in_order_set abs_example_def split: if_splits intro: bexI [of _ 3])

lemma base_example_thread:
  assumes "i = 1 \<or> i = 2 \<or> i = 7"
  shows "thread_refines base_example abs_example i"
  using assms
  by (auto simp: thread_refines_def base_example_def abs_example_def runs_def plain_def zero_sthd_def NUM_SCHED_EVTS_def MAX_NUM_THREADS_def
      flag_bits flag_bit)

lemma base_example_ok: "refines base_example abs_example"
proof -
  have *: "(8 :: u32) = 2 ^ 3" by simp
  have b: "bit (8 :: u32) p \<longleftrightarrow> p = 3" for p unfolding * bit_exp_iff by (auto simp: possible_bit_def)
  have "runq {7} base_example (a_queues abs_example)"
  proof (rule runqI)
    fix p :: nat
    show "ring (prio_l base_example) (Runnable p # map Thd (a_queues abs_example p))"
      by (cases "p = 3") (simp_all add: abs_example_def base_example_def ring_def)
    have "active base_example = 8" by (simp add: base_example_def)
    then show "bit (active base_example) p \<longleftrightarrow> a_queues abs_example p \<noteq> []" by (simp only: b) (simp add: abs_example_def)
    fix i assume "i \<in> set (a_queues abs_example p)"
    then show "prio_of base_example i = p \<and> \<not> sched_thd_free (thds base_example (Thd i))" "i \<notin> {7}"
      by (auto simp: abs_example_def base_example_def prio_of_def runs_def zero_sthd_def flag_bits flag_bit split: if_splits)
  next
    fix i :: nat assume "i \<notin> {7}" "\<And>p. p < 32 \<Longrightarrow> i \<notin> set (a_queues abs_example p)"
    from this(1) this(2) [of 3] show "ring (prio_l base_example) [Thd i]" by (simp add: ring_single base_example_def abs_example_def)
  qed
  moreover have "ring (prio_l base_example) [Blocked_head, Thd 7]" by (simp add: base_example_def ring_def)
  moreover have "a_blocked abs_example = [7]" "sched_root base_example" "pending_event (notif base_example) = 0"
    by (simp_all add: abs_example_def base_example_def zero_area_def)
  ultimately show ?thesis using base_example_thread by (auto simp: refines_def lists_ok_def base_example_queues)
qed


theorem double_wakeup_fails_witness:
  "\<exists>n s1 s2. sched_wakeup 1 6 7 base_example = Some (0, n, s1) \<and> sched_wakeup 1 6 7 s1 = Some (0, None, s2) \<and> sched_block_again 7 None s2 = None"
  by (rule double_wakeup_fails [OF base_example_ok]) (simp_all add: base_example_queues, simp_all add: base_example_def abs_example_def)

end
