(* ===== verification/Lock.thy ===== *)
theory Lock
  imports Cos_List
begin

text \<open>
  The lock component (\<^verbatim>\<open>components/implementation/lock/two_phase/lock.c\<close>).  Its locks are on one list, the
  threads that wait for a lock on a list of that lock; the descriptor of a waiting thread is on the stack of
  that thread.  \<open>sched_component_take\<close> and \<open>sched_component_release\<close> belong to the scheduler; the argument
  \<open>ok\<close> says whether they succeed.  Waking a thread is output.
\<close>

subsection \<open>Operations\<close>

datatype lock_node = Locks | Lock nat
datatype bthd_node = BHead nat | BThd nat

record meta_lock =
  ml_owner :: nat
  ml_spd :: nat
  ml_lock_id :: u32
  gen_num :: "64 word"

record lock_comp =
  meta_locks :: "nat \<Rightarrow> meta_lock"
  locks_l :: "lock_node links"
  b_thds :: "bthd_node links"
  b_timed :: "nat \<Rightarrow> bool"
  next_lock_id :: u32
  generation :: "64 word"

definition TIMER_EVENT_INF :: u32 where "TIMER_EVENT_INF = NOT 0"
definition TIMER_EXPIRED :: int where "TIMER_EXPIRED = -2"

partial_function (option) lock_find_loop :: "lock_node \<Rightarrow> u32 \<Rightarrow> nat \<Rightarrow> lock_comp \<Rightarrow> nat option option" where
  "lock_find_loop tmp lid spd s =
     (case tmp of
        Locks \<Rightarrow> Some None
      | Lock i \<Rightarrow>
          if ml_lock_id (meta_locks s i) = lid \<and> ml_spd (meta_locks s i) = spd then Some (Some i)
          else do { c_assert (tmp \<noteq> FIRST_LIST tmp (locks_l s)); lock_find_loop (FIRST_LIST tmp (locks_l s)) lid spd s })"

definition lock_find :: "u32 \<Rightarrow> nat \<Rightarrow> lock_comp \<Rightarrow> nat option option" where
  "lock_find lid spd s = lock_find_loop (FIRST_LIST Locks (locks_l s)) lid spd s"

definition bt_thd_id :: "bthd_node \<Rightarrow> nat" where
  "bt_thd_id b = (case b of BHead _ \<Rightarrow> 0 | BThd t \<Rightarrow> t)"

partial_function (option) thd_blocked_loop :: "nat \<Rightarrow> bthd_node \<Rightarrow> nat \<Rightarrow> lock_comp \<Rightarrow> bool option" where
  "thd_blocked_loop i bt thd s =
     (if bt = BHead i then Some False
      else if bt_thd_id bt = thd then Some True
      else thd_blocked_loop i (lnext (b_thds s) bt) thd s)"

definition lock_is_thd_blocked :: "nat \<Rightarrow> nat \<Rightarrow> lock_comp \<Rightarrow> bool option" where
  "lock_is_thd_blocked i thd s = thd_blocked_loop i (FIRST_LIST (BHead i) (b_thds s)) thd s"

text \<open>\<open>mem\<close> is what \<^verbatim>\<open>malloc\<close> returns.\<close>

definition lock_alloc :: "nat option \<Rightarrow> nat \<Rightarrow> lock_comp \<Rightarrow> (nat option \<times> lock_comp) option" where
  "lock_alloc mem spd s =
     (case mem of
        None \<Rightarrow> Some (None, s)
      | Some l \<Rightarrow> do {
          let s = s\<lparr>b_thds := INIT_LIST (BHead l) (b_thds s)\<rparr>;
          let s = s\<lparr>meta_locks := (meta_locks s)(l := \<lparr>ml_owner = 0, ml_spd = spd, ml_lock_id = next_lock_id s, gen_num = 0\<rparr>),
                    next_lock_id := next_lock_id s + 1, locks_l := INIT_LIST (Lock l) (locks_l s)\<rparr>;
          let snd_l = FIRST_LIST Locks (locks_l s);
          let lst = LAST_LIST Locks (locks_l s);
          let ls = ADD_LIST Locks (Lock l) (locks_l s);
          c_assert (FIRST_LIST Locks ls = Lock l);
          c_assert (LAST_LIST (Lock l) ls = Locks);
          c_assert (lst \<noteq> Locks \<longrightarrow> LAST_LIST Locks ls = lst \<and> FIRST_LIST lst ls = Locks);
          c_assert (FIRST_LIST (Lock l) ls = snd_l \<and> LAST_LIST snd_l ls = Lock l);
          Some (Some l, s\<lparr>locks_l := ls\<rparr>) })"

definition lock_free :: "nat \<Rightarrow> lock_comp \<Rightarrow> lock_comp" where
  "lock_free l s = s\<lparr>locks_l := REM_LIST (Lock l) (locks_l s)\<rparr>"

definition lock_component_pretake :: "bool \<times> bool \<Rightarrow> nat \<Rightarrow> u32 \<Rightarrow> nat \<Rightarrow> lock_comp \<Rightarrow> (int \<times> lock_comp) option" where
  "lock_component_pretake ok spd lid thd s =
     (if \<not> fst ok then Some (-1, s)
      else do {
        ml \<leftarrow> lock_find lid spd s;
        let (ret, s) = (case ml of None \<Rightarrow> (-1, s)
          | Some i \<Rightarrow> (0, s\<lparr>meta_locks := (meta_locks s)(i := (meta_locks s i)\<lparr>gen_num := generation s\<rparr>)\<rparr>));
        Some (if snd ok then ret else -1, s) })"

text \<open>Taking a lock either returns or blocks the thread.\<close>

datatype take_result = Return int | Block

definition lock_component_take :: "bool \<times> bool \<Rightarrow> nat \<Rightarrow> nat \<Rightarrow> u32 \<Rightarrow> nat \<Rightarrow> u32 \<Rightarrow> lock_comp \<Rightarrow> (take_result \<times> lock_comp) option" where
  "lock_component_take ok cur spd lid thd_id microsec s =
     (let error = (\<lambda>r s. Some (Return (if snd ok then r else -1), s))
      in if \<not> fst ok then Some (Return (-1), s)
         else if microsec = 0 then error TIMER_EXPIRED s
         else do {
           ml \<leftarrow> lock_find lid spd s;
           case ml of
             None \<Rightarrow> error (-1) s
           | Some i \<Rightarrow> do {
               b \<leftarrow> lock_is_thd_blocked i cur s;
               if b then error 0 s
               else if gen_num (meta_locks s i) \<noteq> generation s
               then error 0 (s\<lparr>meta_locks := (meta_locks s)(i := (meta_locks s i)\<lparr>gen_num := generation s\<rparr>)\<rparr>)
               else do {
                 let s = s\<lparr>generation := generation s + 1\<rparr>;
                 let s = s\<lparr>b_thds := ADD_LIST (BHead i) (BThd cur) (INIT_LIST (BThd cur) (b_thds s)),
                           b_timed := (b_timed s)(cur := (microsec \<noteq> TIMER_EVENT_INF))\<rparr>;
                 if \<not> snd ok then Some (Return (-1), s)
                 else do { c_assert (microsec = TIMER_EVENT_INF); Some (Block, s) } } } })"

text \<open>What a thread does when \<^verbatim>\<open>sched_block\<close> returns.\<close>

definition lock_component_woken :: "nat \<Rightarrow> lock_comp \<Rightarrow> int option" where
  "lock_component_woken cur s = do { c_assert (EMPTY_LIST (BThd cur) (b_thds s)); Some 0 }"

partial_function (option) release_loop :: "bool \<Rightarrow> nat \<Rightarrow> bthd_node \<Rightarrow> lock_comp \<Rightarrow> (int \<times> nat list \<times> lock_comp) option" where
  "release_loop rel cur bt s = do {
     let nxt = FIRST_LIST bt (b_thds s);
     let s = s\<lparr>b_thds := REM_LIST bt (b_thds s)\<rparr>;
     let tid = bt_thd_id bt;
     if bt = nxt \<and> \<not> rel then Some (-1, [], s)
     else do {
       c_assert (\<not> b_timed s tid);
       c_assert (tid \<noteq> cur);
       if bt = nxt then Some (0, [tid], s)
       else do { (r, ts, s) \<leftarrow> release_loop rel cur nxt s; Some (r, tid # ts, s) } } }"

definition lock_component_release :: "bool \<times> bool \<Rightarrow> nat \<Rightarrow> nat \<Rightarrow> u32 \<Rightarrow> lock_comp \<Rightarrow> (int \<times> nat list \<times> lock_comp) option" where
  "lock_component_release ok cur spd lid s =
     (if \<not> fst ok then Some (-1, [], s)
      else do {
        let s = s\<lparr>generation := generation s + 1\<rparr>;
        ml \<leftarrow> lock_find lid spd s;
        case ml of
          None \<Rightarrow> Some (-1, [], s)
        | Some i \<Rightarrow>
            if EMPTY_LIST (BHead i) (b_thds s) then Some (if snd ok then 0 else -1, [], s)
            else do {
              let bt = FIRST_LIST (BHead i) (b_thds s);
              let s = s\<lparr>b_thds := REM_LIST (BHead i) (b_thds s)\<rparr>;
              release_loop (snd ok) cur bt s } })"

definition lock_component_alloc :: "bool \<times> bool \<Rightarrow> nat option \<Rightarrow> nat \<Rightarrow> lock_comp \<Rightarrow> (u32 \<times> lock_comp) option" where
  "lock_component_alloc ok mem spd s =
     (if \<not> fst ok then Some (-1, s)
      else do {
        (l, s) \<leftarrow> lock_alloc mem spd s;
        Some (if \<not> snd ok then -1 else case l of None \<Rightarrow> 0 | Some l \<Rightarrow> ml_lock_id (meta_locks s l), s) })"

definition lock_component_free :: "bool \<times> bool \<Rightarrow> nat \<Rightarrow> u32 \<Rightarrow> lock_comp \<Rightarrow> lock_comp option" where
  "lock_component_free ok spd lid s =
     (if \<not> fst ok then Some s
      else do {
        l \<leftarrow> lock_find lid spd s;
        Some (if snd ok then (case l of None \<Rightarrow> s | Some l \<Rightarrow> lock_free l s) else s) })"

declare lock_find_loop.simps [code] thd_blocked_loop.simps [code] release_loop.simps [code]

subsection \<open>The lists of the component\<close>

text \<open>The locks \<open>L\<close> are on the list of locks, and the threads \<open>W i\<close> wait for lock \<open>i\<close>, without a time limit.\<close>

definition lock_ok :: "lock_comp \<Rightarrow> nat list \<Rightarrow> (nat \<Rightarrow> nat list) \<Rightarrow> bool" where
  "lock_ok s L W \<longleftrightarrow> ring (locks_l s) (Locks # map Lock L)
     \<and> (\<forall>i \<in> set L. ring (b_thds s) (BHead i # map BThd (W i)) \<and> (\<forall>t \<in> set (W i). \<not> b_timed s t))
     \<and> (\<forall>i \<in> set L. \<forall>j \<in> set L. i \<noteq> j \<longrightarrow> set (W i) \<inter> set (W j) = {})"

lemma lock_ok_facts:
  assumes "lock_ok s L W"
  shows "ring (locks_l s) (Locks # map Lock L)" "\<And>i. i \<in> set L \<Longrightarrow> ring (b_thds s) (BHead i # map BThd (W i))"
    "\<And>i t. i \<in> set L \<Longrightarrow> t \<in> set (W i) \<Longrightarrow> \<not> b_timed s t"
    "\<And>i j. i \<in> set L \<Longrightarrow> j \<in> set L \<Longrightarrow> i \<noteq> j \<Longrightarrow> set (W i) \<inter> set (W j) = {}"
  using assms unfolding lock_ok_def by blast+

definition matches :: "lock_comp \<Rightarrow> u32 \<Rightarrow> nat \<Rightarrow> nat \<Rightarrow> bool" where
  "matches s lid spd i \<longleftrightarrow> ml_lock_id (meta_locks s i) = lid \<and> ml_spd (meta_locks s i) = spd"

lemma lock_find_loop_ok:
  "fseg (Some \<circ> lnext (locks_l s)) (Lock x) (map Lock xs) Locks \<Longrightarrow> distinct (x # xs) \<Longrightarrow>
   lock_find_loop (Lock x) lid spd s = Some (find (matches s lid spd) (x # xs))"
proof (induction xs arbitrary: x)
  case Nil
  then show ?case by (simp add: lock_find_loop.simps matches_def [abs_def] FIRST_LIST_def)
next
  case (Cons y ys)
  then show ?case by (subst lock_find_loop.simps) (simp add: matches_def [abs_def] FIRST_LIST_def)
qed

lemma lock_find_ok:
  assumes "lock_ok s L W"
  shows "lock_find lid spd s = Some (find (matches s lid spd) L)"
proof (cases L)
  case Nil
  then show ?thesis using lock_ok_facts(1) [OF assms] by (simp add: lock_find_def ring_FIRST lock_find_loop.simps)
next
  case (Cons x xs)
  have r: "ring (locks_l s) (Locks # Lock x # map Lock xs)" using lock_ok_facts(1) [OF assms] Cons by simp
  have "fseg (Some \<circ> lnext (locks_l s)) Locks (Lock x # map Lock xs) Locks" by (rule ring_fseg [OF r])
  moreover have "distinct (x # xs)" using ring_distinct [OF r] by (auto simp: distinct_map)
  ultimately show ?thesis using Cons ring_FIRST [OF r] lock_find_loop_ok [of s x xs lid spd] by (simp add: lock_find_def del: find.simps)
qed

lemma thd_blocked_loop_ok:
  "fseg (Some \<circ> lnext (b_thds s)) bt (map BThd xs) (BHead i) \<Longrightarrow> thd_blocked_loop i (lnext (b_thds s) bt) thd s = Some (thd \<in> set xs)"
proof (induction xs arbitrary: bt)
  case Nil
  then show ?case by (simp add: thd_blocked_loop.simps)
next
  case (Cons x xs)
  then have "lnext (b_thds s) bt = BThd x" by simp
  with Cons show ?case by (subst thd_blocked_loop.simps) (auto simp: bt_thd_id_def)
qed

lemma lock_is_thd_blocked_ok:
  assumes "lock_ok s L W" "i \<in> set L"
  shows "lock_is_thd_blocked i thd s = Some (thd \<in> set (W i))"
proof -
  have "fseg (Some \<circ> lnext (b_thds s)) (BHead i) (map BThd (W i)) (BHead i)"
    by (rule ring_fseg [OF lock_ok_facts(2) [OF assms]])
  then show ?thesis by (simp add: lock_is_thd_blocked_def FIRST_LIST_def thd_blocked_loop_ok)
qed

lemma lock_ok_cong:
  assumes "locks_l s' = locks_l s" "b_thds s' = b_thds s" "b_timed s' = b_timed s"
  shows "lock_ok s' L W \<longleftrightarrow> lock_ok s L W"
  by (simp add: lock_ok_def assms)

lemma pretake_ok:
  assumes "lock_ok s L W" "find (matches s lid spd) L = Some i"
  shows "lock_component_pretake (True, True) spd lid thd s
    = Some (0, s\<lparr>meta_locks := (meta_locks s)(i := (meta_locks s i)\<lparr>gen_num := generation s\<rparr>)\<rparr>)"
  by (simp add: lock_component_pretake_def lock_find_ok [OF assms(1)] assms(2))

lemma take_stale:
  assumes "lock_ok s L W" "find (matches s lid spd) L = Some i" "i \<in> set L" "cur \<notin> set (W i)" "gen_num (meta_locks s i) \<noteq> generation s"
  shows "lock_component_take (True, True) cur spd lid thd TIMER_EVENT_INF s
    = Some (Return 0, s\<lparr>meta_locks := (meta_locks s)(i := (meta_locks s i)\<lparr>gen_num := generation s\<rparr>)\<rparr>)"
  using assms by (simp add: lock_component_take_def lock_find_ok [OF assms(1)] lock_is_thd_blocked_ok [OF assms(1,3)] TIMER_EVENT_INF_def)

lemma take_blocks:
  assumes "lock_ok s L W" "find (matches s lid spd) L = Some i" "i \<in> set L" "\<And>j. j \<in> set L \<Longrightarrow> cur \<notin> set (W j)"
    "gen_num (meta_locks s i) = generation s"
  shows "\<exists>s'. lock_component_take (True, True) cur spd lid thd TIMER_EVENT_INF s = Some (Block, s')
    \<and> lock_ok s' L (W(i := cur # W i)) \<and> meta_locks s' = meta_locks s \<and> generation s' = generation s + 1
    \<and> (\<forall>t. t \<noteq> cur \<longrightarrow> t \<notin> set (W i) \<longrightarrow> ring (b_thds s') [BThd t] = ring (b_thds s) [BThd t])"
proof -
  let ?l0 = "INIT_LIST (BThd cur) (b_thds s)" and ?W = "W(i := cur # W i)"
  define s' where "s' = s\<lparr>generation := generation s + 1, b_thds := ADD_LIST (BHead i) (BThd cur) ?l0, b_timed := (b_timed s)(cur := False)\<rparr>"
  have r0: "ring ?l0 (BHead j # map BThd (W j))" if "j \<in> set L" for j
    using ring_INIT_other [of "BThd cur" "BHead j # map BThd (W j)" "b_thds s"] lock_ok_facts(2) [OF assms(1) that] assms(4) [OF that] by auto
  have "ring (b_thds s') (BHead j # map BThd (?W j))" if j: "j \<in> set L" for j
  proof (cases "j = i")
    case True
    have "BThd cur \<notin> set (BHead i # map BThd (W i))" using assms(4) [OF assms(3)] by auto
    from ring_ADD [OF r0 [OF assms(3)] this] True show ?thesis by (simp add: s'_def)
  next
    case False
    have "BThd cur \<notin> set (BHead j # map BThd (W j))" using assms(4) [OF j] by auto
    moreover have "set (BHead i # map BThd (W i)) \<inter> set (BHead j # map BThd (W j)) = {}"
      using lock_ok_facts(4) [OF assms(1) assms(3) j] False by auto
    ultimately show ?thesis using ring_ADD_other [OF r0 [OF assms(3)]] r0 [OF j] False by (simp add: s'_def)
  qed
  moreover have "\<not> b_timed s' t" if "j \<in> set L" "t \<in> set (?W j)" for j t
    using that lock_ok_facts(3) [OF assms(1) that(1)] by (auto simp: s'_def split: if_splits)
  moreover have "set (?W j) \<inter> set (?W k) = {}" if "j \<in> set L" "k \<in> set L" "j \<noteq> k" for j k
    using lock_ok_facts(4) [OF assms(1) that] assms(4) [OF that(1)] assms(4) [OF that(2)] that(3) by auto
  ultimately have "lock_ok s' L ?W" using lock_ok_facts(1) [OF assms(1)] unfolding lock_ok_def by (simp add: s'_def)
  moreover have "lock_component_take (True, True) cur spd lid thd TIMER_EVENT_INF s = Some (Block, s')"
    using assms(2) assms(4) [OF assms(3)] assms(5)
    by (simp add: lock_component_take_def lock_find_ok [OF assms(1)] lock_is_thd_blocked_ok [OF assms(1,3)] TIMER_EVENT_INF_def s'_def)
  moreover have "ring (b_thds s') [BThd t] = ring (b_thds s) [BThd t]" if "t \<noteq> cur" "t \<notin> set (W i)" for t
  proof -
    have "ring (b_thds s') [BThd t] = ring ?l0 [BThd t]"
      unfolding s'_def using ring_ADD_other [OF r0 [OF assms(3)], of "BThd cur" "[BThd t]"] that by auto
    also have "\<dots> = ring (b_thds s) [BThd t]" by (rule ring_INIT_other) (use that in auto)
    finally show ?thesis .
  qed
  ultimately show ?thesis by (simp add: s'_def)
qed

lemma release_loop_ok:
  assumes "ring (b_thds s) (map BThd (t # ts))" "\<And>x. x \<in> set (t # ts) \<Longrightarrow> \<not> b_timed s x \<and> x \<noteq> cur"
  shows "\<exists>l. release_loop True cur (BThd t) s = Some (0, t # ts, s\<lparr>b_thds := l\<rparr>) \<and> (\<forall>x \<in> set (t # ts). ring l [BThd x])
    \<and> (\<forall>ys. set ys \<inter> BThd ` set (t # ts) = {} \<longrightarrow> ring l ys = ring (b_thds s) ys)"
  using assms
proof (induction ts arbitrary: t s)
  case Nil
  have "REM_LIST (BThd t) (b_thds s) = b_thds s" "FIRST_LIST (BThd t) (b_thds s) = BThd t"
    using Nil.prems(1) by (simp_all add: REM_LIST_alone ring_single FIRST_LIST_def)
  then show ?case using Nil.prems by (subst release_loop.simps) (simp add: bt_thd_id_def, metis lock_comp.surjective lock_comp.update_convs(3))
next
  case (Cons u ts)
  have r: "ring (b_thds s) (BThd t # map BThd (u # ts))" using Cons.prems(1) by simp
  define l1 where "l1 = REM_LIST (BThd t) (b_thds s)"
  have r1: "ring l1 (map BThd (u # ts))" unfolding l1_def by (rule ring_REM_head [OF r]) simp
  have other: "ring l1 ys \<longleftrightarrow> ring (b_thds s) ys" if "set ys \<inter> BThd ` set (t # u # ts) = {}" for ys
    unfolding l1_def by (rule ring_REM_other [OF r]) (use that in auto)
  have ne: "t \<noteq> u" "t \<notin> set (u # ts)" using ring_distinct [OF r] by auto
  from Cons.IH [of "s\<lparr>b_thds := l1\<rparr>" u] r1 Cons.prems(2) obtain l where
    l: "release_loop True cur (BThd u) (s\<lparr>b_thds := l1\<rparr>) = Some (0, u # ts, s\<lparr>b_thds := l\<rparr>)" "\<forall>x \<in> set (u # ts). ring l [BThd x]"
    "\<forall>ys. set ys \<inter> BThd ` set (u # ts) = {} \<longrightarrow> ring l ys = ring l1 ys" by auto
  have f: "FIRST_LIST (BThd t) (b_thds s) = BThd u" using ring_FIRST [OF r] by simp
  have "release_loop True cur (BThd t) s = Some (0, t # u # ts, s\<lparr>b_thds := l\<rparr>)"
    using Cons.prems(2) [of t] f l(1) ne(1) by (subst release_loop.simps) (simp add: bt_thd_id_def l1_def)
  moreover have "ring l [BThd t]" using l(3) [rule_format, of "[BThd t]"] ne(2) ring_REM_self [of "BThd t" "b_thds s"] by (auto simp: l1_def)
  moreover have "ring l ys = ring (b_thds s) ys" if "set ys \<inter> BThd ` set (t # u # ts) = {}" for ys
    using l(3) [rule_format, of ys] other [OF that] that by auto
  ultimately show ?case using l(2) by auto
qed

lemma release_ok:
  assumes "lock_ok s L W" "find (matches s lid spd) L = Some i" "i \<in> set L" "cur \<notin> set (W i)"
  shows "\<exists>l. lock_component_release (True, True) cur spd lid s = Some (0, W i, s\<lparr>generation := generation s + 1, b_thds := l\<rparr>)
    \<and> lock_ok (s\<lparr>generation := generation s + 1, b_thds := l\<rparr>) L (W(i := [])) \<and> (\<forall>t \<in> set (W i). ring l [BThd t])
    \<and> (\<forall>t. t \<notin> set (W i) \<longrightarrow> ring l [BThd t] = ring (b_thds s) [BThd t])"
proof -
  define s1 where "s1 = s\<lparr>generation := generation s + 1\<rparr>"
  have ok1: "lock_ok s1 L W" using assms(1) by (subst lock_ok_cong [of s1 s]) (simp_all add: s1_def)
  have f: "lock_find lid spd s1 = Some (Some i)" using assms(2) lock_find_ok [OF ok1] by (simp add: s1_def matches_def [abs_def])
  have r: "ring (b_thds s1) (BHead i # map BThd (W i))" by (rule lock_ok_facts(2) [OF ok1 assms(3)])
  show ?thesis
  proof (cases "W i")
    case Nil
    have "EMPTY_LIST (BHead i) (b_thds s1)" using ring_EMPTY [OF r] Nil by simp
    then have "lock_component_release (True, True) cur spd lid s = Some (0, W i, s1)"
      using f Nil by (simp add: lock_component_release_def s1_def [symmetric])
    moreover have "W(i := []) = W" using Nil by auto
    moreover have "s\<lparr>generation := generation s + 1, b_thds := b_thds s\<rparr> = s1" by (simp add: s1_def)
    moreover have "s1\<lparr>b_thds := b_thds s\<rparr> = s1" by (simp add: s1_def)
    ultimately show ?thesis using ok1 Nil by (intro exI [of _ "b_thds s"]) simp
  next
    case (Cons t ts)
    define l0 where "l0 = REM_LIST (BHead i) (b_thds s1)"
    have r0: "ring l0 (map BThd (t # ts))" unfolding l0_def using ring_REM_head [OF r] Cons by simp
    have o0: "ring l0 ys \<longleftrightarrow> ring (b_thds s1) ys" if "set ys \<inter> set (BHead i # map BThd (W i)) = {}" for ys
      unfolding l0_def by (rule ring_REM_other [OF r]) (use that in auto)
    have "\<not> b_timed s1 x \<and> x \<noteq> cur" if "x \<in> set (t # ts)" for x
      using that lock_ok_facts(3) [OF ok1 assms(3)] assms(4) Cons by auto
    then obtain l where l: "release_loop True cur (BThd t) (s1\<lparr>b_thds := l0\<rparr>) = Some (0, t # ts, s1\<lparr>b_thds := l\<rparr>)"
      "\<forall>x \<in> set (t # ts). ring l [BThd x]" "\<forall>ys. set ys \<inter> BThd ` set (t # ts) = {} \<longrightarrow> ring l ys = ring l0 ys"
      using release_loop_ok [of "s1\<lparr>b_thds := l0\<rparr>" t ts cur] r0 by auto
    have "lock_component_release (True, True) cur spd lid s = Some (0, W i, s1\<lparr>b_thds := l\<rparr>)"
      using f l(1) Cons ring_EMPTY [OF r] ring_FIRST [OF r]
      by (simp add: lock_component_release_def s1_def [symmetric] l0_def)
    moreover have "ring l (BHead j # map BThd ((W(i := [])) j))" if j: "j \<in> set L" for j
    proof (cases "j = i")
      case True
      have "ring l0 [BHead i]" by (simp add: l0_def ring_REM_self)
      with True l(3) [rule_format, of "[BHead i]"] show ?thesis by auto
    next
      case False
      have "set (BHead j # map BThd (W j)) \<inter> set (BHead i # map BThd (W i)) = {}"
        using lock_ok_facts(4) [OF ok1 j assms(3)] False by auto
      with o0 l(3) [rule_format, of "BHead j # map BThd (W j)"] lock_ok_facts(2) [OF ok1 j] Cons False show ?thesis by auto
    qed
    moreover have "ring l [BThd x] = ring (b_thds s) [BThd x]" if "x \<notin> set (W i)" for x
      using l(3) [rule_format, of "[BThd x]"] o0 [of "[BThd x]"] that Cons by (auto simp: s1_def)
    moreover have "lock_ok (s1\<lparr>b_thds := l\<rparr>) L (W(i := []))"
      unfolding lock_ok_def using calculation(2) lock_ok_facts(1,3,4) [OF ok1] by (auto split: if_splits)
    moreover have "\<forall>t \<in> set (W i). ring l [BThd t]" using l(2) Cons by simp
    ultimately show ?thesis by (intro exI [of _ l]) (simp add: s1_def)
  qed
qed

text \<open>A new lock comes first and has no waiters.  The checks of the links in \<^verbatim>\<open>lock_alloc\<close> hold.\<close>

lemma ADD_LIST_checks:
  assumes "ring l (h # xs)" "new \<notin> set (h # xs)"
  shows "FIRST_LIST h (ADD_LIST h new l) = new" "LAST_LIST new (ADD_LIST h new l) = h"
    "LAST_LIST h l \<noteq> h \<Longrightarrow> LAST_LIST h (ADD_LIST h new l) = LAST_LIST h l \<and> FIRST_LIST (LAST_LIST h l) (ADD_LIST h new l) = h"
    "FIRST_LIST new (ADD_LIST h new l) = FIRST_LIST h l" "LAST_LIST (FIRST_LIST h l) (ADD_LIST h new l) = new"
proof -
  note links = ADD_LIST_links [of new h l]
  have ne: "new \<noteq> h" using assms(2) by simp
  then show "FIRST_LIST h (ADD_LIST h new l) = new" "FIRST_LIST new (ADD_LIST h new l) = FIRST_LIST h l"
    "LAST_LIST (FIRST_LIST h l) (ADD_LIST h new l) = new" by (simp_all add: links FIRST_LIST_def LAST_LIST_def)
  have "lnext l h \<noteq> new" using ring_in [OF assms(1), of h] assms(2) by auto
  then show "LAST_LIST new (ADD_LIST h new l) = h" using ne by (simp add: links LAST_LIST_def)
  assume "LAST_LIST h l \<noteq> h"
  then have "xs \<noteq> []" using ring_LAST [OF assms(1)] by auto
  then have "LAST_LIST h l = last xs" "LAST_LIST h (ADD_LIST h new l) = last xs"
    using ring_LAST [OF assms(1)] ring_LAST [OF ring_ADD [OF assms]] by simp_all
  moreover have "ring (ADD_LIST h new l) (last xs # h # new # butlast xs)"
    using ring_ADD [OF assms] \<open>xs \<noteq> []\<close> ring_rotate [of _ "h # new # butlast xs" "[last xs]"] by simp
  from ring_FIRST [OF this] have "FIRST_LIST (last xs) (ADD_LIST h new l) = h" by simp
  ultimately show "LAST_LIST h (ADD_LIST h new l) = LAST_LIST h l \<and> FIRST_LIST (LAST_LIST h l) (ADD_LIST h new l) = h" by simp
qed

lemma alloc_ok:
  assumes "lock_ok s L W" "m \<notin> set L"
  shows "\<exists>s'. lock_component_alloc (True, True) (Some m) spd s = Some (next_lock_id s, s') \<and> lock_ok s' (m # L) (W(m := []))
    \<and> matches s' (next_lock_id s) spd m \<and> gen_num (meta_locks s' m) = 0 \<and> generation s' = generation s"
proof -
  let ?b = "INIT_LIST (BHead m) (b_thds s)" and ?l = "INIT_LIST (Lock m) (locks_l s)"
  let ?s = "s\<lparr>b_thds := ?b, meta_locks := (meta_locks s)(m := \<lparr>ml_owner = 0, ml_spd = spd, ml_lock_id = next_lock_id s, gen_num = 0\<rparr>),
    next_lock_id := next_lock_id s + 1, locks_l := ADD_LIST Locks (Lock m) ?l\<rparr>"
  have n: "Lock m \<notin> set (Locks # map Lock L)" using assms(2) by auto
  then have r: "ring ?l (Locks # map Lock L)" using lock_ok_facts(1) [OF assms(1)] by (subst ring_INIT_other) auto
  have "ring ?b (BHead j # map BThd ((W(m := [])) j))" if "j \<in> set (m # L)" for j
  proof (cases "j = m")
    case True
    then show ?thesis using ring_INIT [of "BHead m"] by simp
  next
    case False
    then show ?thesis using that lock_ok_facts(2) [OF assms(1), of j] by (subst ring_INIT_other) auto
  qed
  moreover have "ring (locks_l ?s) (Locks # map Lock (m # L))" using ring_ADD [OF r n] by simp
  ultimately have "lock_ok ?s (m # L) (W(m := []))"
    using lock_ok_facts(3,4) [OF assms(1)] unfolding lock_ok_def by (auto split: if_splits)
  moreover have "lock_component_alloc (True, True) (Some m) spd s = Some (next_lock_id s, ?s)"
    using ADD_LIST_checks [OF r n] by (simp add: lock_component_alloc_def lock_alloc_def)
  ultimately show ?thesis by (intro exI [of _ ?s]) (simp add: matches_def)
qed

subsection \<open>Properties\<close>

text \<open>C20.  Releasing a lock wakes exactly the threads that wait for it, each once, the last to come first.
Nobody waits for the lock afterwards, the waiters of other locks are untouched, and every woken thread finds
its own descriptor unlinked, as it checks when it runs again.  A thread that takes a lock is put among its
waiters only if no lock was released and no thread went to sleep since the lock was last looked at by
\<^verbatim>\<open>lock_component_pretake\<close>; otherwise it is sent back.\<close>

theorem lock_wakes_all_waiters:
  assumes "lock_ok s L W" "find (matches s lid spd) L = Some i" "i \<in> set L"
  shows "(cur \<notin> set (W i) \<longrightarrow> (\<exists>s'. lock_component_release (True, True) cur spd lid s = Some (0, W i, s')
        \<and> lock_ok s' L (W(i := [])) \<and> list_all (\<lambda>t. lock_component_woken t s' = Some 0) (W i)))
    \<and> ((\<forall>j \<in> set L. cur \<notin> set (W j)) \<longrightarrow> (\<exists>s' r. lock_component_take (True, True) cur spd lid thd TIMER_EVENT_INF s = Some (r, s')
        \<and> (if gen_num (meta_locks s i) = generation s then r = Block \<and> lock_ok s' L (W(i := cur # W i))
           else r = Return 0 \<and> lock_ok s' L W)))"
proof (intro conjI impI)
  assume "cur \<notin> set (W i)"
  from release_ok [OF assms this] show "\<exists>s'. lock_component_release (True, True) cur spd lid s = Some (0, W i, s')
      \<and> lock_ok s' L (W(i := [])) \<and> list_all (\<lambda>t. lock_component_woken t s' = Some 0) (W i)"
    by (auto simp: lock_component_woken_def list_all_iff EMPTY_LIST_def ring_single)
next
  assume c: "\<forall>j \<in> set L. cur \<notin> set (W j)"
  show "\<exists>s' r. lock_component_take (True, True) cur spd lid thd TIMER_EVENT_INF s = Some (r, s')
      \<and> (if gen_num (meta_locks s i) = generation s then r = Block \<and> lock_ok s' L (W(i := cur # W i)) else r = Return 0 \<and> lock_ok s' L W)"
  proof (cases "gen_num (meta_locks s i) = generation s")
    case True
    with take_blocks [OF assms, of cur thd] c show ?thesis by auto
  next
    case False
    from take_stale [OF assms _ False, of cur thd] c assms(3) False show ?thesis
      by (simp add: lock_ok_def) (use assms(1) in \<open>simp add: lock_ok_def\<close>)
  qed
qed

text \<open>Threads 8 and 9 wait for lock 2 of component 6.\<close>

definition lock_example :: lock_comp where
  "lock_example = \<lparr>meta_locks = (\<lambda>_. \<lparr>ml_owner = 0, ml_spd = 6, ml_lock_id = 2, gen_num = 7\<rparr>),
     locks_l = \<lparr>lnext = id(Locks := Lock 0, Lock 0 := Locks), lprev = id(Locks := Lock 0, Lock 0 := Locks)\<rparr>,
     b_thds = \<lparr>lnext = id(BHead 0 := BThd 9, BThd 9 := BThd 8, BThd 8 := BHead 0), lprev = id(BHead 0 := BThd 8, BThd 8 := BThd 9, BThd 9 := BHead 0)\<rparr>,
     b_timed = (\<lambda>_. False), next_lock_id = 3, generation = 7\<rparr>"

theorem lock_wakes_all_waiters_witness:
  "lock_ok lock_example [0] ((\<lambda>_. [])(0 := [9, 8]))
   \<and> (\<exists>s'. lock_component_release (True, True) 5 6 2 lock_example = Some (0, [9, 8], s') \<and> lock_component_woken 8 s' = Some 0)
   \<and> (\<exists>s' r. lock_component_take (True, True) 5 6 2 1 TIMER_EVENT_INF lock_example = Some (r, s') \<and> r = Block)"
proof -
  let ?W = "(\<lambda>_. [])(0 := [9, 8])"
  have ok: "lock_ok lock_example [0] ?W" by (simp add: lock_ok_def lock_example_def ring_def)
  have f: "find (matches lock_example 2 6) [0] = Some 0" by (simp add: matches_def lock_example_def)
  note t = lock_wakes_all_waiters [OF ok f, of 5 1]
  from t [THEN conjunct1] have "\<exists>s'. lock_component_release (True, True) 5 6 2 lock_example = Some (0, [9, 8], s') \<and> lock_component_woken 8 s' = Some 0"
    by auto
  moreover from t [THEN conjunct2] have "\<exists>s' r. lock_component_take (True, True) 5 6 2 1 TIMER_EVENT_INF lock_example = Some (r, s') \<and> r = Block"
    by (auto simp: lock_example_def)
  ultimately show ?thesis using ok by blast
qed

end
