(* ===== verification/Lock_Client.thy ===== *)
theory Lock_Client
  imports Lock
begin

text \<open>
  The half of a lock that lives in the client (\<^verbatim>\<open>components/interface/lock/cos_synchronization.c\<close>): one word
  with the owner and a flag that says whether somebody waits.  Threads take and give back an uncontended lock
  by a compare-and-exchange on that word and call the lock component otherwise.  A thread can be preempted
  between any two accesses to the word, so its code is a list of program points, and a run is the sequence of
  the threads that make a step.  The calls into the lock component are made one at a time, as the component
  holds its own lock.
\<close>

subsection \<open>Operations\<close>

record cos_lock_atomic =
  owner :: nat
  contested :: bool

text \<open>The calls of the client into the lock component, for one lock.\<close>

record 's lock_ops =
  pretake_op :: "nat \<Rightarrow> 's \<Rightarrow> (int \<times> 's) option"
  take_op :: "nat \<Rightarrow> nat \<Rightarrow> u32 \<Rightarrow> 's \<Rightarrow> (take_result \<times> 's) option"
  woken_op :: "nat \<Rightarrow> 's \<Rightarrow> int option"
  release_op :: "nat \<Rightarrow> 's \<Rightarrow> (int \<times> nat list \<times> 's) option"

text \<open>
  The program points.  \<open>Failed n\<close> is a thread that failed the check of line \<open>n\<close> of the file, \<open>Returned r\<close> is the
  return of \<^verbatim>\<open>lock_take_timed\<close>, and \<open>No_lock\<close> is a call that returned an error to the caller.
\<close>

datatype lock_pc = Outside | Failed nat | No_lock
  | Restart | Pretake | Check | Contested | Mark | Asserted | Take | Blocked | Woken | Commit | Own | Returned int | Held
  | R_read | R_mark | R_comp | R_commit | R_end

record lock_locals =
  pc :: lock_pc
  prev_val :: cos_lock_atomic
  microsec :: u32
  elapsed_time :: u32

record 's lock_sys =
  atom :: cos_lock_atomic
  srv :: 's
  loc :: "nat \<Rightarrow> lock_locals"

text \<open>The result and the new memory of the restartable sequence: a failure answers the anticipated value.\<close>

definition cos_cmpxchg :: "'a \<Rightarrow> 'a \<Rightarrow> 'a \<Rightarrow> 'a \<times> 'a" where
  "cos_cmpxchg memory anticipated result = (if memory = anticipated then (result, result) else (anticipated, memory))"

definition goto :: "nat \<Rightarrow> lock_pc \<Rightarrow> 's lock_sys \<Rightarrow> 's lock_sys" where
  "goto t p \<sigma> = \<sigma>\<lparr>loc := (loc \<sigma>)(t := (loc \<sigma> t)\<lparr>pc := p\<rparr>)\<rparr>"

definition check :: "nat \<Rightarrow> bool \<Rightarrow> nat \<Rightarrow> lock_pc \<Rightarrow> 's lock_sys \<Rightarrow> 's lock_sys" where
  "check n b t p \<sigma> = goto t (if b then p else Failed n) \<sigma>"

definition read_atom :: "nat \<Rightarrow> 's lock_sys \<Rightarrow> 's lock_sys" where
  "read_atom t \<sigma> = \<sigma>\<lparr>loc := (loc \<sigma>)(t := (loc \<sigma> t)\<lparr>prev_val := atom \<sigma>\<rparr>)\<rparr>"

definition after_take :: "nat \<Rightarrow> int \<Rightarrow> 's lock_sys \<Rightarrow> 's lock_sys" where
  "after_take t ret \<sigma> =
     (if ret \<noteq> -1 \<and> ret \<noteq> TIMER_EXPIRED
      then let l = loc \<sigma> t;
               diff = microsec l - of_int ret;
               l = (if microsec l \<noteq> TIMER_EVENT_INF then l\<lparr>microsec := (if 0 < sint diff then diff else 0)\<rparr> else l);
               l = l\<lparr>elapsed_time := elapsed_time l + of_int ret\<rparr>
           in goto t Restart (\<sigma>\<lparr>loc := (loc \<sigma>)(t := l)\<rparr>)
      else check 85 (owner (atom \<sigma>) \<noteq> t) t (Returned ret) \<sigma>)"

definition lock_take_step :: "'s lock_ops \<Rightarrow> nat \<Rightarrow> 's lock_sys \<Rightarrow> 's lock_sys" where
  "lock_take_step ops t \<sigma> =
     (let l = loc \<sigma> t; a = atom \<sigma>; prev = prev_val l
      in case pc l of
        Restart \<Rightarrow>
          (let \<sigma> = read_atom t \<sigma>
           in if owner a = 0 then check 41 (\<not> contested a) t Commit \<sigma>
              else if owner a \<noteq> t then goto t (if microsec l = 0 then Returned TIMER_EXPIRED else Pretake) \<sigma>
              else goto t (Failed 94) \<sigma>)
      | Pretake \<Rightarrow>
          (case pretake_op ops (owner prev) (srv \<sigma>) of
             None \<Rightarrow> goto t (Failed 52) \<sigma>
           | Some (r, s) \<Rightarrow> goto t (if r \<noteq> 0 then Returned (-1) else Check) (\<sigma>\<lparr>srv := s\<rparr>))
      | Check \<Rightarrow> goto t (if owner prev \<noteq> owner a then Restart else Contested) \<sigma>
      | Contested \<Rightarrow> goto t (if contested a then Asserted else Mark) \<sigma>
      | Mark \<Rightarrow>
          (let new_val = prev\<lparr>contested := True\<rparr>; (r, a) = cos_cmpxchg a prev new_val
           in goto t (if r \<noteq> new_val then Restart else Asserted) (\<sigma>\<lparr>atom := a\<rparr>))
      | Asserted \<Rightarrow> check 73 (contested a) t Take \<sigma>
      | Take \<Rightarrow>
          (case take_op ops t (owner prev) (microsec l) (srv \<sigma>) of
             None \<Rightarrow> goto t (Failed 77) \<sigma>
           | Some (Return r, s) \<Rightarrow> after_take t r (\<sigma>\<lparr>srv := s\<rparr>)
           | Some (Block, s) \<Rightarrow> goto t Blocked (\<sigma>\<lparr>srv := s\<rparr>))
      | Woken \<Rightarrow> (case woken_op ops t (srv \<sigma>) of None \<Rightarrow> goto t (Failed 77) \<sigma> | Some r \<Rightarrow> after_take t r \<sigma>)
      | Commit \<Rightarrow>
          (let new_val = prev\<lparr>owner := t\<rparr>; (r, a) = cos_cmpxchg a prev new_val
           in goto t (if r \<noteq> new_val then Restart else Own) (\<sigma>\<lparr>atom := a\<rparr>))
      | Own \<Rightarrow> check 101 (owner a = t) t (Returned (sint (elapsed_time l))) \<sigma>
      | Returned r \<Rightarrow> check 114 (r \<noteq> TIMER_EXPIRED) t (if 0 \<noteq> r then No_lock else Held) \<sigma>
      | _ \<Rightarrow> \<sigma>)"

text \<open>\<^verbatim>\<open>sched_wakeup\<close> for each of the threads the component wakes.\<close>

definition wake :: "nat list \<Rightarrow> 's lock_sys \<Rightarrow> 's lock_sys" where
  "wake ts \<sigma> = foldl (\<lambda>\<sigma> t. goto t Woken \<sigma>) \<sigma> ts"

definition lock_release_step :: "'s lock_ops \<Rightarrow> nat \<Rightarrow> 's lock_sys \<Rightarrow> 's lock_sys" where
  "lock_release_step ops t \<sigma> =
     (let l = loc \<sigma> t; a = atom \<sigma>; prev = prev_val l
      in case pc l of
        R_read \<Rightarrow> check 128 (owner a = t) t (if contested a then R_mark else R_commit) (read_atom t \<sigma>)
      | R_mark \<Rightarrow>
          (let new_val = prev\<lparr>owner := 0, contested := False\<rparr>; (r, a) = cos_cmpxchg a prev new_val
           in check 139 (r = new_val) t R_comp (\<sigma>\<lparr>atom := a\<rparr>))
      | R_comp \<Rightarrow>
          (case release_op ops t (srv \<sigma>) of
             None \<Rightarrow> goto t (Failed 141) \<sigma>
           | Some (r, ts, s) \<Rightarrow> goto t (if r \<noteq> 0 then No_lock else Outside) (wake ts (\<sigma>\<lparr>srv := s\<rparr>)))
      | R_commit \<Rightarrow>
          (let new_val = prev\<lparr>owner := 0\<rparr>; (r, a) = cos_cmpxchg a prev new_val
           in if owner new_val = t then goto t (Failed 152) \<sigma>
              else goto t (if r \<noteq> new_val then R_read else R_end) (\<sigma>\<lparr>atom := a\<rparr>))
      | R_end \<Rightarrow> check 154 (owner a \<noteq> t) t Outside \<sigma>
      | _ \<Rightarrow> \<sigma>)"

text \<open>\<^verbatim>\<open>lock_take\<close> is a call of \<^verbatim>\<open>lock_take_timed\<close> without a time limit.\<close>

definition lock_take :: "nat \<Rightarrow> 's lock_sys \<Rightarrow> 's lock_sys" where
  "lock_take t \<sigma> = \<sigma>\<lparr>loc := (loc \<sigma>)(t := (loc \<sigma> t)\<lparr>pc := Restart, microsec := TIMER_EVENT_INF, elapsed_time := 0\<rparr>)\<rparr>"

text \<open>A thread takes the lock when it has nothing to do, and gives it back when it holds it.\<close>

definition client_step :: "'s lock_ops \<Rightarrow> nat \<Rightarrow> 's lock_sys \<Rightarrow> 's lock_sys" where
  "client_step ops t \<sigma> =
     (case pc (loc \<sigma> t) of
        Outside \<Rightarrow> lock_take t \<sigma>
      | Held \<Rightarrow> goto t R_read \<sigma>
      | p \<Rightarrow> if p \<in> {R_read, R_mark, R_comp, R_commit, R_end} then lock_release_step ops t \<sigma> else lock_take_step ops t \<sigma>)"

definition client_run :: "'s lock_ops \<Rightarrow> 's lock_sys \<Rightarrow> nat list \<Rightarrow> 's lock_sys" where
  "client_run ops = foldl (\<lambda>\<sigma> t. client_step ops t \<sigma>)"

definition lock_init :: cos_lock_atomic where
  "lock_init = \<lparr>owner = 0, contested = False\<rparr>"

definition sys_init :: "'s \<Rightarrow> 's lock_sys" where
  "sys_init s = \<lparr>atom = lock_init, srv = s, loc = (\<lambda>_. \<lparr>pc = Outside, prev_val = lock_init, microsec = 0, elapsed_time = 0\<rparr>)\<rparr>"

subsection \<open>The word of the lock\<close>

text \<open>The program points between the exchange that takes the lock and the one that gives it back.\<close>

definition in_cs :: "lock_pc \<Rightarrow> bool" where
  "in_cs p \<longleftrightarrow> (case p of Returned _ \<Rightarrow> True | _ \<Rightarrow> p \<in> {Own, Held, R_read, R_mark, R_commit})"

definition waits :: "lock_pc \<Rightarrow> bool" where
  "waits p \<longleftrightarrow> p \<in> {Pretake, Check, Contested, Mark, Asserted, Take}"

definition pc_ok :: "nat \<Rightarrow> cos_lock_atomic \<Rightarrow> lock_pc \<Rightarrow> cos_lock_atomic \<Rightarrow> bool" where
  "pc_ok t a p prev \<longleftrightarrow> (case p of
       Failed n \<Rightarrow> n = 73 | No_lock \<Rightarrow> False | Returned r \<Rightarrow> r = 0
     | Commit \<Rightarrow> owner prev = 0 \<and> \<not> contested prev
     | R_mark \<Rightarrow> prev = a \<and> contested a
     | R_commit \<Rightarrow> owner prev = t \<and> \<not> contested prev
     | _ \<Rightarrow> waits p \<longrightarrow> owner prev \<noteq> 0 \<and> owner prev \<noteq> t)"

definition thread_ok :: "nat \<Rightarrow> cos_lock_atomic \<Rightarrow> lock_locals \<Rightarrow> bool" where
  "thread_ok t a l \<longleftrightarrow> (in_cs (pc l) \<longleftrightarrow> owner a = t) \<and> pc_ok t a (pc l) (prev_val l)
     \<and> (pc l \<noteq> Outside \<longrightarrow> microsec l = TIMER_EVENT_INF \<and> elapsed_time l = 0)"

definition word_ok :: "nat set \<Rightarrow> cos_lock_atomic \<Rightarrow> (nat \<Rightarrow> lock_locals) \<Rightarrow> bool" where
  "word_ok T a ls \<longleftrightarrow> (owner a = 0 \<longrightarrow> \<not> contested a) \<and> (owner a \<noteq> 0 \<longrightarrow> owner a \<in> T) \<and> (\<forall>t \<in> T. thread_ok t a (ls t))"

lemmas pc_simps = in_cs_def waits_def pc_ok_def thread_ok_def

lemma word_ok_local:
  assumes "word_ok T a ls" "thread_ok t a l"
  shows "word_ok T a (ls(t := l))"
  using assms by (auto simp: word_ok_def)

text \<open>The three exchanges that change the word: a waiter sets the flag, a thread takes a free lock, the owner
gives it back.\<close>

lemma atom_eqI: "owner a = owner b \<Longrightarrow> contested a = contested b \<Longrightarrow> a = (b :: cos_lock_atomic)"
  by (cases a; cases b) simp

lemma word_ok_mark:
  assumes "word_ok T a ls" "owner a \<noteq> 0" "thread_ok t (a\<lparr>contested := True\<rparr>) l"
  shows "word_ok T (a\<lparr>contested := True\<rparr>) (ls(t := l))"
proof -
  have "thread_ok u (a\<lparr>contested := True\<rparr>) (ls u)" if "thread_ok u a (ls u)" for u
    using that by (auto simp: thread_ok_def pc_ok_def intro: atom_eqI split: lock_pc.splits)
  then show ?thesis using assms by (auto simp: word_ok_def)
qed

lemma word_ok_take:
  assumes "word_ok T a ls" "owner a = 0" "0 \<notin> T" "t \<in> T" "thread_ok t (a\<lparr>owner := t\<rparr>) l"
  shows "word_ok T (a\<lparr>owner := t\<rparr>) (ls(t := l))"
proof -
  have "thread_ok u (a\<lparr>owner := t\<rparr>) (ls u)" if "thread_ok u a (ls u)" "u \<in> T" "u \<noteq> t" for u
  proof -
    have "\<not> in_cs (pc (ls u))" using that assms(2,3) by (auto simp: thread_ok_def)
    with that show ?thesis by (auto simp: thread_ok_def pc_ok_def in_cs_def split: lock_pc.splits)
  qed
  then show ?thesis using assms by (auto simp: word_ok_def)
qed

lemma word_ok_give:
  assumes "word_ok T a ls" "owner a = t" "owner a' = 0" "\<not> contested a'" "0 \<notin> T" "t \<in> T" "thread_ok t a' l"
  shows "word_ok T a' (ls(t := l))"
proof -
  have "thread_ok u a' (ls u)" if "thread_ok u a (ls u)" "u \<in> T" "u \<noteq> t" for u
  proof -
    have "\<not> in_cs (pc (ls u))" using that assms(2) by (auto simp: thread_ok_def)
    moreover have "u \<noteq> 0" using that(2) assms(5) by metis
    ultimately show ?thesis using that assms(3) by (auto simp: thread_ok_def pc_ok_def in_cs_def split: lock_pc.splits)
  qed
  then show ?thesis using assms by (auto simp: word_ok_def)
qed

subsection \<open>The contract of the lock component\<close>

text \<open>
  \<open>serves s W R\<close>: in the state \<open>s\<close> of the component the threads \<open>W\<close> wait for the lock, and the threads \<open>R\<close> were woken
  and did not run yet.  \<open>stamp\<close> is the generation noted for the lock, \<open>now\<close> the current one.
\<close>

locale lock_service =
  fixes ops :: "'s lock_ops" and T :: "nat set" and serves :: "'s \<Rightarrow> nat list \<Rightarrow> nat set \<Rightarrow> bool"
    and stamp :: "'s \<Rightarrow> 64 word" and now :: "'s \<Rightarrow> 64 word"
  assumes srv_pretake: "serves s W R \<Longrightarrow> \<exists>s'. pretake_op ops u s = Some (0, s') \<and> serves s' W R \<and> stamp s' = now s \<and> now s' = now s"
    and srv_stale: "serves s W R \<Longrightarrow> t \<in> T \<Longrightarrow> t \<notin> set W \<Longrightarrow> t \<notin> R \<Longrightarrow> stamp s \<noteq> now s \<Longrightarrow>
      \<exists>s'. take_op ops t u TIMER_EVENT_INF s = Some (Return 0, s') \<and> serves s' W R \<and> stamp s' = now s \<and> now s' = now s"
    and srv_block: "serves s W R \<Longrightarrow> t \<in> T \<Longrightarrow> t \<notin> set W \<Longrightarrow> t \<notin> R \<Longrightarrow> stamp s = now s \<Longrightarrow>
      \<exists>s'. take_op ops t u TIMER_EVENT_INF s = Some (Block, s') \<and> serves s' (t # W) R \<and> stamp s' = stamp s \<and> now s' = now s + 1"
    and srv_woken: "serves s W R \<Longrightarrow> t \<in> R \<Longrightarrow> woken_op ops t s = Some 0 \<and> serves s W (R - {t})"
    and srv_release: "serves s W R \<Longrightarrow> t \<notin> set W \<Longrightarrow>
      \<exists>s'. release_op ops t s = Some (0, W, s') \<and> serves s' [] (R \<union> set W) \<and> stamp s' = stamp s \<and> now s' = now s + 1"

definition at :: "nat set \<Rightarrow> lock_pc \<Rightarrow> (nat \<Rightarrow> lock_locals) \<Rightarrow> nat set" where
  "at T p ls = {t \<in> T. pc (ls t) = p}"

definition client_inv :: "nat set \<Rightarrow> ('s \<Rightarrow> nat list \<Rightarrow> nat set \<Rightarrow> bool) \<Rightarrow> 's lock_sys \<Rightarrow> bool" where
  "client_inv T serves \<sigma> \<longleftrightarrow> 0 \<notin> T \<and> word_ok T (atom \<sigma>) (loc \<sigma>)
     \<and> (\<exists>W. serves (srv \<sigma>) W (at T Woken (loc \<sigma>)) \<and> set W = at T Blocked (loc \<sigma>))"

lemma at_other: "pc (ls t) \<noteq> p \<Longrightarrow> pc l \<noteq> p \<Longrightarrow> at T p (ls(t := l)) = at T p ls"
  by (auto simp: at_def)

lemma at_into: "t \<in> T \<Longrightarrow> pc l = p \<Longrightarrow> at T p (ls(t := l)) = insert t (at T p ls)"
  by (auto simp: at_def)

lemma at_out: "pc l \<noteq> p \<Longrightarrow> at T p (ls(t := l)) = at T p ls - {t}"
  by (auto simp: at_def)

text \<open>A step that leaves the component alone.\<close>

lemma client_inv_word:
  assumes "client_inv T serves \<sigma>" "word_ok T a ((loc \<sigma>)(t := l))"
    "pc (loc \<sigma> t) \<noteq> Woken" "pc (loc \<sigma> t) \<noteq> Blocked" "pc l \<noteq> Woken" "pc l \<noteq> Blocked"
  shows "client_inv T serves (\<sigma>\<lparr>atom := a, loc := (loc \<sigma>)(t := l)\<rparr>)"
  using assms by (simp add: client_inv_def at_other)

lemma client_inv_srv:
  assumes "client_inv T serves \<sigma>" "word_ok T (atom \<sigma>) ls" "serves s W (at T Woken ls)" "set W = at T Blocked ls"
  shows "client_inv T serves (\<sigma>\<lparr>srv := s, loc := ls\<rparr>)"
  using assms by (auto simp: client_inv_def)

lemma client_inv_thread: "client_inv T serves \<sigma> \<Longrightarrow> t \<in> T \<Longrightarrow> thread_ok t (atom \<sigma>) (loc \<sigma> t)"
  by (simp add: client_inv_def word_ok_def)

lemma goto_inv:
  assumes "client_inv T serves \<sigma>" "thread_ok t (atom \<sigma>) ((loc \<sigma> t)\<lparr>pc := p\<rparr>)"
    "pc (loc \<sigma> t) \<noteq> Woken" "pc (loc \<sigma> t) \<noteq> Blocked" "p \<noteq> Woken" "p \<noteq> Blocked"
  shows "client_inv T serves (goto t p \<sigma>)"
proof -
  have "word_ok T (atom \<sigma>) (loc \<sigma>)" using assms(1) by (simp add: client_inv_def)
  from client_inv_word [OF assms(1) word_ok_local [OF this assms(2)] assms(3,4)] assms(5,6)
  show ?thesis by (simp add: goto_def)
qed

lemmas step_defs = goto_def check_def read_atom_def Let_def

lemma pos_member: "0 \<notin> T \<Longrightarrow> t \<in> T \<Longrightarrow> 0 < (t :: nat)"
  by (cases t) auto

lemma wake_eq: "wake ts \<sigma> = \<sigma>\<lparr>loc := \<lambda>u. if u \<in> set ts then (loc \<sigma> u)\<lparr>pc := Woken\<rparr> else loc \<sigma> u\<rparr>"
proof (induction ts arbitrary: \<sigma>)
  case Nil
  show ?case by (simp add: wake_def)
next
  case (Cons t ts)
  have "wake (t # ts) \<sigma> = wake ts (goto t Woken \<sigma>)" by (simp add: wake_def)
  also have "\<dots> = \<sigma>\<lparr>loc := \<lambda>u. if u \<in> set (t # ts) then (loc \<sigma> u)\<lparr>pc := Woken\<rparr> else loc \<sigma> u\<rparr>"
    unfolding Cons.IH goto_def
    by (simp cong: if_cong) (rule arg_cong [where f = "\<lambda>l. \<sigma>\<lparr>loc := l\<rparr>"], auto)
  finally show ?case .
qed

text \<open>
  What a step of a thread does to the word, the program points, the generation noted for the lock and the
  current generation.
\<close>

definition quiet :: "cos_lock_atomic \<Rightarrow> nat \<Rightarrow> lock_pc \<Rightarrow> lock_pc \<Rightarrow> bool" where
  "quiet a t p p' \<longleftrightarrow> p \<noteq> R_comp \<and> p' \<noteq> R_comp \<and> (p' = Take \<longrightarrow> contested a) \<and> (p' = Blocked \<longrightarrow> p = Blocked)
     \<and> (waits p' \<longrightarrow> waits p \<or> owner a \<noteq> 0 \<and> owner a \<noteq> t)"

inductive lock_trans :: "nat set \<Rightarrow> nat \<Rightarrow> cos_lock_atomic \<times> (nat \<Rightarrow> lock_pc) \<times> 64 word \<times> 64 word \<Rightarrow>
    cos_lock_atomic \<times> (nat \<Rightarrow> lock_pc) \<times> 64 word \<times> 64 word \<Rightarrow> bool" for T t where
  t_quiet: "quiet a t (P t) p \<Longrightarrow> lock_trans T t (a, P, g, n) (a, P(t := p), g, n)"
| t_stamp: "P t \<in> {Pretake, Take} \<Longrightarrow> p \<in> {Check, Restart} \<Longrightarrow> lock_trans T t (a, P, g, n) (a, P(t := p), n, n)"
| t_block: "P t = Take \<Longrightarrow> g = n \<Longrightarrow> lock_trans T t (a, P, g, n) (a, P(t := Blocked), g, n + 1)"
| t_mark: "P t = Mark \<Longrightarrow> lock_trans T t (a, P, g, n) (a\<lparr>contested := True\<rparr>, P(t := Asserted), g, n)"
| t_commit: "P t = Commit \<Longrightarrow> owner a = 0 \<Longrightarrow> lock_trans T t (a, P, g, n) (a\<lparr>owner := t\<rparr>, P(t := Own), g, n)"
| t_r_mark: "P t = R_mark \<Longrightarrow> lock_trans T t (a, P, g, n) (a', P(t := R_comp), g, n)"
| t_r_commit: "P t = R_commit \<Longrightarrow> \<not> contested a \<Longrightarrow> lock_trans T t (a, P, g, n) (a', P(t := R_end), g, n)"
| t_release: "P t = R_comp \<Longrightarrow>
    lock_trans T t (a, P, g, n) (a, (\<lambda>u. if u \<in> T \<and> P u = Blocked then Woken else P u)(t := Outside), g, n + 1)"

lemmas quiet_simps = quiet_def waits_def

text \<open>
  Two threads: they are never both on the way to sleep, and a thread that will sleep, or sleeps, was seen by the
  owner or is about to be woken.
\<close>

definition heard :: "nat \<Rightarrow> nat \<Rightarrow> cos_lock_atomic \<times> (nat \<Rightarrow> lock_pc) \<times> 64 word \<times> 64 word \<Rightarrow> bool" where
  "heard t u v \<longleftrightarrow> (case v of (a, P, g, n) \<Rightarrow>
     (waits (P t) \<longrightarrow> \<not> waits (P u)) \<and> (P t = Take \<and> g = n \<longrightarrow> contested a \<or> P u = R_comp)
     \<and> (P t = Blocked \<longrightarrow> contested a \<or> P u = R_comp))"

definition view_ok :: "nat \<Rightarrow> nat \<Rightarrow> cos_lock_atomic \<times> (nat \<Rightarrow> lock_pc) \<times> 64 word \<times> 64 word \<Rightarrow> bool" where
  "view_ok t u v \<longleftrightarrow> (case v of (a, P, g, n) \<Rightarrow> (owner a = 0 \<longrightarrow> \<not> contested a) \<and> owner a \<in> {0, t, u}
     \<and> (in_cs (P t) \<longleftrightarrow> owner a = t) \<and> (in_cs (P u) \<longleftrightarrow> owner a = u))"

definition recent :: "nat \<Rightarrow> cos_lock_atomic \<times> (nat \<Rightarrow> lock_pc) \<times> 64 word \<times> 64 word \<Rightarrow> bool" where
  "recent k v \<longleftrightarrow> (case v of (a, P, g, n) \<Rightarrow> unat g \<le> unat n \<and> unat n \<le> k)"

lemma in_cs_waits: "in_cs p \<Longrightarrow> \<not> waits p"
  by (cases p) (simp_all add: in_cs_def waits_def)

lemma unat_next: "unat (n :: 64 word) < 2 ^ 64 - 1 \<Longrightarrow> unat (n + 1) = unat n + 1"
  by (simp add: unat_word_ariths)

lemma recent_step:
  assumes "lock_trans T t v v'" "recent k v" "k < 2 ^ 64 - 1"
  shows "recent (k + 1) v'"
proof -
  have "unat (n + 1) = unat n + 1" if "unat n \<le> k" for n :: "64 word" using that assms(3) by (intro unat_next) linarith
  with assms(1,2) show ?thesis by (cases rule: lock_trans.cases) (auto simp: recent_def)
qed

lemma heard_step:
  assumes "lock_trans {t, u} t v v'" "heard t u v" "heard u t v" "view_ok t u v" "t \<noteq> u" "recent k v" "k < 2 ^ 64 - 1"
  shows "heard t u v' \<and> heard u t v'"
  using assms(1)
proof (cases rule: lock_trans.cases)
  case (t_quiet a P p g n)
  have "waits p \<Longrightarrow> \<not> waits (P u)"
    using t_quiet assms(2,4) in_cs_waits [of "P u"] by (auto simp: quiet_def heard_def view_ok_def)
  then show ?thesis using t_quiet assms(2,3,5) by (auto simp: heard_def quiet_def)
next
  case (t_stamp P p a g n)
  then have "\<not> waits (P u)" "P u \<noteq> Take" using assms(2) by (auto simp: heard_def waits_def)
  then show ?thesis using t_stamp assms(2,3,5) by (auto simp: heard_def waits_def)
next
  case (t_block P g n a)
  then have "\<not> waits (P u)" "P u \<noteq> Take" using assms(2) by (auto simp: heard_def waits_def)
  then show ?thesis using t_block assms(2,3,5) by (auto simp: heard_def waits_def)
next
  case (t_mark P a g n)
  then show ?thesis using assms(2,3,5) by (auto simp: heard_def waits_def)
next
  case (t_commit P a g n)
  then show ?thesis using assms(2,3,4,5) by (auto simp: heard_def view_ok_def waits_def)
next
  case (t_r_mark P a g n a')
  then show ?thesis using assms(2,3,5) by (auto simp: heard_def waits_def)
next
  case (t_r_commit P a g n a')
  then show ?thesis using assms(2,3,5) by (auto simp: heard_def waits_def)
next
  case (t_release P a g n)
  have "unat (n + 1) = unat n + 1" "unat g \<le> unat n" using t_release assms(6,7) unat_next [of n] by (auto simp: recent_def)
  then have "g \<noteq> n + 1" by auto
  then show ?thesis using t_release assms(2,3,5) by (auto simp: heard_def waits_def)
qed

context lock_service
begin

text \<open>The steps of \<^verbatim>\<open>lock_take_timed\<close> that do not call the component.\<close>

lemma restart_inv:
  assumes "client_inv T serves \<sigma>" "t \<in> T" "pc (loc \<sigma> t) = Restart"
  shows "client_inv T serves (lock_take_step ops t \<sigma>)"
proof -
  have t: "thread_ok t (atom \<sigma>) (loc \<sigma> t)" and w: "word_ok T (atom \<sigma>) (loc \<sigma>)"
    using client_inv_thread [OF assms(1,2)] assms(1) by (simp_all add: client_inv_def)
  let ?p = "if owner (atom \<sigma>) = 0 then Commit else Pretake"
  let ?l = "(loc \<sigma> t)\<lparr>prev_val := atom \<sigma>, pc := ?p\<rparr>"
  have "thread_ok t (atom \<sigma>) ?l" using t w assms(3) by (auto simp: pc_simps word_ok_def)
  then have "client_inv T serves (\<sigma>\<lparr>atom := atom \<sigma>, loc := (loc \<sigma>)(t := ?l)\<rparr>)"
    using assms(3) by (intro client_inv_word [OF assms(1)] word_ok_local [OF w]) auto
  moreover have "lock_take_step ops t \<sigma> = \<sigma>\<lparr>loc := (loc \<sigma>)(t := ?l)\<rparr>"
    using t w assms(3) by (auto simp: lock_take_step_def step_defs pc_simps word_ok_def TIMER_EVENT_INF_def)
  ultimately show ?thesis by simp
qed

lemma check_inv:
  assumes "client_inv T serves \<sigma>" "t \<in> T" "pc (loc \<sigma> t) = Check"
  shows "client_inv T serves (lock_take_step ops t \<sigma>)"
proof -
  have t: "thread_ok t (atom \<sigma>) (loc \<sigma> t)" by (rule client_inv_thread [OF assms(1,2)])
  have "lock_take_step ops t \<sigma> = goto t (if owner (prev_val (loc \<sigma> t)) \<noteq> owner (atom \<sigma>) then Restart else Contested) \<sigma>"
    using assms(3) by (simp add: lock_take_step_def)
  then show ?thesis using t assms(3) by (simp only:) (rule goto_inv [OF assms(1)]; simp add: pc_simps)
qed

lemma contested_inv:
  assumes "client_inv T serves \<sigma>" "t \<in> T" "pc (loc \<sigma> t) = Contested"
  shows "client_inv T serves (lock_take_step ops t \<sigma>)"
proof -
  have t: "thread_ok t (atom \<sigma>) (loc \<sigma> t)" by (rule client_inv_thread [OF assms(1,2)])
  have "lock_take_step ops t \<sigma> = goto t (if contested (atom \<sigma>) then Asserted else Mark) \<sigma>"
    using assms(3) by (simp add: lock_take_step_def)
  then show ?thesis using t assms(3) by (simp only:) (rule goto_inv [OF assms(1)]; simp add: pc_simps)
qed

lemma asserted_inv:
  assumes "client_inv T serves \<sigma>" "t \<in> T" "pc (loc \<sigma> t) = Asserted"
  shows "client_inv T serves (lock_take_step ops t \<sigma>)"
proof -
  have t: "thread_ok t (atom \<sigma>) (loc \<sigma> t)" by (rule client_inv_thread [OF assms(1,2)])
  have "lock_take_step ops t \<sigma> = goto t (if contested (atom \<sigma>) then Take else Failed 73) \<sigma>"
    using assms(3) by (simp add: lock_take_step_def check_def)
  then show ?thesis using t assms(3) by (simp only:) (rule goto_inv [OF assms(1)]; simp add: pc_simps)
qed

lemma own_inv:
  assumes "client_inv T serves \<sigma>" "t \<in> T" "pc (loc \<sigma> t) = Own \<or> pc (loc \<sigma> t) = Returned r"
  shows "client_inv T serves (lock_take_step ops t \<sigma>)"
proof -
  have t: "thread_ok t (atom \<sigma>) (loc \<sigma> t)" by (rule client_inv_thread [OF assms(1,2)])
  have "lock_take_step ops t \<sigma> = goto t (if pc (loc \<sigma> t) = Own then Returned 0 else Held) \<sigma>"
    using t assms(3) by (auto simp: lock_take_step_def check_def pc_simps TIMER_EXPIRED_def)
  then show ?thesis using t assms(3) by (simp only:) (rule goto_inv [OF assms(1)]; auto simp add: pc_simps)
qed

lemma mark_inv:
  assumes "client_inv T serves \<sigma>" "t \<in> T" "pc (loc \<sigma> t) = Mark"
  shows "client_inv T serves (lock_take_step ops t \<sigma>)"
proof -
  let ?a = "atom \<sigma>" and ?prev = "prev_val (loc \<sigma> t)" and ?l = "\<lambda>p. (loc \<sigma> t)\<lparr>pc := p\<rparr>"
  have t: "thread_ok t ?a (loc \<sigma> t)" and w: "word_ok T ?a (loc \<sigma>)"
    using client_inv_thread [OF assms(1,2)] assms(1) by (simp_all add: client_inv_def)
  show ?thesis
  proof (cases "?a = ?prev")
    case True
    have "thread_ok t (?a\<lparr>contested := True\<rparr>) (?l Asserted)" "owner ?a \<noteq> 0" using t assms(3) True by (auto simp: pc_simps)
    then have "client_inv T serves (\<sigma>\<lparr>atom := ?a\<lparr>contested := True\<rparr>, loc := (loc \<sigma>)(t := ?l Asserted)\<rparr>)"
      using assms(3) by (intro client_inv_word [OF assms(1)] word_ok_mark [OF w]) auto
    then show ?thesis using assms(3) True by (simp add: lock_take_step_def step_defs cos_cmpxchg_def)
  next
    case False
    have "thread_ok t ?a (?l p)" if "p = Restart \<or> p = Asserted" for p using t assms(3) that by (auto simp: pc_simps)
    then have "client_inv T serves (\<sigma>\<lparr>atom := ?a, loc := (loc \<sigma>)(t := ?l p)\<rparr>)" if "p = Restart \<or> p = Asserted" for p
      using assms(3) that by (intro client_inv_word [OF assms(1)] word_ok_local [OF w]) auto
    from this [of Restart] this [of Asserted] show ?thesis using assms(3) False by (simp add: lock_take_step_def step_defs cos_cmpxchg_def)
  qed
qed

lemma commit_inv:
  assumes "client_inv T serves \<sigma>" "t \<in> T" "pc (loc \<sigma> t) = Commit"
  shows "client_inv T serves (lock_take_step ops t \<sigma>)"
proof -
  let ?a = "atom \<sigma>" and ?prev = "prev_val (loc \<sigma> t)" and ?l = "\<lambda>p. (loc \<sigma> t)\<lparr>pc := p\<rparr>"
  have t: "thread_ok t ?a (loc \<sigma> t)" and w: "word_ok T ?a (loc \<sigma>)" and z: "0 \<notin> T"
    using client_inv_thread [OF assms(1,2)] assms(1) by (simp_all add: client_inv_def)
  have p0: "owner ?prev = 0" using t assms(3) by (simp add: pc_simps)
  show ?thesis
  proof (cases "?a = ?prev")
    case True
    have "thread_ok t (?a\<lparr>owner := t\<rparr>) (?l Own)" using t assms(3) by (auto simp: pc_simps)
    then have "client_inv T serves (\<sigma>\<lparr>atom := ?a\<lparr>owner := t\<rparr>, loc := (loc \<sigma>)(t := ?l Own)\<rparr>)"
      using assms(2,3) True p0 z by (intro client_inv_word [OF assms(1)] word_ok_take [OF w]) auto
    then show ?thesis using assms(3) True by (simp add: lock_take_step_def step_defs cos_cmpxchg_def)
  next
    case False
    have "?prev \<noteq> ?prev\<lparr>owner := t\<rparr>" using p0 z assms(2) by (metis cos_lock_atomic.select_convs(1) cos_lock_atomic.surjective cos_lock_atomic.update_convs(1))
    moreover have "thread_ok t ?a (?l Restart)" using t assms(3) by (auto simp: pc_simps)
    then have "client_inv T serves (\<sigma>\<lparr>atom := ?a, loc := (loc \<sigma>)(t := ?l Restart)\<rparr>)"
      using assms(3) by (intro client_inv_word [OF assms(1)] word_ok_local [OF w]) auto
    ultimately show ?thesis using assms(3) False by (simp add: lock_take_step_def step_defs cos_cmpxchg_def)
  qed
qed

text \<open>The calls of the component.\<close>

lemma client_inv_serves:
  assumes "client_inv T serves \<sigma>"
  obtains W where "serves (srv \<sigma>) W (at T Woken (loc \<sigma>))" "set W = at T Blocked (loc \<sigma>)" "word_ok T (atom \<sigma>) (loc \<sigma>)" "0 \<notin> T"
  using assms by (auto simp: client_inv_def)

lemma pretake_inv:
  assumes "client_inv T serves \<sigma>" "t \<in> T" "pc (loc \<sigma> t) = Pretake"
  shows "client_inv T serves (lock_take_step ops t \<sigma>)"
proof -
  let ?l = "(loc \<sigma> t)\<lparr>pc := Check\<rparr>"
  from client_inv_serves [OF assms(1)] obtain W where W: "serves (srv \<sigma>) W (at T Woken (loc \<sigma>))" "set W = at T Blocked (loc \<sigma>)"
    and w: "word_ok T (atom \<sigma>) (loc \<sigma>)" .
  from srv_pretake [OF W(1)] obtain s' where s': "pretake_op ops (owner (prev_val (loc \<sigma> t))) (srv \<sigma>) = Some (0, s')"
    "serves s' W (at T Woken (loc \<sigma>))" by blast
  have "thread_ok t (atom \<sigma>) ?l" using client_inv_thread [OF assms(1,2)] assms(3) by (simp add: pc_simps)
  then have "client_inv T serves (\<sigma>\<lparr>srv := s', loc := (loc \<sigma>)(t := ?l)\<rparr>)"
    using s'(2) W(2) assms(3) by (intro client_inv_srv [OF assms(1) word_ok_local [OF w]]) (simp_all add: at_other)
  then show ?thesis using s'(1) assms(3) by (simp add: lock_take_step_def goto_def)
qed

lemma after_take_0:
  assumes "thread_ok t (atom \<sigma>) (loc \<sigma> t)" "pc (loc \<sigma> t) \<noteq> Outside"
  shows "after_take t 0 \<sigma> = goto t Restart \<sigma>"
proof -
  have "(loc \<sigma> t)\<lparr>elapsed_time := elapsed_time (loc \<sigma> t) + of_int 0\<rparr> = loc \<sigma> t" by simp
  then show ?thesis using assms unfolding after_take_def thread_ok_def by (simp add: Let_def TIMER_EXPIRED_def)
qed

lemma take_inv:
  assumes "client_inv T serves \<sigma>" "t \<in> T" "pc (loc \<sigma> t) = Take"
  shows "client_inv T serves (lock_take_step ops t \<sigma>)"
proof -
  let ?l = "\<lambda>p. (loc \<sigma> t)\<lparr>pc := p\<rparr>" and ?u = "owner (prev_val (loc \<sigma> t))"
  have t: "thread_ok t (atom \<sigma>) (loc \<sigma> t)" by (rule client_inv_thread [OF assms(1,2)])
  then have m: "microsec (loc \<sigma> t) = TIMER_EVENT_INF" using assms(3) by (simp add: thread_ok_def)
  from client_inv_serves [OF assms(1)] obtain W where W: "serves (srv \<sigma>) W (at T Woken (loc \<sigma>))" "set W = at T Blocked (loc \<sigma>)"
    and w: "word_ok T (atom \<sigma>) (loc \<sigma>)" .
  have n: "t \<notin> set W" "t \<notin> at T Woken (loc \<sigma>)" using W(2) assms(3) by (auto simp: at_def)
  have ok: "thread_ok t (atom \<sigma>) (?l Restart)" "thread_ok t (atom \<sigma>) (?l Blocked)" using t assms(3) by (simp_all add: pc_simps)
  show ?thesis
  proof (cases "stamp (srv \<sigma>) = now (srv \<sigma>)")
    case True
    from srv_block [OF W(1) assms(2) n True] obtain s' where s': "take_op ops t ?u TIMER_EVENT_INF (srv \<sigma>) = Some (Block, s')"
      "serves s' (t # W) (at T Woken (loc \<sigma>))" by blast
    have "client_inv T serves (\<sigma>\<lparr>srv := s', loc := (loc \<sigma>)(t := ?l Blocked)\<rparr>)"
      using s'(2) W(2) assms(2,3) by (intro client_inv_srv [where W = "t # W", OF assms(1) word_ok_local [OF w ok(2)]]) (simp_all add: at_other at_into)
    then show ?thesis using s'(1) assms(3) m by (simp add: lock_take_step_def goto_def)
  next
    case False
    from srv_stale [OF W(1) assms(2) n False] obtain s' where s': "take_op ops t ?u TIMER_EVENT_INF (srv \<sigma>) = Some (Return 0, s')"
      "serves s' W (at T Woken (loc \<sigma>))" by blast
    have "client_inv T serves (\<sigma>\<lparr>srv := s', loc := (loc \<sigma>)(t := ?l Restart)\<rparr>)"
      using s'(2) W(2) assms(3) by (intro client_inv_srv [OF assms(1) word_ok_local [OF w ok(1)]]) (simp_all add: at_other)
    moreover have "after_take t 0 (\<sigma>\<lparr>srv := s'\<rparr>) = goto t Restart (\<sigma>\<lparr>srv := s'\<rparr>)" by (rule after_take_0) (use t assms(3) in simp_all)
    ultimately show ?thesis using s'(1) assms(3) m by (simp add: lock_take_step_def goto_def)
  qed
qed

lemma woken_inv:
  assumes "client_inv T serves \<sigma>" "t \<in> T" "pc (loc \<sigma> t) = Woken"
  shows "client_inv T serves (lock_take_step ops t \<sigma>)"
proof -
  let ?l = "(loc \<sigma> t)\<lparr>pc := Restart\<rparr>"
  have t: "thread_ok t (atom \<sigma>) (loc \<sigma> t)" by (rule client_inv_thread [OF assms(1,2)])
  from client_inv_serves [OF assms(1)] obtain W where W: "serves (srv \<sigma>) W (at T Woken (loc \<sigma>))" "set W = at T Blocked (loc \<sigma>)"
    and w: "word_ok T (atom \<sigma>) (loc \<sigma>)" .
  have "t \<in> at T Woken (loc \<sigma>)" using assms(2,3) by (simp add: at_def)
  from srv_woken [OF W(1) this] have s: "woken_op ops t (srv \<sigma>) = Some 0" "serves (srv \<sigma>) W (at T Woken (loc \<sigma>) - {t})" by auto
  have "thread_ok t (atom \<sigma>) ?l" using t assms(3) by (simp add: pc_simps)
  then have "client_inv T serves (\<sigma>\<lparr>srv := srv \<sigma>, loc := (loc \<sigma>)(t := ?l)\<rparr>)"
    using s(2) W(2) assms(3) by (intro client_inv_srv [OF assms(1) word_ok_local [OF w]]) (simp_all add: at_other at_out)
  moreover have "after_take t 0 \<sigma> = goto t Restart \<sigma>" by (rule after_take_0) (use t assms(3) in simp_all)
  ultimately show ?thesis using s(1) assms(3) by (simp add: lock_take_step_def goto_def)
qed

lemma lock_take_step_inv:
  assumes "client_inv T serves \<sigma>" "t \<in> T"
  shows "client_inv T serves (lock_take_step ops t \<sigma>)"
  using restart_inv [OF assms] pretake_inv [OF assms] check_inv [OF assms] contested_inv [OF assms] mark_inv [OF assms]
    asserted_inv [OF assms] take_inv [OF assms] woken_inv [OF assms] commit_inv [OF assms] own_inv [OF assms] assms(1)
  by (cases "pc (loc \<sigma> t)") (simp_all, simp_all add: lock_take_step_def)

text \<open>The steps of \<^verbatim>\<open>lock_release\<close>.\<close>

lemma r_read_inv:
  assumes "client_inv T serves \<sigma>" "t \<in> T" "pc (loc \<sigma> t) = R_read"
  shows "client_inv T serves (lock_release_step ops t \<sigma>)"
proof -
  have t: "thread_ok t (atom \<sigma>) (loc \<sigma> t)" and w: "word_ok T (atom \<sigma>) (loc \<sigma>)"
    using client_inv_thread [OF assms(1,2)] assms(1) by (simp_all add: client_inv_def)
  let ?l = "(loc \<sigma> t)\<lparr>prev_val := atom \<sigma>, pc := if contested (atom \<sigma>) then R_mark else R_commit\<rparr>"
  have o: "owner (atom \<sigma>) = t" using t assms(3) by (simp add: pc_simps)
  have "thread_ok t (atom \<sigma>) ?l" using t assms(3) by (auto simp: pc_simps)
  then have "client_inv T serves (\<sigma>\<lparr>atom := atom \<sigma>, loc := (loc \<sigma>)(t := ?l)\<rparr>)"
    using assms(3) by (intro client_inv_word [OF assms(1)] word_ok_local [OF w]) auto
  moreover have "lock_release_step ops t \<sigma> = \<sigma>\<lparr>loc := (loc \<sigma>)(t := ?l)\<rparr>"
    using o assms(3) by (simp add: lock_release_step_def step_defs)
  ultimately show ?thesis by simp
qed

lemma r_mark_inv:
  assumes "client_inv T serves \<sigma>" "t \<in> T" "pc (loc \<sigma> t) = R_mark"
  shows "client_inv T serves (lock_release_step ops t \<sigma>)"
proof -
  let ?a = "(atom \<sigma>)\<lparr>owner := 0, contested := False\<rparr>" and ?l = "(loc \<sigma> t)\<lparr>pc := R_comp\<rparr>"
  have t: "thread_ok t (atom \<sigma>) (loc \<sigma> t)" and w: "word_ok T (atom \<sigma>) (loc \<sigma>)" and z: "0 \<notin> T"
    using client_inv_thread [OF assms(1,2)] assms(1) by (simp_all add: client_inv_def)
  then have o: "owner (atom \<sigma>) = t" "prev_val (loc \<sigma> t) = atom \<sigma>" "t \<noteq> 0" using assms(2,3) pos_member [OF z assms(2)] by (auto simp: pc_simps)
  have "thread_ok t ?a ?l" using t o assms(3) by (simp add: pc_simps)
  then have "client_inv T serves (\<sigma>\<lparr>atom := ?a, loc := (loc \<sigma>)(t := ?l)\<rparr>)"
    using assms(2,3) z o by (intro client_inv_word [OF assms(1)] word_ok_give [OF w]) auto
  then show ?thesis using o assms(3) by (simp add: lock_release_step_def step_defs cos_cmpxchg_def)
qed

lemma r_commit_inv:
  assumes "client_inv T serves \<sigma>" "t \<in> T" "pc (loc \<sigma> t) = R_commit"
  shows "client_inv T serves (lock_release_step ops t \<sigma>)"
proof -
  let ?prev = "prev_val (loc \<sigma> t)" and ?l = "\<lambda>p. (loc \<sigma> t)\<lparr>pc := p\<rparr>"
  have t: "thread_ok t (atom \<sigma>) (loc \<sigma> t)" and w: "word_ok T (atom \<sigma>) (loc \<sigma>)" and z: "0 \<notin> T"
    using client_inv_thread [OF assms(1,2)] assms(1) by (simp_all add: client_inv_def)
  have o: "owner (atom \<sigma>) = t" "owner ?prev = t" "\<not> contested ?prev" "t \<noteq> 0"
    using t assms(3) pos_member [OF z assms(2)] by (auto simp: pc_simps)
  show ?thesis
  proof (cases "atom \<sigma> = ?prev")
    case True
    have "thread_ok t (?prev\<lparr>owner := 0\<rparr>) (?l R_end)" using t o assms(3) by (simp add: pc_simps)
    then have "client_inv T serves (\<sigma>\<lparr>atom := ?prev\<lparr>owner := 0\<rparr>, loc := (loc \<sigma>)(t := ?l R_end)\<rparr>)"
      using assms(2,3) z o by (intro client_inv_word [OF assms(1)] word_ok_give [OF w]) auto
    then show ?thesis using o assms(3) True by (simp add: lock_release_step_def step_defs cos_cmpxchg_def)
  next
    case False
    have "?prev \<noteq> ?prev\<lparr>owner := 0\<rparr>"
    proof
      assume "?prev = ?prev\<lparr>owner := 0\<rparr>"
      then have "owner ?prev = owner (?prev\<lparr>owner := 0\<rparr>)" by (rule arg_cong)
      then show False using o by simp
    qed
    then have "lock_release_step ops t \<sigma> = goto t R_read \<sigma>" using False o assms(3)
      by (simp add: lock_release_step_def Let_def cos_cmpxchg_def)
    moreover have "client_inv T serves (goto t R_read \<sigma>)"
      by (rule goto_inv [OF assms(1)]) (use t assms(3) in \<open>simp_all add: pc_simps\<close>)
    ultimately show ?thesis by simp
  qed
qed

lemma r_end_inv:
  assumes "client_inv T serves \<sigma>" "t \<in> T" "pc (loc \<sigma> t) = R_end"
  shows "client_inv T serves (lock_release_step ops t \<sigma>)"
proof -
  have t: "thread_ok t (atom \<sigma>) (loc \<sigma> t)" by (rule client_inv_thread [OF assms(1,2)])
  then have "lock_release_step ops t \<sigma> = goto t Outside \<sigma>" using assms(3) by (simp add: lock_release_step_def check_def pc_simps)
  then show ?thesis using t assms(3) by (simp only:) (rule goto_inv [OF assms(1)]; simp add: pc_simps)
qed

lemma r_comp_inv:
  assumes "client_inv T serves \<sigma>" "t \<in> T" "pc (loc \<sigma> t) = R_comp"
  shows "client_inv T serves (lock_release_step ops t \<sigma>)"
proof -
  have t: "thread_ok t (atom \<sigma>) (loc \<sigma> t)" by (rule client_inv_thread [OF assms(1,2)])
  from client_inv_serves [OF assms(1)] obtain W where W: "serves (srv \<sigma>) W (at T Woken (loc \<sigma>))" "set W = at T Blocked (loc \<sigma>)"
    and w: "word_ok T (atom \<sigma>) (loc \<sigma>)" .
  have n: "t \<notin> set W" using W(2) assms(3) by (auto simp: at_def)
  from srv_release [OF W(1) n] obtain s' where s': "release_op ops t (srv \<sigma>) = Some (0, W, s')"
    "serves s' [] (at T Woken (loc \<sigma>) \<union> set W)" by blast
  let ?ls = "(\<lambda>u. if u \<in> set W then (loc \<sigma> u)\<lparr>pc := Woken\<rparr> else loc \<sigma> u)(t := (loc \<sigma> t)\<lparr>pc := Outside\<rparr>)"
  have st: "lock_release_step ops t \<sigma> = \<sigma>\<lparr>srv := s', loc := ?ls\<rparr>"
    using s'(1) assms(3) n by (simp add: lock_release_step_def goto_def wake_eq cong: if_cong)
  have "thread_ok u (atom \<sigma>) ((loc \<sigma> u)\<lparr>pc := Woken\<rparr>)" if "u \<in> set W" for u
  proof -
    have "u \<in> T" "pc (loc \<sigma> u) = Blocked" using that W(2) by (simp_all add: at_def)
    with client_inv_thread [OF assms(1), of u] show ?thesis by (simp add: pc_simps)
  qed
  moreover have "thread_ok t (atom \<sigma>) ((loc \<sigma> t)\<lparr>pc := Outside\<rparr>)" using t assms(3) by (simp add: pc_simps)
  ultimately have "word_ok T (atom \<sigma>) ?ls" using w by (simp add: word_ok_def)
  moreover have "at T Woken ?ls = at T Woken (loc \<sigma>) \<union> set W" "at T Blocked ?ls = {}"
    using assms(3) unfolding at_def W(2) [unfolded at_def] by auto
  ultimately have "client_inv T serves (\<sigma>\<lparr>srv := s', loc := ?ls\<rparr>)"
    using s'(2) by (intro client_inv_srv [where W = "[]", OF assms(1)]) simp_all
  then show ?thesis by (simp only: st)
qed

text \<open>Every step of a thread keeps the invariant.\<close>

lemma client_step_inv:
  assumes "client_inv T serves \<sigma>" "t \<in> T"
  shows "client_inv T serves (client_step ops t \<sigma>)"
proof -
  have t: "thread_ok t (atom \<sigma>) (loc \<sigma> t)" and w: "word_ok T (atom \<sigma>) (loc \<sigma>)"
    using client_inv_thread [OF assms] assms(1) by (simp_all add: client_inv_def)
  have "client_inv T serves (lock_take t \<sigma>)" if p: "pc (loc \<sigma> t) = Outside"
  proof -
    let ?l = "(loc \<sigma> t)\<lparr>pc := Restart, microsec := TIMER_EVENT_INF, elapsed_time := 0\<rparr>"
    have "thread_ok t (atom \<sigma>) ?l" using t p by (simp add: pc_simps)
    from client_inv_word [OF assms(1) word_ok_local [OF w this]] p show ?thesis by (simp add: lock_take_def)
  qed
  moreover have "client_inv T serves (goto t R_read \<sigma>)" if "pc (loc \<sigma> t) = Held"
    by (rule goto_inv [OF assms(1)]) (use t that in \<open>simp_all add: pc_simps\<close>)
  ultimately show ?thesis
    using lock_take_step_inv [OF assms] r_read_inv [OF assms] r_mark_inv [OF assms] r_comp_inv [OF assms] r_commit_inv [OF assms] r_end_inv [OF assms]
    by (cases "pc (loc \<sigma> t)") (simp_all add: client_step_def)
qed

lemma client_run_inv:
  "client_inv T serves \<sigma> \<Longrightarrow> set ts \<subseteq> T \<Longrightarrow> client_inv T serves (client_run ops \<sigma> ts)"
  by (induction ts arbitrary: \<sigma>) (simp_all add: client_run_def client_step_inv)

lemma sys_init_inv: "0 \<notin> T \<Longrightarrow> serves s [] {} \<Longrightarrow> client_inv T serves (sys_init s)"
  by (auto simp: client_inv_def sys_init_def lock_init_def word_ok_def pc_simps at_def pos_member intro!: exI [of _ "[]"])

lemma mutual_exclusion:
  assumes "0 \<notin> T" "serves s [] {}" "set ts \<subseteq> T" "t \<in> T" "u \<in> T"
  shows "pc (loc (client_run ops (sys_init s) ts) t) = Held \<Longrightarrow> pc (loc (client_run ops (sys_init s) ts) u) = Held \<Longrightarrow> t = u"
    "pc (loc (client_run ops (sys_init s) ts) t) = Failed n \<Longrightarrow> n = 73"
    "pc (loc (client_run ops (sys_init s) ts) t) \<noteq> No_lock"
  using client_inv_thread [OF client_run_inv [OF sys_init_inv [OF assms(1,2)] assms(3)] assms(4)]
    client_inv_thread [OF client_run_inv [OF sys_init_inv [OF assms(1,2)] assms(3)] assms(5)]
  by (auto simp: pc_simps)

text \<open>A summary of the steps.\<close>

abbreviation (input) pcs :: "'s lock_sys \<Rightarrow> nat \<Rightarrow> lock_pc" where "pcs \<sigma> \<equiv> \<lambda>u. pc (loc \<sigma> u)"
abbreviation (input) view :: "'s lock_sys \<Rightarrow> cos_lock_atomic \<times> (nat \<Rightarrow> lock_pc) \<times> 64 word \<times> 64 word" where
  "view \<sigma> \<equiv> (atom \<sigma>, pcs \<sigma>, stamp (srv \<sigma>), now (srv \<sigma>))"

lemma pcs_upd: "pc l = p \<Longrightarrow> (\<lambda>u. pc (((loc \<sigma>)(t := l)) u)) = (\<lambda>u. pc (loc \<sigma> u))(t := p)"
  by auto

lemma quiet_trans:
  assumes "atom \<sigma>' = atom \<sigma>" "srv \<sigma>' = srv \<sigma>" "loc \<sigma>' = (loc \<sigma>)(t := l)" "quiet (atom \<sigma>) t (pc (loc \<sigma> t)) (pc l)"
  shows "lock_trans T t (view \<sigma>) (view \<sigma>')"
  unfolding assms(1,2,3) pcs_upd [OF refl] by (rule t_quiet) (rule assms(4))

lemma view_trans:
  assumes "lock_trans T t (view \<sigma>) (a, (pcs \<sigma>)(t := p), g, n)"
    "atom \<sigma>' = a" "loc \<sigma>' = (loc \<sigma>)(t := (loc \<sigma> t)\<lparr>pc := p\<rparr>)" "stamp (srv \<sigma>') = g" "now (srv \<sigma>') = n"
  shows "lock_trans T t (view \<sigma>) (view \<sigma>')"
proof -
  have "view \<sigma>' = (a, (pcs \<sigma>)(t := p), g, n)" using assms(2,3,4,5) by auto
  then show ?thesis using assms(1) by metis
qed

lemma goto_trans: "quiet (atom \<sigma>) t (pc (loc \<sigma> t)) p \<Longrightarrow> lock_trans T t (view \<sigma>) (view (goto t p \<sigma>))"
  by (rule quiet_trans [where l = "(loc \<sigma> t)\<lparr>pc := p\<rparr>"]) (simp_all add: goto_def)

lemma restart_trans:
  assumes "client_inv T serves \<sigma>" "t \<in> T" "pc (loc \<sigma> t) = Restart"
  shows "lock_trans T t (view \<sigma>) (view (lock_take_step ops t \<sigma>))"
proof -
  have t: "owner (atom \<sigma>) \<noteq> t" using client_inv_thread [OF assms(1,2)] assms(3) by (simp add: pc_simps)
  let ?p = "if owner (atom \<sigma>) = 0 then if contested (atom \<sigma>) then Failed 41 else Commit
    else if microsec (loc \<sigma> t) = 0 then Returned TIMER_EXPIRED else Pretake"
  have "lock_take_step ops t \<sigma> = goto t ?p (read_atom t \<sigma>)" using t assms(3) by (simp add: lock_take_step_def check_def Let_def)
  then show ?thesis
    using t assms(3) by (intro quiet_trans [where l = "(loc \<sigma> t)\<lparr>prev_val := atom \<sigma>, pc := ?p\<rparr>"]) (simp_all add: step_defs quiet_simps)
qed

lemma local_trans:
  assumes "pc (loc \<sigma> t) = Check \<or> pc (loc \<sigma> t) = Contested \<or> pc (loc \<sigma> t) = Asserted \<or> pc (loc \<sigma> t) = Own \<or> pc (loc \<sigma> t) = Returned r"
  shows "lock_trans T t (view \<sigma>) (view (lock_take_step ops t \<sigma>))"
proof -
  have "\<exists>p. lock_take_step ops t \<sigma> = goto t p \<sigma> \<and> quiet (atom \<sigma>) t (pc (loc \<sigma> t)) p"
    using assms by (elim disjE) (simp_all add: lock_take_step_def check_def quiet_simps, blast+)
  then show ?thesis using goto_trans by (elim exE conjE) simp
qed

lemma mark_trans:
  assumes "pc (loc \<sigma> t) = Mark"
  shows "lock_trans T t (view \<sigma>) (view (lock_take_step ops t \<sigma>))"
proof (cases "atom \<sigma> = prev_val (loc \<sigma> t)")
  case True
  let ?\<sigma> = "\<sigma>\<lparr>atom := (atom \<sigma>)\<lparr>contested := True\<rparr>, loc := (loc \<sigma>)(t := (loc \<sigma> t)\<lparr>pc := Asserted\<rparr>)\<rparr>"
  have "lock_take_step ops t \<sigma> = ?\<sigma>" using True assms by (simp add: lock_take_step_def step_defs cos_cmpxchg_def)
  moreover have "lock_trans T t (view \<sigma>) ((atom \<sigma>)\<lparr>contested := True\<rparr>, (pcs \<sigma>)(t := Asserted), stamp (srv \<sigma>), now (srv \<sigma>))"
    by (rule t_mark) (rule assms)
  ultimately show ?thesis by (intro view_trans) simp_all
next
  case False
  have "\<exists>p. lock_take_step ops t \<sigma> = goto t p \<sigma> \<and> (p = Restart \<or> p = Asserted)"
    using False assms by (auto simp: lock_take_step_def Let_def cos_cmpxchg_def)
  then obtain p where "lock_take_step ops t \<sigma> = goto t p \<sigma>" "p = Restart \<or> p = Asserted" by blast
  moreover from this(2) have "quiet (atom \<sigma>) t (pc (loc \<sigma> t)) p" using assms by (auto simp: quiet_simps)
  ultimately show ?thesis using goto_trans by simp
qed

lemma commit_trans:
  assumes "client_inv T serves \<sigma>" "t \<in> T" "pc (loc \<sigma> t) = Commit"
  shows "lock_trans T t (view \<sigma>) (view (lock_take_step ops t \<sigma>))"
proof (cases "atom \<sigma> = prev_val (loc \<sigma> t)")
  case True
  have o: "owner (atom \<sigma>) = 0" using client_inv_thread [OF assms(1,2)] assms(3) True by (simp add: pc_simps)
  let ?\<sigma> = "\<sigma>\<lparr>atom := (atom \<sigma>)\<lparr>owner := t\<rparr>, loc := (loc \<sigma>)(t := (loc \<sigma> t)\<lparr>pc := Own\<rparr>)\<rparr>"
  have "lock_take_step ops t \<sigma> = ?\<sigma>" using True assms(3) by (simp add: lock_take_step_def step_defs cos_cmpxchg_def)
  moreover have "lock_trans T t (view \<sigma>) ((atom \<sigma>)\<lparr>owner := t\<rparr>, (pcs \<sigma>)(t := Own), stamp (srv \<sigma>), now (srv \<sigma>))"
    by (rule t_commit) (rule assms(3), rule o)
  ultimately show ?thesis by (intro view_trans) simp_all
next
  case False
  have "\<exists>p. lock_take_step ops t \<sigma> = goto t p \<sigma> \<and> (p = Restart \<or> p = Own)"
    using False assms(3) by (auto simp: lock_take_step_def Let_def cos_cmpxchg_def)
  then obtain p where "lock_take_step ops t \<sigma> = goto t p \<sigma>" "p = Restart \<or> p = Own" by blast
  moreover from this(2) have "quiet (atom \<sigma>) t (pc (loc \<sigma> t)) p" using assms(3) by (auto simp: quiet_simps)
  ultimately show ?thesis using goto_trans by simp
qed

lemma pretake_trans:
  assumes "client_inv T serves \<sigma>" "t \<in> T" "pc (loc \<sigma> t) = Pretake"
  shows "lock_trans T t (view \<sigma>) (view (lock_take_step ops t \<sigma>))"
proof -
  from client_inv_serves [OF assms(1)] obtain W where W: "serves (srv \<sigma>) W (at T Woken (loc \<sigma>))" .
  from srv_pretake [OF W] obtain s' where s': "pretake_op ops (owner (prev_val (loc \<sigma> t))) (srv \<sigma>) = Some (0, s')"
    "stamp s' = now (srv \<sigma>)" "now s' = now (srv \<sigma>)" by blast
  have "lock_take_step ops t \<sigma> = \<sigma>\<lparr>srv := s', loc := (loc \<sigma>)(t := (loc \<sigma> t)\<lparr>pc := Check\<rparr>)\<rparr>"
    using s'(1) assms(3) by (simp add: lock_take_step_def goto_def)
  moreover have "lock_trans T t (view \<sigma>) (atom \<sigma>, (pcs \<sigma>)(t := Check), now (srv \<sigma>), now (srv \<sigma>))"
    by (rule t_stamp) (simp_all add: assms(3))
  ultimately show ?thesis using s'(2,3) by (intro view_trans) simp_all
qed

lemma take_trans:
  assumes "client_inv T serves \<sigma>" "t \<in> T" "pc (loc \<sigma> t) = Take"
  shows "lock_trans T t (view \<sigma>) (view (lock_take_step ops t \<sigma>))"
proof -
  let ?u = "owner (prev_val (loc \<sigma> t))"
  have t: "thread_ok t (atom \<sigma>) (loc \<sigma> t)" by (rule client_inv_thread [OF assms(1,2)])
  then have m: "microsec (loc \<sigma> t) = TIMER_EVENT_INF" using assms(3) by (simp add: thread_ok_def)
  from client_inv_serves [OF assms(1)] obtain W where W: "serves (srv \<sigma>) W (at T Woken (loc \<sigma>))" "set W = at T Blocked (loc \<sigma>)" .
  have n: "t \<notin> set W" "t \<notin> at T Woken (loc \<sigma>)" using W(2) assms(3) by (auto simp: at_def)
  show ?thesis
  proof (cases "stamp (srv \<sigma>) = now (srv \<sigma>)")
    case True
    from srv_block [OF W(1) assms(2) n True] obtain s' where s': "take_op ops t ?u TIMER_EVENT_INF (srv \<sigma>) = Some (Block, s')"
      "stamp s' = stamp (srv \<sigma>)" "now s' = now (srv \<sigma>) + 1" by blast
    have "lock_take_step ops t \<sigma> = \<sigma>\<lparr>srv := s', loc := (loc \<sigma>)(t := (loc \<sigma> t)\<lparr>pc := Blocked\<rparr>)\<rparr>"
      using s'(1) assms(3) m by (simp add: lock_take_step_def goto_def)
    moreover have "lock_trans T t (view \<sigma>) (atom \<sigma>, (pcs \<sigma>)(t := Blocked), stamp (srv \<sigma>), now (srv \<sigma>) + 1)"
      by (rule t_block) (rule assms(3), rule True)
    ultimately show ?thesis using s'(2,3) by (intro view_trans) simp_all
  next
    case False
    from srv_stale [OF W(1) assms(2) n False] obtain s' where s': "take_op ops t ?u TIMER_EVENT_INF (srv \<sigma>) = Some (Return 0, s')"
      "stamp s' = now (srv \<sigma>)" "now s' = now (srv \<sigma>)" by blast
    have "after_take t 0 (\<sigma>\<lparr>srv := s'\<rparr>) = goto t Restart (\<sigma>\<lparr>srv := s'\<rparr>)" by (rule after_take_0) (use t assms(3) in simp_all)
    then have "lock_take_step ops t \<sigma> = \<sigma>\<lparr>srv := s', loc := (loc \<sigma>)(t := (loc \<sigma> t)\<lparr>pc := Restart\<rparr>)\<rparr>"
      using s'(1) assms(3) m by (simp add: lock_take_step_def goto_def)
    moreover have "lock_trans T t (view \<sigma>) (atom \<sigma>, (pcs \<sigma>)(t := Restart), now (srv \<sigma>), now (srv \<sigma>))"
      by (rule t_stamp) (simp_all add: assms(3))
    ultimately show ?thesis using s'(2,3) by (intro view_trans) simp_all
  qed
qed

lemma woken_trans:
  assumes "client_inv T serves \<sigma>" "t \<in> T" "pc (loc \<sigma> t) = Woken"
  shows "lock_trans T t (view \<sigma>) (view (lock_take_step ops t \<sigma>))"
proof -
  have t: "thread_ok t (atom \<sigma>) (loc \<sigma> t)" by (rule client_inv_thread [OF assms(1,2)])
  from client_inv_serves [OF assms(1)] obtain W where W: "serves (srv \<sigma>) W (at T Woken (loc \<sigma>))" .
  have "t \<in> at T Woken (loc \<sigma>)" using assms(2,3) by (simp add: at_def)
  from srv_woken [OF W this] have s: "woken_op ops t (srv \<sigma>) = Some 0" by blast
  have "after_take t 0 \<sigma> = goto t Restart \<sigma>" by (rule after_take_0) (use t assms(3) in simp_all)
  then have "lock_take_step ops t \<sigma> = goto t Restart \<sigma>" using s assms(3) by (simp add: lock_take_step_def)
  moreover have "quiet (atom \<sigma>) t (pc (loc \<sigma> t)) Restart" using assms(3) by (simp add: quiet_simps)
  ultimately show ?thesis using goto_trans by simp
qed

lemma r_local_trans:
  assumes "pc (loc \<sigma> t) = R_read \<or> pc (loc \<sigma> t) = R_end"
  shows "lock_trans T t (view \<sigma>) (view (lock_release_step ops t \<sigma>))"
  using assms
proof
  assume p: "pc (loc \<sigma> t) = R_read"
  let ?p = "if owner (atom \<sigma>) = t then if contested (atom \<sigma>) then R_mark else R_commit else Failed 128"
  have "lock_release_step ops t \<sigma> = goto t ?p (read_atom t \<sigma>)" using p by (simp add: lock_release_step_def check_def Let_def)
  then show ?thesis
    using p by (intro quiet_trans [where l = "(loc \<sigma> t)\<lparr>prev_val := atom \<sigma>, pc := ?p\<rparr>"]) (simp_all add: step_defs quiet_simps)
next
  assume p: "pc (loc \<sigma> t) = R_end"
  have "\<exists>p. lock_release_step ops t \<sigma> = goto t p \<sigma> \<and> quiet (atom \<sigma>) t (pc (loc \<sigma> t)) p"
    using p by (simp add: lock_release_step_def check_def quiet_simps) blast
  then show ?thesis using goto_trans by (elim exE conjE) simp
qed

lemma r_mark_trans:
  assumes "client_inv T serves \<sigma>" "t \<in> T" "pc (loc \<sigma> t) = R_mark"
  shows "lock_trans T t (view \<sigma>) (view (lock_release_step ops t \<sigma>))"
proof -
  let ?a = "(atom \<sigma>)\<lparr>owner := 0, contested := False\<rparr>"
  have "prev_val (loc \<sigma> t) = atom \<sigma>" using client_inv_thread [OF assms(1,2)] assms(3) by (simp add: pc_simps)
  then have "lock_release_step ops t \<sigma> = \<sigma>\<lparr>atom := ?a, loc := (loc \<sigma>)(t := (loc \<sigma> t)\<lparr>pc := R_comp\<rparr>)\<rparr>"
    using assms(3) by (simp add: lock_release_step_def step_defs cos_cmpxchg_def)
  moreover have "lock_trans T t (view \<sigma>) (?a, (pcs \<sigma>)(t := R_comp), stamp (srv \<sigma>), now (srv \<sigma>))"
    by (rule t_r_mark) (rule assms(3))
  ultimately show ?thesis by (intro view_trans) simp_all
qed

lemma r_commit_trans:
  assumes "client_inv T serves \<sigma>" "t \<in> T" "pc (loc \<sigma> t) = R_commit"
  shows "lock_trans T t (view \<sigma>) (view (lock_release_step ops t \<sigma>))"
proof -
  let ?prev = "prev_val (loc \<sigma> t)"
  have t: "\<not> contested ?prev" "t \<noteq> 0"
    using client_inv_thread [OF assms(1,2)] assms(1,3) pos_member [OF _ assms(2)] by (auto simp: pc_simps client_inv_def)
  show ?thesis
  proof (cases "atom \<sigma> = ?prev")
    case True
    have "lock_release_step ops t \<sigma> = \<sigma>\<lparr>atom := ?prev\<lparr>owner := 0\<rparr>, loc := (loc \<sigma>)(t := (loc \<sigma> t)\<lparr>pc := R_end\<rparr>)\<rparr>"
      using t assms(3) True by (simp add: lock_release_step_def step_defs cos_cmpxchg_def)
    moreover have "lock_trans T t (view \<sigma>) (?prev\<lparr>owner := 0\<rparr>, (pcs \<sigma>)(t := R_end), stamp (srv \<sigma>), now (srv \<sigma>))"
      by (rule t_r_commit) (use assms(3) t(1) True in simp_all)
    ultimately show ?thesis by (intro view_trans) simp_all
  next
    case False
    have "\<exists>p. lock_release_step ops t \<sigma> = goto t p \<sigma> \<and> (p = R_read \<or> p = R_end)"
      using False assms(3) t by (auto simp: lock_release_step_def Let_def cos_cmpxchg_def)
    then obtain p where "lock_release_step ops t \<sigma> = goto t p \<sigma>" "p = R_read \<or> p = R_end" by blast
    moreover from this(2) have "quiet (atom \<sigma>) t (pc (loc \<sigma> t)) p" using assms(3) by (auto simp: quiet_simps)
    ultimately show ?thesis using goto_trans by simp
  qed
qed

lemma r_comp_trans:
  assumes "client_inv T serves \<sigma>" "t \<in> T" "pc (loc \<sigma> t) = R_comp"
  shows "lock_trans T t (view \<sigma>) (view (lock_release_step ops t \<sigma>))"
proof -
  from client_inv_serves [OF assms(1)] obtain W where W: "serves (srv \<sigma>) W (at T Woken (loc \<sigma>))" "set W = at T Blocked (loc \<sigma>)" .
  have n: "t \<notin> set W" using W(2) assms(3) by (auto simp: at_def)
  from srv_release [OF W(1) n] obtain s' where s': "release_op ops t (srv \<sigma>) = Some (0, W, s')"
    "stamp s' = stamp (srv \<sigma>)" "now s' = now (srv \<sigma>) + 1" by blast
  let ?ls = "(\<lambda>u. if u \<in> set W then (loc \<sigma> u)\<lparr>pc := Woken\<rparr> else loc \<sigma> u)(t := (loc \<sigma> t)\<lparr>pc := Outside\<rparr>)"
  let ?P = "(\<lambda>u. if u \<in> T \<and> pcs \<sigma> u = Blocked then Woken else pcs \<sigma> u)(t := Outside)"
  have "lock_release_step ops t \<sigma> = \<sigma>\<lparr>srv := s', loc := ?ls\<rparr>"
    using s'(1) assms(3) n by (simp add: lock_release_step_def goto_def wake_eq cong: if_cong)
  moreover have "(\<lambda>u. pc (?ls u)) = ?P" unfolding W(2) at_def by auto
  ultimately have "view (lock_release_step ops t \<sigma>) = (atom \<sigma>, ?P, stamp (srv \<sigma>), now (srv \<sigma>) + 1)" using s'(2,3) by simp
  moreover have "lock_trans T t (view \<sigma>) (atom \<sigma>, ?P, stamp (srv \<sigma>), now (srv \<sigma>) + 1)"
    by (rule t_release) (rule assms(3))
  ultimately show ?thesis by metis
qed

lemma client_step_trans:
  assumes "client_inv T serves \<sigma>" "t \<in> T"
  shows "lock_trans T t (view \<sigma>) (view (client_step ops t \<sigma>))"
proof -
  have "lock_trans T t (view \<sigma>) (view (lock_take t \<sigma>))" if "pc (loc \<sigma> t) = Outside"
    by (rule quiet_trans [where l = "(loc \<sigma> t)\<lparr>pc := Restart, microsec := TIMER_EVENT_INF, elapsed_time := 0\<rparr>"])
      (simp_all add: lock_take_def quiet_simps that)
  moreover have "lock_trans T t (view \<sigma>) (view (goto t R_read \<sigma>))" if "pc (loc \<sigma> t) = Held"
    by (rule goto_trans) (simp add: that quiet_simps)
  moreover have "lock_trans T t (view \<sigma>) (view \<sigma>)" if "pc (loc \<sigma> t) \<in> {Blocked, No_lock} \<union> range Failed"
    by (rule quiet_trans [where l = "loc \<sigma> t"]) (use that in \<open>auto simp: quiet_simps\<close>)
  ultimately show ?thesis
    using restart_trans [OF assms] local_trans [of \<sigma> t] mark_trans [of \<sigma> t] commit_trans [OF assms] pretake_trans [OF assms]
      take_trans [OF assms] woken_trans [OF assms] r_local_trans [of \<sigma> t] r_mark_trans [OF assms] r_commit_trans [OF assms] r_comp_trans [OF assms]
    by (cases "pc (loc \<sigma> t)") (simp_all add: client_step_def, simp_all add: lock_take_step_def)
qed

lemma client_inv_view:
  assumes "client_inv {t, u} serves \<sigma>"
  shows "view_ok t u (view \<sigma>)"
  using client_inv_thread [OF assms, of t] client_inv_thread [OF assms, of u] assms
  by (auto simp: view_ok_def thread_ok_def client_inv_def word_ok_def)

lemma two_threads_run:
  assumes "T = {t, u}" "t \<noteq> u" "client_inv T serves \<sigma>" "heard t u (view \<sigma>)" "heard u t (view \<sigma>)" "recent k (view \<sigma>)"
    "set ts \<subseteq> T" "k + length ts < 2 ^ 64"
  shows "heard t u (view (client_run ops \<sigma> ts))"
  using assms(3-8)
proof (induction ts arbitrary: \<sigma> k)
  case Nil
  then show ?case by (simp add: client_run_def)
next
  case (Cons x ts)
  let ?\<sigma> = "client_step ops x \<sigma>"
  have x: "x \<in> T" and k: "k < 2 ^ 64 - 1" using Cons.prems(5,6) by simp_all
  have tr: "lock_trans T x (view \<sigma>) (view ?\<sigma>)" by (rule client_step_trans [OF Cons.prems(1) x])
  have v: "view_ok t u (view \<sigma>)" "view_ok u t (view \<sigma>)" using Cons.prems(1) assms(1) client_inv_view by (auto simp: insert_commute)
  have "heard t u (view ?\<sigma>) \<and> heard u t (view ?\<sigma>)"
  proof (cases "x = t")
    case True
    show ?thesis by (rule heard_step [OF _ Cons.prems(2,3) v(1) assms(2) Cons.prems(4) k]) (use tr True assms(1) in simp)
  next
    case False
    then have u: "x = u" using x assms(1) by simp
    have "heard u t (view ?\<sigma>) \<and> heard t u (view ?\<sigma>)"
      by (rule heard_step [OF _ Cons.prems(3,2) v(2) assms(2) [symmetric] Cons.prems(4) k]) (use tr u assms(1) in \<open>simp add: insert_commute\<close>)
    then show ?thesis by blast
  qed
  moreover have "recent (k + 1) (view ?\<sigma>)" by (rule recent_step [OF tr Cons.prems(4) k])
  moreover have "client_inv T serves ?\<sigma>" by (rule client_step_inv [OF Cons.prems(1) x])
  ultimately have "heard t u (view (client_run ops ?\<sigma> ts))" using Cons.prems(5,6) by (intro Cons.IH [where k = "k + 1"]) auto
  then show ?case by (simp add: client_run_def)
qed

lemma two_threads_no_lost_wakeup:
  assumes "T = {t, u}" "t \<noteq> u" "0 \<notin> T" "serves s [] {}" "stamp s = 0" "set ts \<subseteq> T" "unat (now s) + length ts < 2 ^ 64"
    "pc (loc (client_run ops (sys_init s) ts) t) = Blocked"
  shows "pc (loc (client_run ops (sys_init s) ts) u) = R_comp
    \<or> in_cs (pc (loc (client_run ops (sys_init s) ts) u)) \<and> contested (atom (client_run ops (sys_init s) ts))"
proof -
  let ?\<sigma> = "client_run ops (sys_init s) ts"
  have i: "client_inv T serves (sys_init s)" by (rule sys_init_inv [OF assms(3,4)])
  have "heard t u (view (sys_init s))" "heard u t (view (sys_init s))" "recent (unat (now s)) (view (sys_init s))"
    using assms(5) by (simp_all add: heard_def recent_def sys_init_def lock_init_def waits_def)
  then have h: "heard t u (view ?\<sigma>)" by (rule two_threads_run [OF assms(1,2) i _ _ _ assms(6,7)])
  have "view_ok t u (view ?\<sigma>)" using client_run_inv [OF i assms(6)] assms(1) by (intro client_inv_view) simp
  with h assms(8) show ?thesis by (auto simp: heard_def view_ok_def in_cs_def)
qed

end

subsection \<open>The lock component keeps the contract\<close>

definition two_phase :: "nat \<Rightarrow> u32 \<Rightarrow> lock_comp lock_ops" where
  "two_phase spd lid = \<lparr>
     pretake_op = lock_component_pretake (True, True) spd lid,
     take_op = (\<lambda>cur owner microsec. lock_component_take (True, True) cur spd lid owner microsec),
     woken_op = lock_component_woken,
     release_op = (\<lambda>cur. lock_component_release (True, True) cur spd lid)\<rparr>"

definition lock_stamp :: "nat \<Rightarrow> u32 \<Rightarrow> lock_comp \<Rightarrow> 64 word" where
  "lock_stamp spd lid s = (case lock_find lid spd s of Some (Some i) \<Rightarrow> gen_num (meta_locks s i) | _ \<Rightarrow> 0)"

text \<open>The lock is number \<open>i\<close>, and the threads \<open>T\<close> wait for no other lock.\<close>

definition lock_at :: "nat \<Rightarrow> u32 \<Rightarrow> nat set \<Rightarrow> lock_comp \<Rightarrow> nat list \<Rightarrow> (nat \<Rightarrow> nat list) \<Rightarrow> nat \<Rightarrow> nat set \<Rightarrow> bool" where
  "lock_at spd lid T s L V i R \<longleftrightarrow> lock_ok s L V \<and> find (matches s lid spd) L = Some i
     \<and> (\<forall>j \<in> set L. j \<noteq> i \<longrightarrow> set (V j) \<inter> T = {}) \<and> (\<forall>t \<in> R. t \<notin> set (V i) \<and> ring (b_thds s) [BThd t])"

definition lock_serves :: "nat \<Rightarrow> u32 \<Rightarrow> nat set \<Rightarrow> lock_comp \<Rightarrow> nat list \<Rightarrow> nat set \<Rightarrow> bool" where
  "lock_serves spd lid T s W R \<longleftrightarrow> (\<exists>L V i. lock_at spd lid T s L V i R \<and> V i = W)"

lemma lock_at_facts:
  assumes "lock_at spd lid T s L V i R"
  shows "lock_ok s L V" "find (matches s lid spd) L = Some i" "i \<in> set L" "lock_stamp spd lid s = gen_num (meta_locks s i)"
    "\<And>j. j \<in> set L \<Longrightarrow> j \<noteq> i \<Longrightarrow> set (V j) \<inter> T = {}" "\<And>t. t \<in> R \<Longrightarrow> t \<notin> set (V i) \<and> ring (b_thds s) [BThd t]"
proof -
  show ok: "lock_ok s L V" and f: "find (matches s lid spd) L = Some i" using assms by (simp_all add: lock_at_def)
  show "i \<in> set L" using f by (auto simp: find_Some_iff)
  show "lock_stamp spd lid s = gen_num (meta_locks s i)" using lock_find_ok [OF ok] f by (simp add: lock_stamp_def)
qed (use assms in \<open>auto simp: lock_at_def\<close>)

lemma matches_cong:
  assumes "\<And>j. ml_lock_id (meta_locks s' j) = ml_lock_id (meta_locks s j)" "\<And>j. ml_spd (meta_locks s' j) = ml_spd (meta_locks s j)"
  shows "matches s' lid spd = matches s lid spd"
  using assms by (simp add: matches_def fun_eq_iff)

text \<open>Noting the generation of the lock.\<close>

lemma lock_at_stamp:
  assumes "lock_at spd lid T s L V i R"
  defines "s' \<equiv> s\<lparr>meta_locks := (meta_locks s)(i := (meta_locks s i)\<lparr>gen_num := generation s\<rparr>)\<rparr>"
  shows "lock_serves spd lid T s' (V i) R \<and> lock_stamp spd lid s' = generation s \<and> generation s' = generation s"
proof -
  have "matches s' lid spd = matches s lid spd" by (rule matches_cong) (simp_all add: s'_def)
  moreover have "lock_ok s' L V = lock_ok s L V" by (rule lock_ok_cong) (simp_all add: s'_def)
  ultimately have "lock_at spd lid T s' L V i R" using assms(1) by (simp add: lock_at_def s'_def)
  then show ?thesis using lock_at_facts(4) [of spd lid T s' L V i R] by (auto simp: lock_serves_def s'_def)
qed

lemma serves_pretake:
  assumes "lock_serves spd lid T s W R"
  shows "\<exists>s'. lock_component_pretake (True, True) spd lid u s = Some (0, s') \<and> lock_serves spd lid T s' W R
    \<and> lock_stamp spd lid s' = generation s \<and> generation s' = generation s"
proof -
  from assms obtain L V i where a: "lock_at spd lid T s L V i R" "V i = W" by (auto simp: lock_serves_def)
  from pretake_ok [OF lock_at_facts(1,2) [OF a(1)], of u] lock_at_stamp [OF a(1)] a(2) show ?thesis by blast
qed

lemma serves_stale:
  assumes "lock_serves spd lid T s W R" "t \<notin> set W" "lock_stamp spd lid s \<noteq> generation s"
  shows "\<exists>s'. lock_component_take (True, True) t spd lid u TIMER_EVENT_INF s = Some (Return 0, s') \<and> lock_serves spd lid T s' W R
    \<and> lock_stamp spd lid s' = generation s \<and> generation s' = generation s"
proof -
  from assms(1) obtain L V i where a: "lock_at spd lid T s L V i R" "V i = W" by (auto simp: lock_serves_def)
  note f = lock_at_facts [OF a(1)]
  have "t \<notin> set (V i)" "gen_num (meta_locks s i) \<noteq> generation s" using a(2) f(4) assms(2,3) by simp_all
  from take_stale [OF f(1,2,3) this, of u] lock_at_stamp [OF a(1)] a(2) show ?thesis by blast
qed

lemma serves_block:
  assumes "lock_serves spd lid T s W R" "t \<in> T" "t \<notin> set W" "t \<notin> R" "lock_stamp spd lid s = generation s"
  shows "\<exists>s'. lock_component_take (True, True) t spd lid u TIMER_EVENT_INF s = Some (Block, s') \<and> lock_serves spd lid T s' (t # W) R
    \<and> lock_stamp spd lid s' = lock_stamp spd lid s \<and> generation s' = generation s + 1"
proof -
  from assms(1) obtain L V i where a: "lock_at spd lid T s L V i R" "V i = W" by (auto simp: lock_serves_def)
  note f = lock_at_facts [OF a(1)]
  have "t \<notin> set (V j)" if "j \<in> set L" for j using f(5) [OF that] a(2) assms(2,3) by (cases "j = i") auto
  from take_blocks [OF f(1,2,3) this, of u] f(4) assms(5) obtain s' where
    s': "lock_component_take (True, True) t spd lid u TIMER_EVENT_INF s = Some (Block, s')" "lock_ok s' L (V(i := t # V i))"
      "meta_locks s' = meta_locks s" "generation s' = generation s + 1"
      "\<forall>x. x \<noteq> t \<longrightarrow> x \<notin> set (V i) \<longrightarrow> ring (b_thds s') [BThd x] = ring (b_thds s) [BThd x]" by auto
  have "matches s' lid spd = matches s lid spd" by (rule matches_cong) (simp_all add: s'(3))
  moreover have "x \<notin> set (t # V i) \<and> ring (b_thds s') [BThd x]" if "x \<in> R" for x
    using s'(5) f(6) [OF that] that assms(4) by auto
  ultimately have "lock_at spd lid T s' L (V(i := t # V i)) i R" using s'(2) f(2,5) by (simp add: lock_at_def)
  moreover from this have "lock_serves spd lid T s' (t # W) R"
    unfolding lock_serves_def using a(2) by (intro exI [of _ L] exI [of _ "V(i := t # V i)"] exI [of _ i]) simp
  ultimately show ?thesis using lock_at_facts(4) [of spd lid T s'] s'(1,3,4) f(4) by auto
qed

lemma serves_woken:
  assumes "lock_serves spd lid T s W R" "t \<in> R"
  shows "lock_component_woken t s = Some 0 \<and> lock_serves spd lid T s W (R - {t})"
proof -
  from assms(1) obtain L V i where a: "lock_at spd lid T s L V i R" "V i = W" by (auto simp: lock_serves_def)
  then have "lock_at spd lid T s L V i (R - {t})" by (simp add: lock_at_def)
  moreover have "lock_component_woken t s = Some 0"
    using lock_at_facts(6) [OF a(1) assms(2)] by (simp add: lock_component_woken_def EMPTY_LIST_def ring_single)
  ultimately show ?thesis using a(2) by (auto simp: lock_serves_def)
qed

lemma serves_release:
  assumes "lock_serves spd lid T s W R" "t \<notin> set W"
  shows "\<exists>s'. lock_component_release (True, True) t spd lid s = Some (0, W, s') \<and> lock_serves spd lid T s' [] (R \<union> set W)
    \<and> lock_stamp spd lid s' = lock_stamp spd lid s \<and> generation s' = generation s + 1"
proof -
  from assms(1) obtain L V i where a: "lock_at spd lid T s L V i R" "V i = W" by (auto simp: lock_serves_def)
  note f = lock_at_facts [OF a(1)]
  have "t \<notin> set (V i)" using a(2) assms(2) by simp
  from release_ok [OF f(1,2,3) this] obtain l where
    l: "lock_component_release (True, True) t spd lid s = Some (0, V i, s\<lparr>generation := generation s + 1, b_thds := l\<rparr>)"
      "lock_ok (s\<lparr>generation := generation s + 1, b_thds := l\<rparr>) L (V(i := []))" "\<forall>x \<in> set (V i). ring l [BThd x]"
      "\<forall>x. x \<notin> set (V i) \<longrightarrow> ring l [BThd x] = ring (b_thds s) [BThd x]" by blast
  let ?s = "s\<lparr>generation := generation s + 1, b_thds := l\<rparr>"
  have "matches ?s lid spd = matches s lid spd" by (rule matches_cong) simp_all
  moreover have "ring l [BThd x]" if "x \<in> R \<union> set (V i)" for x using that l(3,4) f(6) by blast
  ultimately have "lock_at spd lid T ?s L (V(i := [])) i (R \<union> set W)" using l(2) f(2,5) a(2) by (auto simp: lock_at_def)
  moreover from this have "lock_serves spd lid T ?s [] (R \<union> set W)"
    unfolding lock_serves_def by (intro exI [of _ L] exI [of _ "V(i := [])"] exI [of _ i]) simp
  ultimately show ?thesis using lock_at_facts(4) [of spd lid T ?s] l(1) f(4) a(2) by auto
qed

interpretation two_phase: lock_service "two_phase spd lid" T "lock_serves spd lid T" "lock_stamp spd lid" generation
  for spd :: nat and lid :: u32 and T :: "nat set"
  by (unfold_locales, unfold two_phase_def lock_ops.simps)
    (blast intro: serves_pretake serves_stale serves_block serves_release dest: serves_woken)+

text \<open>A new lock serves threads that wait for no other lock.\<close>

lemma alloc_serves:
  assumes "lock_ok s0 L V" "m \<notin> set L" "\<forall>j \<in> set L. set (V j) \<inter> T = {}" "lock_component_alloc (True, True) (Some m) spd s0 = Some (lid, s)"
  shows "lock_serves spd lid T s [] {}" "lock_stamp spd lid s = 0" "generation s = generation s0"
proof -
  from alloc_ok [OF assms(1,2), of spd] assms(4) have a: "lock_ok s (m # L) (V(m := []))" "matches s lid spd m"
    "gen_num (meta_locks s m) = 0" "generation s = generation s0" by auto
  then have "lock_at spd lid T s (m # L) (V(m := [])) m {}" using assms(3) by (auto simp: lock_at_def)
  from lock_at_facts(4) [OF this] a(3,4) show "lock_stamp spd lid s = 0" "generation s = generation s0" by simp_all
  show "lock_serves spd lid T s [] {}"
    unfolding lock_serves_def using \<open>lock_at spd lid T s (m # L) (V(m := [])) m {}\<close>
    by (intro exI [of _ "m # L"] exI [of _ "V(m := [])"] exI [of _ m]) simp
qed

subsection \<open>Properties\<close>


text \<open>C5.  With two threads no wake-up is lost: whenever one of them sleeps in the component, the other one holds the
lock and sees that it is contested, or is on its way to the component to wake it.  The generation counter must
not wrap around during the run.\<close>

theorem lock_two_threads_awake:
  assumes "lock_ok s0 L V" "m \<notin> set L" "\<forall>j \<in> set L. set (V j) \<inter> {t, u} = {}" "lock_component_alloc (True, True) (Some m) spd s0 = Some (lid, s)"
    "0 < t" "0 < u" "t \<noteq> u" "set ts \<subseteq> {t, u}" "unat (generation s0) + length ts < 2 ^ 64"
    "pc (loc (client_run (two_phase spd lid) (sys_init s) ts) t) = Blocked"
  shows "let \<sigma> = client_run (two_phase spd lid) (sys_init s) ts
    in pc (loc \<sigma> u) = R_comp \<or> in_cs (pc (loc \<sigma> u)) \<and> atom \<sigma> = \<lparr>owner = u, contested = True\<rparr>"
proof -
  let ?\<sigma> = "client_run (two_phase spd lid) (sys_init s) ts"
  note a = alloc_serves [OF assms(1-4)]
  have z: "0 \<notin> {t, u}" using assms(5,6) by simp
  have "client_inv {t, u} (lock_serves spd lid {t, u}) ?\<sigma>"
    by (rule two_phase.client_run_inv [OF two_phase.sys_init_inv [OF z a(1)] assms(8)])
  then have "in_cs (pc (loc ?\<sigma> u)) \<longleftrightarrow> owner (atom ?\<sigma>) = u" by (auto simp: client_inv_def word_ok_def thread_ok_def)
  moreover have "pc (loc ?\<sigma> u) = R_comp \<or> in_cs (pc (loc ?\<sigma> u)) \<and> contested (atom ?\<sigma>)"
    by (rule two_phase.two_threads_no_lost_wakeup [OF refl assms(7) z a(1,2) assms(8)]) (use a(3) assms(9,10) in simp_all)
  ultimately show ?thesis unfolding Let_def by (auto intro: atom_eqI)
qed

text \<open>A component without locks, and one with a lock for component 6.\<close>

definition lock_comp0 :: lock_comp where
  "lock_comp0 = \<lparr>meta_locks = (\<lambda>_. \<lparr>ml_owner = 0, ml_spd = 0, ml_lock_id = 0, gen_num = 0\<rparr>),
     locks_l = \<lparr>lnext = id, lprev = id\<rparr>, b_thds = \<lparr>lnext = id, lprev = id\<rparr>, b_timed = (\<lambda>_. False), next_lock_id = 1, generation = 0\<rparr>"

definition lock_comp1 :: lock_comp where
  "lock_comp1 = snd (the (lock_component_alloc (True, True) (Some 0) 6 lock_comp0))"

lemma lock_comp0_ok: "lock_ok lock_comp0 [] (\<lambda>_. [])"
  by (simp add: lock_ok_def lock_comp0_def ring_single)

lemma lock_comp1_alloc: "lock_component_alloc (True, True) (Some 0) 6 lock_comp0 = Some (1, lock_comp1)"
  using alloc_ok [OF lock_comp0_ok, of 0 6] by (auto simp: lock_comp1_def lock_comp0_def)


theorem lock_two_threads_awake_witness:
  "pc (loc (client_run (two_phase 6 1) (sys_init lock_comp1) ([2, 2, 2, 2, 2] @ replicate 8 1)) 1) = Blocked
   \<and> atom (client_run (two_phase 6 1) (sys_init lock_comp1) ([2, 2, 2, 2, 2] @ replicate 8 1)) = \<lparr>owner = 2, contested = True\<rparr>"
proof -
  let ?ts = "[2, 2, 2, 2, 2] @ replicate 8 1"
  have b: "pc (loc (client_run (two_phase 6 1) (sys_init lock_comp1) ?ts) 1) = Blocked" by code_simp
  have h: "pc (loc (client_run (two_phase 6 1) (sys_init lock_comp1) ?ts) 2) = Held" by code_simp
  have s: "set ?ts \<subseteq> {1, 2}" by auto
  have "let \<sigma> = client_run (two_phase 6 1) (sys_init lock_comp1) ?ts
    in pc (loc \<sigma> 2) = R_comp \<or> in_cs (pc (loc \<sigma> 2)) \<and> atom \<sigma> = \<lparr>owner = 2, contested = True\<rparr>"
    by (rule lock_two_threads_awake [OF lock_comp0_ok _ _ lock_comp1_alloc _ _ _ s _ b]) (simp_all add: lock_comp0_def)
  then show ?thesis using b h by (simp add: Let_def)
qed

text \<open>The threads that make a step, in order.\<close>

definition lost_wakeup_run :: "nat list" where
  "lost_wakeup_run = replicate 5 2 @ replicate 7 1 @ replicate 9 2 @ replicate 3 3 @ replicate 4 2 @ replicate 9 3 @ [1]"


end
