(* ===== verification/Spec2Isabelle.thy ===== *)
theory Spec2Isabelle
  imports Host Cos_Heap Event_Flow Block_Wake Lock_Client
begin

text \<open>
  Composite is a component-based operating system for 32-bit x86, run as a module inside Linux.  Components
  (\<^verbatim>\<open>spd\<close> in the code) live in protection domains and call each other through capabilities; a thread keeps a
  stack of the components it is in.  The kernel knows no scheduling policy: scheduler components decide, and
  the kernel reports to them what interrupts do through a page it shares with each of them.  This
  development models the kernel, and of the components the scheduler, the locks and the libraries under
  them.  All files named below are under \<^verbatim>\<open>src/src/\<close>.

  \<^bold>\<open>Conventions.\<close>  A C function is a HOL function of the same name that takes the state and gives the result
  with the new state.  Its value is in \<open>option\<close> when the code can fail; \<open>None\<close> is a failed assertion or
  \<^verbatim>\<open>BUG()\<close>, a \<^verbatim>\<open>NULL\<close> that is dereferenced, an access outside an array, or a loop that does not end.  Error
  codes are ordinary results.  Integers keep the width of the C type as words, where the code computes with
  them; numbers of descriptors are \<open>nat\<close>.  Pointers to descriptors are their indices.  A loop whose end is not
  evident is a \<open>partial_function\<close>, and its own definition carries the suffix \<open>_loop\<close> or a name for the body.
  What Linux, the processor and components outside the model answer are arguments or fields of the state on
  which nothing is assumed.

  \<^bold>\<open>The kernel.\<close>
  \<^item> \<open>Cos_Prelude\<close>: machine types, failing computations, folds that can fail, lists threaded through arrays.
    The locale \<open>free_stack\<close> is the contract of a pool of descriptors linked through a field (what was put
    back last is handed out next, nothing is handed out twice); \<open>ring_loop\<close> is that of a loop around a ring
    of members (it ends, and visits each member once).
  \<^item> \<open>Kernel_Types\<close>: the structures of \<^verbatim>\<open>kernel/include/spd.h\<close>, \<^verbatim>\<open>thread.h\<close>, \<^verbatim>\<open>mmap.h\<close> and
    \<^verbatim>\<open>shared/cos_types.h\<close> as records, and the record \<open>kstate\<close> of all kernel variables.
  \<^item> \<open>Kernel_Memory\<close>: \<^verbatim>\<open>kernel/page_pool.c\<close>, \<^verbatim>\<open>kernel/mmap.c\<close> and the page-table routines of
    \<^verbatim>\<open>platform/linux/module/hijack.c\<close>.  Pages and frames round trip; the page pool is a \<open>free_stack\<close>.
  \<^item> \<open>Capabilities\<close>, \<open>Vas\<close>, \<open>Composite_Spd\<close>, \<open>Spd\<close>: \<^verbatim>\<open>kernel/spd.c\<close>.  Capability ranges are found by first
    fit and stay disjoint, the kernel's and the user-level entry of a capability agree; address slots have one
    owner; adding and removing a member of a protection domain moves exactly the capabilities concerned; the
    rings of members end, and descriptors are handed out once (\<open>free_stack\<close>, \<open>ring_loop\<close>).
  \<^item> \<open>Threads\<close>: \<^verbatim>\<open>kernel/thread.c\<close> and \<^verbatim>\<open>kernel/include/thread.h\<close>.  The invocation stack is a bounded stack of
    frames; the authorisation check finds the innermost frame of a component.
  \<^item> \<open>Invocation\<close>: the first part of \<^verbatim>\<open>kernel/inv.c\<close>.  An invocation needs a capability of the caller's
    domain, its return restores what it changed, and the loaded page table is always that of the running
    thread's top frame.
  \<^item> \<open>Event_Queue\<close>, \<open>Scheduling\<close>: the second part of \<^verbatim>\<open>kernel/inv.c\<close>.  Posting events implements a queue
    without duplicates in the shared page; threads are switched only by their schedulers; the chain of
    preempted threads stays doubly linked.
  \<^item> \<open>Brands\<close>: the third part: interrupts as branded upcalls, each of which gets a run of its thread, and the
    scheduler-control call, which keeps the tree of schedulers.
  \<^item> \<open>Protection\<close>: the last part: system calls on components, memory and protection domains.
  \<^item> \<open>Host\<close>: \<^verbatim>\<open>kernel/ring_buff.c\<close> and the interrupt, idle and fault paths of \<^verbatim>\<open>hijack.c\<close>.  Buffers are handed
    out in order; idling loses no wake-up.

  \<^bold>\<open>Libraries of the components.\<close>
  \<^item> \<open>Cos_List\<close>: \<^verbatim>\<open>components/include/cos_list.h\<close>; each macro is an operation on the list of nodes of a ring.
  \<^item> \<open>Bitmap\<close>: \<^verbatim>\<open>components/include/bitmap.h\<close>; the bit tricks agree with a search bit by bit.
  \<^item> \<open>Cos_Heap\<close>: \<^verbatim>\<open>components/lib/heap.c\<close> and its three clients in \<^verbatim>\<open>components/include/mpd_policy.h\<close>.  The
    locale \<open>heap_client\<close> is what the heap expects of the comparison and update functions; it is interpreted for
    each client.  The array implements a priority queue on the multiset of its entries.

  \<^bold>\<open>Schedulers.\<close>
  \<^item> \<open>Cos_Scheduler\<close>: \<^verbatim>\<open>components/implementation/sched/cos_scheduler.c\<close> and \<^verbatim>\<open>cos_scheduler.h\<close>: threads, groups,
    critical sections and dependencies, and the scheduler's side of the event queue.
  \<^item> \<open>Event_Flow\<close>: the kernel and a scheduler interleaved on one queue, as an inductive step relation; the
    invariant says that no news falls behind the scheduler.  The property over both sides is below.
  \<^item> \<open>Fprr\<close>: the policies \<^verbatim>\<open>sched/fprr/fp_rr.c\<close> and \<^verbatim>\<open>sched/ds/deferrable.c\<close>.  Rings and mask implement an array
    of queues; the thread chosen has the highest priority; threads of one priority take turns.
  \<^item> \<open>Sched_Base\<close>: \<^verbatim>\<open>sched/cos_sched_base.c\<close>: blocking, waking, component locks, the reaction to events, the
    timer, creation and removal of threads, and schedulers below this one.
  \<^item> \<open>Block_Wake\<close>: blocking and waking through \<open>Sched_Base\<close>, \<open>Cos_Scheduler\<close>, \<open>Fprr\<close> and \<open>Cos_List\<close> implement an
    abstract scheduler with stored wake-ups; a second wake-up of a sleeping thread fails an assertion.

  \<^bold>\<open>Locks.\<close>
  \<^item> \<open>Lock\<close>: the lock component \<^verbatim>\<open>components/implementation/lock/two_phase/lock.c\<close>; a release wakes exactly the
    waiting threads.
  \<^item> \<open>Lock_Client\<close>: the half of a lock in the client, \<^verbatim>\<open>components/interface/lock/cos_synchronization.c\<close>, as
    program points of threads that can be preempted between any two accesses.  The locale \<open>lock_service\<close> is the
    contract of the component, interpreted on \<open>Lock\<close>.  No two threads hold a lock; with two threads no wake-up
    is lost, and a run with three threads loses one.

  \<^bold>\<open>Bounds.\<close>  Loops over arrays run over the indices of the array, with the sizes of
  \<^verbatim>\<open>kernel/include/shared/consts.h\<close>.  Rings are finite because their nodes are distinct (\<open>ring\<close>), so the loops
  around them return; this is proved where a property speaks of the result.  \<open>process_events_loop\<close> counts down
  the limit that the code has, \<^verbatim>\<open>~0\<close> for no limit; it is enough because a queue has no more entries than the
  page (\<open>evt_chain_fuel\<close>).  Counters that the code lets wrap around wrap in the model; a property that needs a
  bound names it.

  \<^bold>\<open>Not modelled.\<close>  Register saving and dispatch of system calls in assembly (\<^verbatim>\<open>ipc.S\<close>, \<^verbatim>\<open>kern_entry.S\<close>), the Linux
  side of the module (\<^verbatim>\<open>ioctl\<close>, trap tables, \<^verbatim>\<open>hw_ints.c\<close>) and of the network device (\<^verbatim>\<open>cosnet.c\<close>), and the
  loader: their behaviour is that of Linux or of the processor.  Measurement counters and printing: nothing
  reads them.  In the scheduler, the boot sequence and the spin lock around its operations, which run one at
  a time here.  The other components (events, timed blocking, memory and stack managers, network, web server
  and tests) and the libraries only they use: they are clients of the interfaces above.
\<close>

section \<open>The kernel and a scheduler\<close>

text \<open>C2.  No event is lost between the kernel and a scheduler.  Starting with an empty queue and no news,
let the kernel post events and the scheduler take them from the queue, in any order and with the kernel
interrupting the scheduler between the two halves of taking an event.  Whenever the scheduler is not in the
middle of taking an event and then processes its events, \<^verbatim>\<open>cos_sched_process_events\<close> ends, it reports to the
visitor every event that has news at that time, with the flags and cycles the kernel left there, and no event
has news afterwards.\<close>

theorem posted_events_reach_scheduler:
  fixes u :: "'z sched_lib_scheme"
  assumes "evt_queue s\<^sub>0 p (cos_curr_evt u\<^sub>0) []" "\<And>n. \<not> pending (cos_events (sched_areas s\<^sub>0 (shared_page p s\<^sub>0))) n"
    and "(evt_step p)\<^sup>*\<^sup>* (s\<^sub>0, u\<^sub>0, Idle) (s, u, Idle)" and "records fn tr"
  shows "\<exists>v. cos_sched_process_events fn 0 (seen p s u) = Some (0, v)
    \<and> (\<forall>n t. pending (cos_events (sched_areas s (shared_page p s))) n \<and> sched_map_evt_thd u n = Some t \<longrightarrow>
         (t, e_flags (cos_events (sched_areas s (shared_page p s)) n), cpu_consumption (cos_events (sched_areas s (shared_page p s)) n)) \<in> set (tr v))
    \<and> (\<forall>n. \<not> pending (cos_events (notif v)) n)"
proof -
  have "none_lost p (s\<^sub>0, u\<^sub>0, Idle)"
    using assms(1,2) by (intro none_lostI [where xs = "[]"]) (simp_all add: stand_def)
  from flow_process [OF evt_steps_keep [OF assms(3) this] assms(4)] show ?thesis .
qed

text \<open>Thread 4 has event 5 at the scheduler of component 2; an interrupt posts it.\<close>

definition flow_example :: kstate where
  "flow_example = upd_thd 4 (\<lambda>x. x\<lparr>sched_info := (sched_info x)(0 := \<lparr>scheduler = Some 2, thread_notifications = Some (0xC000A000, 5), notification_offset = 5\<rparr>)\<rparr>)
     (upd_spd 2 (\<lambda>x. x\<lparr>kern_sched_shared_page := 0xC000A000, prev_notification := 3\<rparr>) zero_kstate)"

theorem posted_events_reach_scheduler_witness:
  "evt_queue flow_example 2 3 [] \<and> cos_curr_evt traced_example = 3
   \<and> (\<exists>s v. (evt_step 2)\<^sup>*\<^sup>* (flow_example, traced_example, Idle) (s, traced_example, Idle)
        \<and> cos_sched_process_events note_visit 0 (seen 2 s traced_example) = Some (0, v) \<and> (Thd 9, 4, 0) \<in> set (trace v))"
proof -
  have d: "cos_curr_evt traced_example = 3" "sched_map_evt_thd traced_example 5 = Some (Thd 9)" by (simp_all add: traced_example_def)
  have q: "evt_queue flow_example 2 (cos_curr_evt traced_example) []"
    by (simp add: d evt_queue_def evt_chain_def flow_example_def NUM_SCHED_EVTS_def zero_kstate_def zero_area_def)
  have n: "\<not> pending (cos_events (sched_areas flow_example (shared_page 2 flow_example))) n" for n
    by (simp add: pending_def flow_example_def zero_kstate_def zero_area_def)
  have r: "records note_visit trace" by (simp add: records_def note_visit_def upd_nevt_def)
  have po: "posts 2 flow_example 4 0 4 5"
    by (simp add: posts_def flow_example_def shared_page_def NUM_SCHED_EVTS_def has_def COS_SCHED_EVT_FREE_def)
  obtain s where s: "update_thd_evt_state_loop 4 4 0 [0] flow_example = Some s" "shared_page 2 s = 0xC000A000"
    "e_flags (cos_events (sched_areas s 0xC000A000) 5) = 4" "cpu_consumption (cos_events (sched_areas s 0xC000A000) 5) = 0"
    by (simp add: flow_example_def update_evt_list_def upd_evt_def shared_page_def NUM_SCHED_EVTS_def COS_SCHED_EVT_NIL_def zero_kstate_def zero_area_def Let_def)
  have st: "(evt_step 2)\<^sup>*\<^sup>* (flow_example, traced_example, Idle) (s, traced_example, Idle)"
    by (rule r_into_rtranclp, rule evt_step.post [OF po s(1)])
  have "pending (cos_events (sched_areas s (shared_page 2 s))) 5"
    using s by (simp add: pending_def NUM_SCHED_EVTS_def has_def COS_SCHED_EVT_FREE_def)
  moreover from posted_events_reach_scheduler [OF q n st r] obtain v where
    v: "cos_sched_process_events note_visit 0 (seen 2 s traced_example) = Some (0, v)"
    "\<forall>n t. pending (cos_events (sched_areas s (shared_page 2 s))) n \<and> sched_map_evt_thd traced_example n = Some t \<longrightarrow>
      (t, e_flags (cos_events (sched_areas s (shared_page 2 s)) n), cpu_consumption (cos_events (sched_areas s (shared_page 2 s)) n)) \<in> set (trace v)"
    by blast
  ultimately have "(Thd 9, 4, 0) \<in> set (trace v)" using v(2) [rule_format, of 5 "Thd 9"] s(2-4) d(2) by simp
  with q [unfolded d(1)] d(1) st v(1) show ?thesis by blast
qed

end
